(* ===== verification/Prelude.thy ===== *)
theory Prelude
  imports Main "HOL-Library.AList" "HOL-Library.List_Lexorder" "HOL-Library.Char_ord" "HOL-Library.Word"
begin

text \<open>
  Shared vocabulary of the development: the types every component uses (identifiers,
  timestamps, JSON documents, Go error values), the collections of rules that the component
  proofs draw on, and the generic lemmas on lists that the tables of the store need.

  \<^item> \<open>uuid\<close> is an opaque identifier; \<open>uuid_Nil\<close> is Go's zero value \<^verbatim>\<open>uuid.Nil\<close>.
  \<^item> \<open>timestamp\<close> counts nanoseconds, the unit of Go's \<^verbatim>\<open>time.Duration\<close>.
  \<^item> \<open>json\<close> is a decoded JSON document. A number keeps its literal text, so that no
    rounding is hidden in the model.
  \<^item> \<open>go_error\<close> is a Go \<^verbatim>\<open>error\<close> value: the sentinels the code compares with
    \<^verbatim>\<open>errors.Is\<close>, the SQLSTATE classes it inspects, and formatted or wrapped messages.
\<close>

section \<open>Types\<close>

type_synonym uuid = nat
type_synonym timestamp = int

definition uuid_Nil :: uuid where
  "uuid_Nil = 0"

definition Second :: int where
  "Second = 1000000000"

definition Minute :: int where
  "Minute = 60 * Second"

datatype json =
    JNull
  | JBool bool
  | JNum string
  | JStr string
  | JArr "json list"
  | JObj "(string \<times> json) list"

datatype go_error =
    ErrNoRows                    \<comment> \<open>\<^verbatim>\<open>pgx.ErrNoRows\<close>\<close>
  | UniqueViolation              \<comment> \<open>SQLSTATE 23505\<close>
  | ForeignKeyViolation          \<comment> \<open>SQLSTATE 23503\<close>
  | InvalidTextRepresentation    \<comment> \<open>SQLSTATE 22P02: a jsonb column rejects its text\<close>
  | ErrSuspensionNotFound
  | ErrNotWaiting
  | Errorf string                \<comment> \<open>\<^verbatim>\<open>fmt.Errorf\<close> without a wrapped error\<close>
  | Wrapf string go_error        \<comment> \<open>\<^verbatim>\<open>fmt.Errorf("...: %w", err)\<close>\<close>

type_synonym 'a result = "go_error + 'a"

fun errors_Is :: "go_error \<Rightarrow> go_error \<Rightarrow> bool" where
  "errors_Is (Wrapf m e) t = (Wrapf m e = t \<or> errors_Is e t)"
| "errors_Is e t = (e = t)"

text \<open>Sequencing of fallible computations: \<^verbatim>\<open>if err != nil { return err }\<close>.\<close>

definition rbind :: "'a result \<Rightarrow> ('a \<Rightarrow> 'b result) \<Rightarrow> 'b result" where
  "rbind r f = (case r of Inl e \<Rightarrow> Inl e | Inr a \<Rightarrow> f a)"

fun rfold :: "('s \<Rightarrow> 'a \<Rightarrow> 's result) \<Rightarrow> 's \<Rightarrow> 'a list \<Rightarrow> 's result" where
  "rfold f s [] = Inr s"
| "rfold f s (x # xs) = rbind (f s x) (\<lambda>s'. rfold f s' xs)"

fun rmap :: "('a \<Rightarrow> 'b result) \<Rightarrow> 'a list \<Rightarrow> 'b list result" where
  "rmap f [] = Inr []"
| "rmap f (x # xs) = rbind (f x) (\<lambda>y. rbind (rmap f xs) (\<lambda>ys. Inr (y # ys)))"

text \<open>
  Association lists stand for Go maps and JSON objects; \<open>AList.update\<close> stores a binding and
  \<open>map_of\<close> looks one up.
\<close>

section \<open>Rule collections\<close>

named_theorems store_simps \<open>how an operation on one table changes the fields of the store\<close>
named_theorems wf_intros \<open>preservation of the well-formedness invariant of the store\<close>
named_theorems status_simps \<open>which statuses count as terminal, active and done\<close>

section \<open>Generic lemmas\<close>

lemma rbind_simps [simp]: "rbind (Inl e) f = Inl e" "rbind (Inr a) f = f a"
  by (simp_all add: rbind_def)

lemma rbind_Inr_iff: "rbind r f = Inr b \<longleftrightarrow> (\<exists>a. r = Inr a \<and> f a = Inr b)"
  by (cases r) auto

lemma rmap_cong [fundef_cong]:
  "xs = ys \<Longrightarrow> (\<And>x. x \<in> set ys \<Longrightarrow> f x = g x) \<Longrightarrow> rmap f xs = rmap g ys"
  by (induction ys arbitrary: xs) auto

lemma rmap_Inr: "(\<And>x. x \<in> set xs \<Longrightarrow> f x = Inr (g x)) \<Longrightarrow> rmap f xs = Inr (map g xs)"
  by (induction xs) auto

lemma rbind_Inl_iff: "rbind r f = Inl e \<longleftrightarrow> r = Inl e \<or> (\<exists>a. r = Inr a \<and> f a = Inl e)"
  by (cases r) auto

lemma rmap_Inl: "rmap f xs = Inl e \<Longrightarrow> \<exists>x \<in> set xs. f x = Inl e"
  by (induction xs) (auto simp: rbind_Inl_iff)

lemma foldl_update_append:
  assumes "distinct (map fst (old @ m))"
  shows "foldl (\<lambda>c p. AList.update (fst p) (snd p) c) old m = old @ m"
  using assms
proof (induction m arbitrary: old)
  case (Cons p m)
  have upd: "AList.update k v xs = xs @ [(k, v)]" if "k \<notin> fst ` set xs"
    for k :: 'a and v :: 'b and xs
    using that by (induction xs) auto
  from Cons.prems have "AList.update (fst p) (snd p) old = old @ [p]"
    by (subst upd) auto
  with Cons show ?case by simp
qed simp

lemma distinct_map_append_new:
  "distinct (map f (xs @ [x])) \<longleftrightarrow> distinct (map f xs) \<and> f x \<notin> f ` set xs"
  by auto

lemma map_map_same_key:
  assumes "\<And>x. f (g x) = f x"
  shows "map f (map g xs) = map f xs"
  using assms by simp

lemma filter_map_swap: "filter P (map f xs) = map f (filter (\<lambda>x. P (f x)) xs)"
  by (induction xs) auto

lemma find_SomeD: "find P xs = Some x \<Longrightarrow> x \<in> set xs \<and> P x"
  by (induction xs) (auto split: if_splits)

lemma set_map_filter_iff: "y \<in> set (List.map_filter f xs) \<longleftrightarrow> (\<exists>x \<in> set xs. f x = Some y)"
  by (induction xs) (auto simp: List.map_filter_simps split: option.splits)

lemma find_append_Some: "find P xs = Some x \<Longrightarrow> find P (xs @ ys) = Some x"
  by (induction xs) auto

lemma image_map_if:
  assumes "\<And>x. h (f x) = h x"
  shows "h ` set (map (\<lambda>x. if P x then f x else x) xs) = h ` set xs"
  unfolding set_map image_image using assms by (intro image_cong) auto

lemma find_snoc_other: "\<not> P x \<Longrightarrow> find P (xs @ [x]) = find P xs"
  by (induction xs) auto

lemma find_None_iff_ball: "find P xs = None \<longleftrightarrow> (\<forall>x \<in> set xs. \<not> P x)"
  by (induction xs) auto

lemma find_key_unique:
  assumes "distinct (map f xs)" and "x \<in> set xs"
  shows "find (\<lambda>y. f y = f x) xs = Some x"
  using assms by (induction xs) (auto simp: image_iff)

lemma distinct_map_inj_on_set:
  "distinct (map f xs) \<Longrightarrow> x \<in> set xs \<Longrightarrow> y \<in> set xs \<Longrightarrow> f x = f y \<Longrightarrow> x = y"
  by (induction xs) (auto simp: image_iff)

lemma append_sep_inject:
  assumes "c \<notin> set a" and "c \<notin> set b" and "a @ c # x = b @ c # y"
  shows "a = b \<and> x = y"
  using assms
proof (induction a arbitrary: b)
  case Nil
  then show ?case by (cases b) auto
next
  case (Cons z a)
  then show ?case by (cases b) auto
qed

end
