(* ===== verification/Workflow_Definition.thy ===== *)
theory Workflow_Definition
  imports Prelude
begin

text \<open>
  The workflow definition package (\<^verbatim>\<open>internal/definition/definition.go\<close>): the step
  records, lookup by key, the transitive closure of \<open>needs\<close>, and structural validation with
  its three-colour cycle check. Go's recursive closures are nested recursive functions; their
  termination is proved from the finitely many keys that can still be visited.
\<close>

section \<open>Data\<close>

record step =
  st_key :: string
  st_type :: string
  st_needs :: "string list"
  st_if :: string
  st_config :: "(string \<times> json) list"
  st_retries :: int
  st_timeout :: int
  st_ui :: "(string \<times> string) option"

record wf_definition =
  d_name :: string
  d_steps :: "step list"

datatype def_error =
    EmptyKey
  | DuplicateKey string
  | NoType string
  | UnknownType string string
  | RetriesRange string
  | TimeoutRange string
  | NeedsUnknown string string
  | NeedsItself string
  | CycleDetected string
  | NilDereference

datatype color = White | Gray | Black

section \<open>Operations\<close>

definition Step :: "wf_definition \<Rightarrow> string \<Rightarrow> step option" where
  "Step d k = find (\<lambda>s. st_key s = k) (d_steps d)"

text \<open>\<open>visit\<close> of \<^verbatim>\<open>TransitiveNeeds\<close>; \<open>tn_needs\<close> is its loop over the needs of one step.\<close>

function (sequential) tn_visit :: "wf_definition \<Rightarrow> string \<Rightarrow> string set \<Rightarrow> string set"
  and tn_needs :: "wf_definition \<Rightarrow> string list \<Rightarrow> string set \<Rightarrow> string set" where
  "tn_visit d k seen =
     (case Step d k of None \<Rightarrow> seen | Some s \<Rightarrow> tn_needs d (st_needs s) seen)"
| "tn_needs d [] seen = seen"
| "tn_needs d (n # ns) seen =
     (if n \<in> seen then tn_needs d ns seen
      else tn_needs d ns (tn_visit d n (insert n seen)))"
  by pat_completeness auto


definition known_keys :: "wf_definition \<Rightarrow> string set" where
  "known_keys d = set (map st_key (d_steps d)) \<union> (\<Union>s \<in> set (d_steps d). set (st_needs s))"

lemma finite_known_keys [simp]: "finite (known_keys d)"
  by (simp add: known_keys_def)

lemma Step_SomeD: "Step d k = Some s \<Longrightarrow> s \<in> set (d_steps d) \<and> st_key s = k"
  by (auto simp: Step_def dest: find_SomeD)

lemma Step_known: "Step d k = Some s \<Longrightarrow> k \<in> known_keys d"
  by (auto simp: known_keys_def dest!: Step_SomeD)

lemma tn_mono_dom:
  "tn_visit_tn_needs_dom (Inl (d, k, seen)) \<Longrightarrow> seen \<subseteq> tn_visit d k seen"
  "tn_visit_tn_needs_dom (Inr (d, ns, seen)) \<Longrightarrow> seen \<subseteq> tn_needs d ns seen"
proof (induction d k seen and d ns seen rule: tn_visit_tn_needs.pinduct)
  case (1 d k seen)
  then show ?case by (auto simp: tn_visit.psimps split: option.splits)
next
  case (2 d seen)
  then show ?case by (simp add: tn_needs.psimps)
next
  case (3 d n ns seen)
  then show ?case by (cases "n \<in> seen") (auto simp: tn_needs.psimps)
qed

lemma card_unseen_mono: "A \<subseteq> B \<Longrightarrow> card (known_keys d - B) \<le> card (known_keys d - A)"
  by (rule card_mono) auto

lemma card_unseen_less:
  assumes "n \<in> known_keys d" and "n \<notin> seen"
  shows "card (known_keys d - insert n seen) < card (known_keys d - seen)"
  using assms by (intro psubset_card_mono) auto

termination tn_visit
proof (relation "inv_image (less_than <*lex*> less_than)
    (\<lambda>x. case x of Inl (d, k, seen) \<Rightarrow> (2 * card (known_keys d - seen) + (if Step d k = None then 0 else 1), 0::nat)
      | Inr (d, ns, seen) \<Rightarrow> (2 * card (known_keys d - seen), Suc (length ns)))", goal_cases)
  case (4 d n ns seen)
  show ?case
  proof (cases "Step d n")
    case None
    with card_unseen_mono [OF subset_insertI [of seen n], of d] show ?thesis by auto
  next
    case (Some s)
    with card_unseen_less [OF Step_known [OF Some] 4] show ?thesis by auto
  qed
next
  case (5 d n ns seen)
  then have "seen \<subseteq> tn_visit d n (insert n seen)"
    using tn_mono_dom(1) by blast
  then have "card (known_keys d - tn_visit d n (insert n seen)) \<le> card (known_keys d - seen)"
    by (rule card_unseen_mono)
  then show ?case by auto
qed auto


definition TransitiveNeeds :: "wf_definition \<Rightarrow> string \<Rightarrow> string set" where
  "TransitiveNeeds d key = tn_visit d key {}"

text \<open>
  \<^verbatim>\<open>Validate\<close>. The first loop walks the steps with the set of keys seen so far, the second
  checks every \<open>needs\<close> entry against the complete key set. \<open>knownTypes = None\<close> is a nil
  function: the type check is skipped.
\<close>

fun validate_steps ::
  "(string \<Rightarrow> bool) option \<Rightarrow> string set \<Rightarrow> step list \<Rightarrow> def_error + string set" where
  "validate_steps known keys [] = Inr keys"
| "validate_steps known keys (s # ss) =
     (if st_key s = [] then Inl EmptyKey
      else if st_key s \<in> keys then Inl (DuplicateKey (st_key s))
      else if st_type s = [] then Inl (NoType (st_key s))
      else if (case known of None \<Rightarrow> False | Some f \<Rightarrow> \<not> f (st_type s))
        then Inl (UnknownType (st_key s) (st_type s))
      else if st_retries s < 0 \<or> st_retries s > 10 then Inl (RetriesRange (st_key s))
      else if st_timeout s < 0 \<or> st_timeout s > 600 then Inl (TimeoutRange (st_key s))
      else validate_steps known (insert (st_key s) keys) ss)"

fun validate_needs :: "string set \<Rightarrow> string \<Rightarrow> string list \<Rightarrow> def_error option" where
  "validate_needs keys k [] = None"
| "validate_needs keys k (n # ns) =
     (if n \<notin> keys then Some (NeedsUnknown k n)
      else if n = k then Some (NeedsItself k)
      else validate_needs keys k ns)"

fun validate_all_needs :: "string set \<Rightarrow> step list \<Rightarrow> def_error option" where
  "validate_all_needs keys [] = None"
| "validate_all_needs keys (s # ss) =
     (case validate_needs keys (st_key s) (st_needs s) of
        Some e \<Rightarrow> Some e
      | None \<Rightarrow> validate_all_needs keys ss)"

text \<open>
  \<open>visit\<close> of \<^verbatim>\<open>checkAcyclic\<close>: white is Go's missing map entry. Looking up an unknown key
  dereferences a nil step in Go, which the model reports as \<open>NilDereference\<close>.
\<close>

type_synonym colors = "string \<Rightarrow> color"

function (sequential) ca_visit :: "wf_definition \<Rightarrow> string \<Rightarrow> colors \<Rightarrow> def_error + colors"
  and ca_needs :: "wf_definition \<Rightarrow> string list \<Rightarrow> colors \<Rightarrow> def_error + colors" where
  "ca_visit d k col =
     (case col k of
        Gray \<Rightarrow> Inl (CycleDetected k)
      | Black \<Rightarrow> Inr col
      | White \<Rightarrow>
          (case Step d k of
             None \<Rightarrow> Inl NilDereference
           | Some s \<Rightarrow>
               (case ca_needs d (st_needs s) (col(k := Gray)) of
                  Inl e \<Rightarrow> Inl e
                | Inr col' \<Rightarrow> Inr (col'(k := Black)))))"
| "ca_needs d [] col = Inr col"
| "ca_needs d (n # ns) col =
     (case ca_visit d n col of
        Inl e \<Rightarrow> Inl e
      | Inr col' \<Rightarrow> ca_needs d ns col')"
  by pat_completeness auto

definition whites :: "wf_definition \<Rightarrow> colors \<Rightarrow> string set" where
  "whites d col = {k \<in> known_keys d. col k = White}"

lemma finite_whites [simp]: "finite (whites d col)"
  by (simp add: whites_def)

lemma ca_whites_dom:
  "ca_visit_ca_needs_dom (Inl (d, k, col)) \<Longrightarrow> ca_visit d k col = Inr col' \<Longrightarrow> whites d col' \<subseteq> whites d col"
  "ca_visit_ca_needs_dom (Inr (d, ns, col)) \<Longrightarrow> ca_needs d ns col = Inr col' \<Longrightarrow> whites d col' \<subseteq> whites d col"
proof (induction d k col and d ns col arbitrary: col' and col' rule: ca_visit_ca_needs.pinduct)
  case (1 d k col)
  show ?case
  proof (cases "col k = White")
    case True
    with 1 obtain s c where s: "Step d k = Some s"
      and c: "ca_needs d (st_needs s) (col(k := Gray)) = Inr c" and "col' = c(k := Black)"
      by (auto simp: ca_visit.psimps split: option.splits sum.splits)
    have "whites d c \<subseteq> whites d (col(k := Gray))"
      by (rule "1.IH" [OF True s c])
    with \<open>col' = c(k := Black)\<close> show ?thesis by (auto simp: whites_def split: if_splits)
  next
    case False
    with 1 show ?thesis by (cases "col k") (auto simp: ca_visit.psimps)
  qed
next
  case (2 d col)
  then show ?case by (simp add: ca_needs.psimps)
next
  case (3 d n ns col)
  then show ?case by (fastforce simp: ca_needs.psimps split: sum.splits)
qed

termination ca_visit
proof (relation "inv_image (less_than <*lex*> less_than)
    (\<lambda>x. case x of Inl (d, k, col) \<Rightarrow> (card (whites d col), 0::nat)
      | Inr (d, ns, col) \<Rightarrow> (card (whites d col), Suc (length ns)))", goal_cases)
  case (2 d k col s)
  have "whites d (col(k := Gray)) \<subset> whites d col"
    using 2 Step_known [OF 2(2)] by (auto simp: whites_def)
  then have "card (whites d (col(k := Gray))) < card (whites d col)"
    by (intro psubset_card_mono) simp_all
  then show ?case by simp
next
  case (4 d n ns col col')
  then have "whites d col' \<subseteq> whites d col"
    using ca_whites_dom(1) by blast
  then have "card (whites d col') \<le> card (whites d col)"
    by (intro card_mono) simp_all
  then show ?case by auto
qed auto

fun ca_all :: "wf_definition \<Rightarrow> step list \<Rightarrow> colors \<Rightarrow> def_error option" where
  "ca_all d [] col = None"
| "ca_all d (s # ss) col =
     (case ca_visit d (st_key s) col of
        Inl e \<Rightarrow> Some e
      | Inr col' \<Rightarrow> ca_all d ss col')"

definition checkAcyclic :: "wf_definition \<Rightarrow> def_error option" where
  "checkAcyclic d = ca_all d (d_steps d) (\<lambda>_. White)"

definition Validate :: "wf_definition \<Rightarrow> (string \<Rightarrow> bool) option \<Rightarrow> def_error option" where
  "Validate d known =
     (case validate_steps known {} (d_steps d) of
        Inl e \<Rightarrow> Some e
      | Inr keys \<Rightarrow>
          (case validate_all_needs keys (d_steps d) of
             Some e \<Rightarrow> Some e
           | None \<Rightarrow> checkAcyclic d))"


section \<open>The needs relation\<close>

definition needs_rel :: "wf_definition \<Rightarrow> (string \<times> string) set" where
  "needs_rel d = {(k, n). \<exists>s. Step d k = Some s \<and> n \<in> set (st_needs s)}"

declare tn_visit.simps [simp del] tn_needs.simps [simp del]
  ca_visit.simps [simp del] ca_needs.simps [simp del]

lemma tn_visit_Some: "Step d k = Some s \<Longrightarrow> tn_visit d k seen = tn_needs d (st_needs s) seen"
  by (simp add: tn_visit.simps)

lemma tn_visit_None: "Step d k = None \<Longrightarrow> tn_visit d k seen = seen"
  by (simp add: tn_visit.simps)

lemma tn_needs_Nil [simp]: "tn_needs d [] seen = seen"
  by (simp add: tn_needs.simps)

lemma tn_needs_seen [simp]: "n \<in> seen \<Longrightarrow> tn_needs d (n # ns) seen = tn_needs d ns seen"
  by (simp add: tn_needs.simps)

lemma tn_needs_new [simp]:
  "n \<notin> seen \<Longrightarrow> tn_needs d (n # ns) seen = tn_needs d ns (tn_visit d n (insert n seen))"
  by (simp add: tn_needs.simps)

lemma needs_rel_Step: "Step d k = Some s \<Longrightarrow> (k, n) \<in> needs_rel d \<longleftrightarrow> n \<in> set (st_needs s)"
  by (simp add: needs_rel_def)

lemma needs_rel_no_Step: "Step d k = None \<Longrightarrow> (k, n) \<notin> needs_rel d"
  by (simp add: needs_rel_def)

lemma tn_mono: "seen \<subseteq> tn_visit d k seen" "seen \<subseteq> tn_needs d ns seen"
proof (induction d k seen and d ns seen rule: tn_visit_tn_needs.induct)
  case (1 d k seen)
  then show ?case by (cases "Step d k") (simp_all add: tn_visit_Some tn_visit_None)
next
  case (3 d n ns seen)
  then show ?case by (cases "n \<in> seen") auto
qed simp

lemma tn_sound:
  "tn_visit d k seen \<subseteq> seen \<union> (needs_rel d)\<^sup>+ `` {k}"
  "tn_needs d ns seen \<subseteq> seen \<union> (needs_rel d)\<^sup>* `` set ns"
proof (induction d k seen and d ns seen rule: tn_visit_tn_needs.induct)
  case (1 d k seen)
  show ?case
  proof (cases "Step d k")
    case None
    then show ?thesis by (simp add: tn_visit_None)
  next
    case (Some s)
    have "(needs_rel d)\<^sup>* `` set (st_needs s) \<subseteq> (needs_rel d)\<^sup>+ `` {k}"
      using Some by (auto simp: needs_rel_Step intro: rtrancl_into_trancl2)
    with "1.IH" [OF Some] Some show ?thesis by (auto simp: tn_visit_Some)
  qed
next
  case (3 d n ns seen)
  show ?case
  proof (cases "n \<in> seen")
    case True
    with "3.IH"(1) show ?thesis by auto
  next
    case False
    have "(needs_rel d)\<^sup>+ `` {n} \<subseteq> (needs_rel d)\<^sup>* `` {n}" by auto
    with "3.IH"(2,3) [OF False] False show ?thesis by simp blast
  qed
qed simp

text \<open>Everything newly collected is closed under \<open>needs\<close>.\<close>

definition tn_closed_from :: "wf_definition \<Rightarrow> string set \<Rightarrow> string set \<Rightarrow> bool" where
  "tn_closed_from d seen res \<longleftrightarrow> (\<forall>x \<in> res - seen. \<forall>n. (x, n) \<in> needs_rel d \<longrightarrow> n \<in> res)"

lemma tn_closed_from_trans:
  assumes "tn_closed_from d (insert n seen) A" and "\<forall>m. (n, m) \<in> needs_rel d \<longrightarrow> m \<in> A"
    and "tn_closed_from d A B" and "A \<subseteq> B"
  shows "tn_closed_from d seen B"
  using assms unfolding tn_closed_from_def by blast

lemma tn_closed:
  "(\<forall>n. (k, n) \<in> needs_rel d \<longrightarrow> n \<in> tn_visit d k seen) \<and> tn_closed_from d seen (tn_visit d k seen)"
  "set ns \<subseteq> tn_needs d ns seen \<and> tn_closed_from d seen (tn_needs d ns seen)"
proof (induction d k seen and d ns seen rule: tn_visit_tn_needs.induct)
  case (1 d k seen)
  show ?case
  proof (cases "Step d k")
    case None
    then show ?thesis by (simp add: tn_visit_None needs_rel_no_Step tn_closed_from_def)
  next
    case (Some s)
    with "1.IH" [OF Some] show ?thesis by (auto simp: tn_visit_Some needs_rel_Step)
  qed
next
  case (2 d seen)
  then show ?case by (simp add: tn_closed_from_def)
next
  case (3 d n ns seen)
  show ?case
  proof (cases "n \<in> seen")
    case True
    with "3.IH"(1) [OF True] tn_mono(2) [of seen d ns] show ?thesis by auto
  next
    case False
    define A where "A = tn_visit d n (insert n seen)"
    have "insert n seen \<subseteq> A" "A \<subseteq> tn_needs d ns A"
      using tn_mono unfolding A_def by blast+
    moreover have "tn_closed_from d seen (tn_needs d ns A)"
      using "3.IH"(2,3) [OF False] \<open>A \<subseteq> _\<close> unfolding A_def [symmetric]
      by (blast intro: tn_closed_from_trans)
    ultimately show ?thesis
      using "3.IH"(3) [OF False] False unfolding A_def by auto
  qed
qed

lemma TransitiveNeeds_closed:
  assumes "(k, n) \<in> (needs_rel d)\<^sup>+"
  shows "n \<in> TransitiveNeeds d k"
  using assms
proof (induction rule: trancl_induct)
  case (base n)
  then show ?case using tn_closed(1) [of k d "{}"] by (simp add: TransitiveNeeds_def)
next
  case (step m n)
  then show ?case using tn_closed(1) [of k d "{}"]
    by (simp add: TransitiveNeeds_def tn_closed_from_def)
qed

lemma TransitiveNeeds_iff: "n \<in> TransitiveNeeds d k \<longleftrightarrow> (k, n) \<in> (needs_rel d)\<^sup>+"
  using tn_sound(1) [of d k "{}"] TransitiveNeeds_closed by (auto simp: TransitiveNeeds_def)


section \<open>The cycle check decides acyclicity\<close>

lemma ca_visit_Gray: "col k = Gray \<Longrightarrow> ca_visit d k col = Inl (CycleDetected k)"
  by (simp add: ca_visit.simps)

lemma ca_visit_Black: "col k = Black \<Longrightarrow> ca_visit d k col = Inr col"
  by (simp add: ca_visit.simps)

lemma ca_visit_unknown: "col k = White \<Longrightarrow> Step d k = None \<Longrightarrow> ca_visit d k col = Inl NilDereference"
  by (simp add: ca_visit.simps)

lemma ca_visit_White:
  "col k = White \<Longrightarrow> Step d k = Some s \<Longrightarrow>
   ca_visit d k col =
     (case ca_needs d (st_needs s) (col(k := Gray)) of
        Inl e \<Rightarrow> Inl e | Inr c \<Rightarrow> Inr (c(k := Black)))"
  by (simp add: ca_visit.simps)

lemma ca_needs_Nil [simp]: "ca_needs d [] col = Inr col"
  by (simp add: ca_needs.simps)

lemma ca_needs_Cons [simp]:
  "ca_needs d (n # ns) col = (case ca_visit d n col of Inl e \<Rightarrow> Inl e | Inr c \<Rightarrow> ca_needs d ns c)"
  by (simp add: ca_needs.simps)

definition ca_ext :: "colors \<Rightarrow> colors \<Rightarrow> bool" where
  "ca_ext col col' \<longleftrightarrow> (\<forall>x. (col x = Gray \<longleftrightarrow> col' x = Gray) \<and> (col x = Black \<longrightarrow> col' x = Black))"

definition black_ok :: "wf_definition \<Rightarrow> colors \<Rightarrow> bool" where
  "black_ok d col \<longleftrightarrow>
     (\<forall>k. col k = Black \<longrightarrow> (k, k) \<notin> (needs_rel d)\<^sup>+ \<and> (\<forall>n. (k, n) \<in> needs_rel d \<longrightarrow> col n = Black))"

lemma ca_ext_refl [simp]: "ca_ext col col"
  by (simp add: ca_ext_def)

lemma ca_ext_trans: "ca_ext a b \<Longrightarrow> ca_ext b c \<Longrightarrow> ca_ext a c"
  by (simp add: ca_ext_def)

lemma ca_ext_Gray: "ca_ext col c \<Longrightarrow> col x = Gray \<longleftrightarrow> c x = Gray"
  by (simp add: ca_ext_def)

lemma ca_ext_upd:
  assumes "ca_ext (col(k := Gray)) c" and "col k = White"
  shows "ca_ext col (c(k := Black))"
  unfolding ca_ext_def
proof (intro allI conjI)
  fix x
  show "(col x = Gray) = ((c(k := Black)) x = Gray)" "col x = Black \<longrightarrow> (c(k := Black)) x = Black"
    using assms spec [OF assms(1) [unfolded ca_ext_def], of x] by auto
qed

lemma ca_visit_cases [consumes 1, case_names Black White]:
  assumes "ca_visit d k col = Inr col'"
  obtains "col k = Black" "col' = col"
  | s c where "col k = White" "Step d k = Some s"
      "ca_needs d (st_needs s) (col(k := Gray)) = Inr c" "col' = c(k := Black)"
  using assms
  by (cases "col k"; cases "Step d k")
    (auto simp: ca_visit_Gray ca_visit_Black ca_visit_unknown ca_visit_White split: sum.splits)

lemma ca_ext_Inr:
  "ca_visit d k col = Inr col' \<Longrightarrow> ca_ext col col' \<and> col' k = Black"
  "ca_needs d ns col = Inr col' \<Longrightarrow> ca_ext col col' \<and> (\<forall>n \<in> set ns. col' n = Black)"
proof (induction d k col and d ns col arbitrary: col' and col' rule: ca_visit_ca_needs.induct)
  case (1 d k col)
  from "1.prems" show ?case
  proof (cases rule: ca_visit_cases)
    case Black
    then show ?thesis by simp
  next
    case (White s c)
    from "1.IH" [OF White(1,2,3)] White(1) have "ca_ext col (c(k := Black))"
      by (blast intro: ca_ext_upd)
    then show ?thesis using White(4) by (metis fun_upd_same)
  qed
next
  case (3 d n ns col)
  then obtain c where c: "ca_visit d n col = Inr c" "ca_needs d ns c = Inr col'"
    by (auto split: sum.splits)
  with "3.IH"(1) [OF c(1)] "3.IH"(2) [OF c(1,2)] show ?case
    by (auto simp: ca_ext_def)
qed simp

lemma black_ok_closed:
  assumes "black_ok d col" and "col n = Black" and "(n, x) \<in> (needs_rel d)\<^sup>*"
  shows "col x = Black"
  using assms(3,2) by (induction rule: rtrancl_induct) (use assms(1) in \<open>auto simp: black_ok_def\<close>)

lemma black_ok_finish:
  assumes ok: "black_ok d c" and gray: "c k = Gray" and needs: "\<forall>n. (k, n) \<in> needs_rel d \<longrightarrow> c n = Black"
  shows "black_ok d (c(k := Black))"
proof -
  have "(k, k) \<notin> (needs_rel d)\<^sup>+"
  proof
    assume "(k, k) \<in> (needs_rel d)\<^sup>+"
    then obtain n where "(k, n) \<in> needs_rel d" "(n, k) \<in> (needs_rel d)\<^sup>*"
      by (metis tranclD)
    with needs black_ok_closed [OF ok] have "c k = Black" by blast
    with gray show False by simp
  qed
  with ok needs show ?thesis by (auto simp: black_ok_def)
qed

lemma ca_black_ok:
  "ca_visit d k col = Inr col' \<Longrightarrow> black_ok d col \<Longrightarrow> black_ok d col'"
  "ca_needs d ns col = Inr col' \<Longrightarrow> black_ok d col \<Longrightarrow> black_ok d col'"
proof (induction d k col and d ns col arbitrary: col' and col' rule: ca_visit_ca_needs.induct)
  case (1 d k col)
  from "1.prems"(1) show ?case
  proof (cases rule: ca_visit_cases)
    case Black
    with "1.prems" show ?thesis by simp
  next
    case (White s c)
    have "black_ok d (col(k := Gray))"
      using "1.prems"(2) White(1) unfolding black_ok_def by auto
    then have "black_ok d c" by (rule "1.IH" [OF White(1,2,3)])
    moreover have "c k = Gray" "\<forall>n \<in> set (st_needs s). c n = Black"
      using ca_ext_Inr(2) [OF White(3)] by (auto simp: ca_ext_def split: if_splits)
    ultimately have "black_ok d (c(k := Black))"
      by (intro black_ok_finish) (auto simp: needs_rel_Step [OF White(2)])
    then show ?thesis using White(4) by metis
  qed
next
  case (3 d n ns col)
  then obtain c where c: "ca_visit d n col = Inr c" "ca_needs d ns c = Inr col'"
    by (auto split: sum.splits)
  with 3 show ?case by blast
qed simp

text \<open>A reported cycle is one: the grey steps are exactly the path that led to the current step.\<close>

lemma ca_cycle:
  "ca_visit d k col = Inl (CycleDetected y) \<Longrightarrow>
    \<forall>x. col x = Gray \<longrightarrow> (x, k) \<in> (needs_rel d)\<^sup>+ \<Longrightarrow> (y, y) \<in> (needs_rel d)\<^sup>+"
  "ca_needs d ns col = Inl (CycleDetected y) \<Longrightarrow>
    \<forall>n \<in> set ns. \<forall>x. col x = Gray \<longrightarrow> (x, n) \<in> (needs_rel d)\<^sup>+ \<Longrightarrow> (y, y) \<in> (needs_rel d)\<^sup>+"
proof (induction d k col and d ns col rule: ca_visit_ca_needs.induct)
  case (1 d k col)
  show ?case
  proof (cases "col k")
    case White
    with "1.prems"(1) obtain s where s: "Step d k = Some s"
      "ca_needs d (st_needs s) (col(k := Gray)) = Inl (CycleDetected y)"
      by (cases "Step d k") (auto simp: ca_visit_unknown ca_visit_White split: sum.splits)
    have "\<forall>n \<in> set (st_needs s). \<forall>x. (col(k := Gray)) x = Gray \<longrightarrow> (x, n) \<in> (needs_rel d)\<^sup>+"
      using "1.prems"(2) s(1) by (auto simp: needs_rel_Step intro: trancl_into_trancl)
    with "1.IH" [OF White s(1) s(2)] show ?thesis by blast
  qed (use "1.prems" in \<open>auto simp: ca_visit_Gray ca_visit_Black\<close>)
next
  case (3 d n ns col)
  show ?case
  proof (cases "ca_visit d n col")
    case (Inl e)
    with 3 show ?thesis by auto
  next
    case (Inr c)
    with "3.prems" ca_ext_Inr(1) [OF Inr]
    have "ca_needs d ns c = Inl (CycleDetected y)"
      "\<forall>n \<in> set ns. \<forall>x. c x = Gray \<longrightarrow> (x, n) \<in> (needs_rel d)\<^sup>+"
      by (auto simp: ca_ext_def)
    with "3.IH"(2) [OF Inr] show ?thesis by blast
  qed
qed simp

lemma ca_errors:
  assumes known: "\<forall>k n. (k, n) \<in> needs_rel d \<longrightarrow> Step d n \<noteq> None"
  shows "Step d k \<noteq> None \<Longrightarrow> ca_visit d k col = Inl e \<Longrightarrow> \<exists>y. e = CycleDetected y"
    and "\<forall>n \<in> set ns. Step d n \<noteq> None \<Longrightarrow> ca_needs d ns col = Inl e \<Longrightarrow> \<exists>y. e = CycleDetected y"
  using known
proof (induction d k col and d ns col rule: ca_visit_ca_needs.induct)
  case (1 d k col)
  show ?case
  proof (cases "col k")
    case White
    with 1(2,3) obtain s where s: "Step d k = Some s"
      "ca_needs d (st_needs s) (col(k := Gray)) = Inl e"
      by (auto simp: ca_visit_White split: sum.splits)
    moreover have "\<forall>n \<in> set (st_needs s). Step d n \<noteq> None"
      using 1(4) s(1) by (auto simp: needs_rel_def)
    ultimately show ?thesis using 1(1) [OF White s(1) _ s(2) 1(4)] by blast
  qed (use 1(3) in \<open>auto simp: ca_visit_Gray ca_visit_Black\<close>)
next
  case (3 d n ns col)
  then show ?case by (cases "ca_visit d n col") auto
qed simp


section \<open>Validation against its specification\<close>

definition step_ok :: "(string \<Rightarrow> bool) option \<Rightarrow> step \<Rightarrow> bool" where
  "step_ok known s \<longleftrightarrow>
     st_key s \<noteq> [] \<and> st_type s \<noteq> [] \<and>
     (case known of None \<Rightarrow> True | Some f \<Rightarrow> f (st_type s)) \<and>
     0 \<le> st_retries s \<and> st_retries s \<le> 10 \<and> 0 \<le> st_timeout s \<and> st_timeout s \<le> 600"

definition valid_definition :: "wf_definition \<Rightarrow> (string \<Rightarrow> bool) option \<Rightarrow> bool" where
  "valid_definition d known \<longleftrightarrow>
     distinct (map st_key (d_steps d)) \<and>
     (\<forall>s \<in> set (d_steps d). step_ok known s \<and> set (st_needs s) \<subseteq> set (map st_key (d_steps d))) \<and>
     acyclic (needs_rel d)"

lemma valid_definition_distinct: "valid_definition d known \<Longrightarrow> distinct (map st_key (d_steps d))"
  by (simp add: valid_definition_def)

lemma validate_steps_Inr:
  "validate_steps known keys ss = Inr keys' \<longleftrightarrow>
     keys' = keys \<union> set (map st_key ss) \<and> distinct (map st_key ss) \<and>
     set (map st_key ss) \<inter> keys = {} \<and> (\<forall>s \<in> set ss. step_ok known s)"
  by (induction ss arbitrary: keys) (auto simp: step_ok_def split: option.splits)

lemma validate_needs_None:
  "validate_needs keys k ns = None \<longleftrightarrow> set ns \<subseteq> keys \<and> k \<notin> set ns"
  by (induction ns) auto

lemma validate_all_needs_None:
  "validate_all_needs keys ss = None \<longleftrightarrow>
     (\<forall>s \<in> set ss. set (st_needs s) \<subseteq> keys \<and> st_key s \<notin> set (st_needs s))"
proof (induction ss)
  case (Cons s ss)
  then show ?case
    using validate_needs_None [of keys "st_key s" "st_needs s"]
    by (cases "validate_needs keys (st_key s) (st_needs s)") auto
qed simp

lemma Step_eq_Some_iff:
  "distinct (map st_key (d_steps d)) \<Longrightarrow> Step d k = Some s \<longleftrightarrow> s \<in> set (d_steps d) \<and> st_key s = k"
  using find_key_unique [of st_key "d_steps d" s] by (auto simp: Step_def dest: find_SomeD)

lemma Step_None_iff: "Step d k = None \<longleftrightarrow> k \<notin> set (map st_key (d_steps d))"
  by (auto simp: Step_def find_None_iff_ball)

lemma needs_relD: "(k, n) \<in> needs_rel d \<Longrightarrow> \<exists>s \<in> set (d_steps d). st_key s = k \<and> n \<in> set (st_needs s)"
  by (auto simp: needs_rel_def dest!: Step_SomeD)

lemma finite_needs_rel [simp]: "finite (needs_rel d)"
proof (rule finite_subset)
  show "needs_rel d \<subseteq> known_keys d \<times> known_keys d"
    by (auto simp: known_keys_def dest!: needs_relD)
qed simp

lemma ca_all_sound:
  "ca_all d ss col = None \<Longrightarrow> black_ok d col \<Longrightarrow>
    \<exists>col'. black_ok d col' \<and> (\<forall>x. col x = Black \<longrightarrow> col' x = Black) \<and> (\<forall>s \<in> set ss. col' (st_key s) = Black)"
proof (induction ss arbitrary: col)
  case (Cons s ss)
  then obtain c where c: "ca_visit d (st_key s) col = Inr c" "ca_all d ss c = None"
    by (auto split: sum.splits)
  with Cons.IH [OF c(2) ca_black_ok(1) [OF c(1) Cons.prems(2)]] ca_ext_Inr(1) [OF c(1)]
  show ?case by (auto simp: ca_ext_def)
qed auto

lemma ca_all_complete:
  assumes "ca_all d ss col = Some e" and "\<forall>x. col x \<noteq> Gray"
    and "\<forall>k n. (k, n) \<in> needs_rel d \<longrightarrow> Step d n \<noteq> None" and "\<forall>s \<in> set ss. Step d (st_key s) \<noteq> None"
  shows "\<exists>y. e = CycleDetected y \<and> (y, y) \<in> (needs_rel d)\<^sup>+"
  using assms
proof (induction ss arbitrary: col)
  case (Cons s ss)
  show ?case
  proof (cases "ca_visit d (st_key s) col")
    case (Inl e')
    with Cons.prems have "ca_visit d (st_key s) col = Inl e" by simp
    with Cons.prems ca_errors(1) [of d "st_key s" col e] ca_cycle(1) [of d "st_key s" col]
    show ?thesis by auto
  next
    case (Inr c)
    then have "\<forall>x. c x \<noteq> Gray"
      using ca_ext_Inr(1) [OF Inr] Cons.prems(2) by (auto simp: ca_ext_def)
    with Inr Cons show ?thesis by auto
  qed
qed simp

lemma checkAcyclic_None:
  assumes "checkAcyclic d = None"
  shows "acyclic (needs_rel d)"
proof (rule acyclicI, rule allI, rule notI)
  fix k assume cyc: "(k, k) \<in> (needs_rel d)\<^sup>+"
  obtain col where col: "black_ok d col" "\<forall>s \<in> set (d_steps d). col (st_key s) = Black"
    using ca_all_sound [OF assms [unfolded checkAcyclic_def]] by (auto simp: black_ok_def)
  from cyc obtain n where "(k, n) \<in> needs_rel d" by (metis tranclD)
  with col have "col k = Black" by (auto dest!: needs_relD)
  with col(1) cyc show False by (simp add: black_ok_def)
qed

lemma checkAcyclic_Some:
  assumes "checkAcyclic d = Some e" and "\<forall>k n. (k, n) \<in> needs_rel d \<longrightarrow> Step d n \<noteq> None"
  shows "\<exists>y. e = CycleDetected y \<and> (y, y) \<in> (needs_rel d)\<^sup>+"
  using ca_all_complete [OF assms(1) [unfolded checkAcyclic_def] _ assms(2)]
  by (auto simp: Step_None_iff)

lemma Validate_None_iff: "Validate d known = None \<longleftrightarrow> valid_definition d known"
proof
  assume "Validate d known = None"
  then show "valid_definition d known"
    by (auto simp: Validate_def valid_definition_def validate_steps_Inr validate_all_needs_None
        split: sum.splits option.splits dest: checkAcyclic_None)
next
  assume v: "valid_definition d known"
  let ?keys = "set (map st_key (d_steps d))"
  have steps: "validate_steps known {} (d_steps d) = Inr ?keys"
    using v by (simp add: validate_steps_Inr valid_definition_def)
  have irrefl: "(k, k) \<notin> needs_rel d" for k
    using v by (auto simp: valid_definition_def acyclic_def)
  have "st_key s \<notin> set (st_needs s)" if "s \<in> set (d_steps d)" for s
    using irrefl [of "st_key s"] that v
    by (auto simp: needs_rel_def valid_definition_def Step_eq_Some_iff)
  then have needs: "validate_all_needs ?keys (d_steps d) = None"
    using v by (auto simp: validate_all_needs_None valid_definition_def)
  have "\<forall>k n. (k, n) \<in> needs_rel d \<longrightarrow> Step d n \<noteq> None"
    using v by (auto simp: valid_definition_def Step_None_iff dest!: needs_relD)
  with checkAcyclic_Some [of d] v have "checkAcyclic d = None"
    by (cases "checkAcyclic d") (auto simp: valid_definition_def acyclic_def)
  with steps needs show "Validate d known = None"
    by (simp add: Validate_def)
qed

text \<open>
  What the engine relies on: while some step of a valid definition is not done, some undone step
  has all its needs done.
\<close>

lemma valid_definition_progress:
  assumes v: "valid_definition d known" and s: "s \<in> set (d_steps d)" "st_key s \<notin> D"
  shows "\<exists>t \<in> set (d_steps d). st_key t \<notin> D \<and> set (st_needs t) \<subseteq> D"
proof -
  let ?S = "set (map st_key (d_steps d)) - D"
  have "wf ((needs_rel d)\<inverse>)"
    using v by (intro finite_acyclic_wf_converse) (auto simp: valid_definition_def)
  moreover have "st_key s \<in> ?S" using s by simp
  ultimately obtain z where z: "z \<in> ?S" "\<And>y. (y, z) \<in> (needs_rel d)\<inverse> \<Longrightarrow> y \<notin> ?S"
    by (rule wfE_min) blast
  from z(1) obtain t where t: "t \<in> set (d_steps d)" "st_key t = z" by auto
  with v have "Step d z = Some t" "set (st_needs t) \<subseteq> set (map st_key (d_steps d))"
    by (auto simp: valid_definition_def Step_eq_Some_iff)
  with z(2) have "set (st_needs t) \<subseteq> D" by (auto simp: needs_rel_Step)
  with t z(1) show ?thesis by auto
qed

section \<open>Properties\<close>

text \<open>
  C38. Validation is exact: \<^verbatim>\<open>Validate\<close> accepts a definition if and only if its keys are non-empty
  and distinct, every step has a known type and retries and timeout in range, every need names a
  step, and the needs relation is acyclic.
\<close>

theorem Validate_accepts_exactly_the_valid_definitions:
  "Validate d known = None \<longleftrightarrow>
     distinct (map st_key (d_steps d)) \<and>
     list_all (\<lambda>s. step_ok known s \<and> set (st_needs s) \<subseteq> set (map st_key (d_steps d))) (d_steps d) \<and>
     acyclic (needs_rel d)"
  by (simp add: Validate_None_iff valid_definition_def list_all_iff)

lemma Validate_Some_checkAcyclic:
  assumes "Validate d known = Some (CycleDetected y) \<or> Validate d known = Some NilDereference"
  shows "checkAcyclic d = Validate d known \<and> (\<forall>k n. (k, n) \<in> needs_rel d \<longrightarrow> Step d n \<noteq> None)"
proof -
  have steps: "validate_steps known keys ss \<noteq> Inl (CycleDetected y)" "validate_steps known keys ss \<noteq> Inl NilDereference"
    for keys ss by (induction ss arbitrary: keys) auto
  have needs: "validate_needs keys k ns \<noteq> Some (CycleDetected y)" "validate_needs keys k ns \<noteq> Some NilDereference"
    for keys k ns by (induction ns) auto
  have all: "validate_all_needs keys ss \<noteq> Some (CycleDetected y)" "validate_all_needs keys ss \<noteq> Some NilDereference"
    for keys ss by (induction ss) (auto simp: needs split: option.splits)
  from assms obtain keys where keys: "validate_steps known {} (d_steps d) = Inr keys"
    "validate_all_needs keys (d_steps d) = None"
    by (auto simp: Validate_def steps all split: sum.splits option.splits)
  then have "\<forall>k n. (k, n) \<in> needs_rel d \<longrightarrow> Step d n \<noteq> None"
    by (auto simp: validate_steps_Inr validate_all_needs_None Step_None_iff dest!: needs_relD)
  with keys show ?thesis by (simp add: Validate_def)
qed

text \<open>
  C39. A reported cycle is real: when \<^verbatim>\<open>Validate\<close> answers that a cycle involves step \<open>y\<close>, then \<open>y\<close>
  needs itself through a non-empty chain of needs.
\<close>

theorem Validate_reports_a_real_cycle:
  assumes "Validate d known = Some (CycleDetected y)"
  shows "(y, y) \<in> (needs_rel d)\<^sup>+"
proof -
  from assms have "checkAcyclic d = Some (CycleDetected y)" "\<forall>k n. (k, n) \<in> needs_rel d \<longrightarrow> Step d n \<noteq> None"
    using Validate_Some_checkAcyclic [of d known y] by auto
  with checkAcyclic_Some [of d] show ?thesis by auto
qed

theorem Validate_reports_a_real_cycle_witness:
  "(''a'', ''a'') \<in> (needs_rel \<lparr>d_name = [], d_steps =
     [\<lparr>st_key = ''a'', st_type = ''delay'', st_needs = [''b''], st_if = [], st_config = [],
       st_retries = 0, st_timeout = 0, st_ui = None\<rparr>,
      \<lparr>st_key = ''b'', st_type = ''delay'', st_needs = [''a''], st_if = [], st_config = [],
       st_retries = 0, st_timeout = 0, st_ui = None\<rparr>]\<rparr>)\<^sup>+"
  by (rule Validate_reports_a_real_cycle [of _ None]) code_simp

text \<open>
  Validation never crashes: the nil step that \<^verbatim>\<open>checkAcyclic\<close> would dereference on an unknown
  need is never reached, because the needs are checked against the keys first.
\<close>

lemma Validate_never_dereferences_nil: "Validate d known \<noteq> Some NilDereference"
proof
  assume "Validate d known = Some NilDereference"
  then have "checkAcyclic d = Some NilDereference" "\<forall>k n. (k, n) \<in> needs_rel d \<longrightarrow> Step d n \<noteq> None"
    using Validate_Some_checkAcyclic [of d known] by auto
  with checkAcyclic_Some [of d] show False by auto
qed

text \<open>
  \<^verbatim>\<open>TransitiveNeeds\<close> computes the transitive closure of the needs relation, for every
  definition, cyclic or not.
\<close>

lemma TransitiveNeeds_is_the_closure: "TransitiveNeeds d k = {n. (k, n) \<in> (needs_rel d)\<^sup>+}"
  by (auto simp: TransitiveNeeds_iff)

end
