(* ===== verification/Definition_Parse.thy ===== *)
theory Definition_Parse
  imports Workflow_Definition Go_Strings
begin

text \<open>
  \<^verbatim>\<open>definition.Parse\<close>: decoding the stored JSON document into the \<open>wf_definition\<close> record the
  way \<^verbatim>\<open>encoding/json\<close> fills a Go struct. Object members are matched to fields without regard
  to letter case and in document order, unknown members are ignored, \<^verbatim>\<open>null\<close> leaves a field
  at its zero value, and a member of the wrong JSON type is an error. The document is the decoded
  tree of the jsonb column; numbers keep their literal text.
\<close>

section \<open>Decoding JSON values into Go types\<close>

definition type_error :: go_error where
  "type_error = Errorf ''json: cannot unmarshal''"

fun dec_string :: "string \<Rightarrow> json \<Rightarrow> string result" where
  "dec_string old (JStr s) = Inr s"
| "dec_string old JNull = Inr old"
| "dec_string old _ = Inl type_error"

fun dec_int :: "int \<Rightarrow> json \<Rightarrow> int result" where
  "dec_int old (JNum lit) = (case ParseInt lit of Some n \<Rightarrow> Inr n | None \<Rightarrow> Inl type_error)"
| "dec_int old JNull = Inr old"
| "dec_int old _ = Inl type_error"

fun dec_float :: "string \<Rightarrow> json \<Rightarrow> string result" where
  "dec_float old (JNum lit) = Inr lit"
| "dec_float old JNull = Inr old"
| "dec_float old _ = Inl type_error"

fun dec_strings :: "json \<Rightarrow> string list result" where
  "dec_strings (JArr xs) = rmap (dec_string []) xs"
| "dec_strings JNull = Inr []"
| "dec_strings _ = Inl type_error"

fun dec_config :: "(string \<times> json) list \<Rightarrow> json \<Rightarrow> (string \<times> json) list result" where
  "dec_config old (JObj m) = Inr (foldl (\<lambda>c p. AList.update (fst p) (snd p) c) old m)"
| "dec_config old JNull = Inr []"
| "dec_config old _ = Inl type_error"

definition dec_ui_member :: "string \<times> string \<Rightarrow> string \<times> json \<Rightarrow> (string \<times> string) result" where
  "dec_ui_member ui m =
     (let k = ToLower (fst m); v = snd m in
      if k = ''x'' then rbind (dec_float (fst ui) v) (\<lambda>x. Inr (x, snd ui))
      else if k = ''y'' then rbind (dec_float (snd ui) v) (\<lambda>y. Inr (fst ui, y))
      else Inr ui)"

fun dec_ui :: "(string \<times> string) option \<Rightarrow> json \<Rightarrow> (string \<times> string) option result" where
  "dec_ui old (JObj m) =
     rbind (rfold dec_ui_member (case old of Some u \<Rightarrow> u | None \<Rightarrow> (''0'', ''0'')) m) (\<lambda>u. Inr (Some u))"
| "dec_ui old JNull = Inr None"
| "dec_ui old _ = Inl type_error"

definition zero_step :: step where
  "zero_step = \<lparr>st_key = [], st_type = [], st_needs = [], st_if = [], st_config = [],
     st_retries = 0, st_timeout = 0, st_ui = None\<rparr>"

definition dec_step_member :: "step \<Rightarrow> string \<times> json \<Rightarrow> step result" where
  "dec_step_member s m =
     (let k = ToLower (fst m); v = snd m in
      if k = ''key'' then rbind (dec_string (st_key s) v) (\<lambda>x. Inr (s\<lparr>st_key := x\<rparr>))
      else if k = ''type'' then rbind (dec_string (st_type s) v) (\<lambda>x. Inr (s\<lparr>st_type := x\<rparr>))
      else if k = ''needs'' then rbind (dec_strings v) (\<lambda>x. Inr (s\<lparr>st_needs := x\<rparr>))
      else if k = ''if'' then rbind (dec_string (st_if s) v) (\<lambda>x. Inr (s\<lparr>st_if := x\<rparr>))
      else if k = ''config'' then rbind (dec_config (st_config s) v) (\<lambda>x. Inr (s\<lparr>st_config := x\<rparr>))
      else if k = ''retries'' then rbind (dec_int (st_retries s) v) (\<lambda>x. Inr (s\<lparr>st_retries := x\<rparr>))
      else if k = ''timeout'' then rbind (dec_int (st_timeout s) v) (\<lambda>x. Inr (s\<lparr>st_timeout := x\<rparr>))
      else if k = ''ui'' then rbind (dec_ui (st_ui s) v) (\<lambda>x. Inr (s\<lparr>st_ui := x\<rparr>))
      else Inr s)"

fun dec_step :: "json \<Rightarrow> step result" where
  "dec_step (JObj m) = rfold dec_step_member zero_step m"
| "dec_step JNull = Inr zero_step"
| "dec_step _ = Inl type_error"

fun dec_steps :: "json \<Rightarrow> step list result" where
  "dec_steps (JArr xs) = rmap dec_step xs"
| "dec_steps JNull = Inr []"
| "dec_steps _ = Inl type_error"

definition dec_definition_member :: "wf_definition \<Rightarrow> string \<times> json \<Rightarrow> wf_definition result" where
  "dec_definition_member d m =
     (let k = ToLower (fst m); v = snd m in
      if k = ''name'' then rbind (dec_string (d_name d) v) (\<lambda>x. Inr (d\<lparr>d_name := x\<rparr>))
      else if k = ''steps'' then rbind (dec_steps v) (\<lambda>x. Inr (d\<lparr>d_steps := x\<rparr>))
      else Inr d)"

definition zero_definition :: wf_definition where
  "zero_definition = \<lparr>d_name = [], d_steps = []\<rparr>"

fun dec_definition :: "json \<Rightarrow> wf_definition result" where
  "dec_definition (JObj m) = rfold dec_definition_member zero_definition m"
| "dec_definition JNull = Inr zero_definition"
| "dec_definition _ = Inl type_error"

definition Parse :: "json \<Rightarrow> wf_definition result" where
  "Parse raw =
     (case dec_definition raw of
        Inl e \<Rightarrow> Inl (Wrapf ''invalid definition JSON'' e)
      | Inr d \<Rightarrow> Inr d)"


section \<open>Decoding inverts the struct tags\<close>

text \<open>
  The document the struct tags describe: \<^verbatim>\<open>key\<close> and \<^verbatim>\<open>type\<close> always, the other fields
  (\<^verbatim>\<open>omitempty\<close>) only when they are not zero.
\<close>

definition enc_step :: "step \<Rightarrow> json" where
  "enc_step s = JObj (
     [(''key'', JStr (st_key s)), (''type'', JStr (st_type s))] @
     (if st_needs s = [] then [] else [(''needs'', JArr (map JStr (st_needs s)))]) @
     (if st_if s = [] then [] else [(''if'', JStr (st_if s))]) @
     (if st_config s = [] then [] else [(''config'', JObj (st_config s))]) @
     (if st_retries s = 0 then [] else [(''retries'', JNum (Itoa (st_retries s)))]) @
     (if st_timeout s = 0 then [] else [(''timeout'', JNum (Itoa (st_timeout s)))]) @
     (case st_ui s of None \<Rightarrow> [] | Some u \<Rightarrow> [(''ui'', JObj [(''x'', JNum (fst u)), (''y'', JNum (snd u))])]))"

definition enc_definition :: "wf_definition \<Rightarrow> json" where
  "enc_definition d = JObj (
     (if d_name d = [] then [] else [(''name'', JStr (d_name d))]) @
     [(''steps'', JArr (map enc_step (d_steps d)))])"

definition step_in_range :: "step \<Rightarrow> bool" where
  "step_in_range s \<longleftrightarrow>
     distinct (map fst (st_config s)) \<and>
     - (2 ^ 63) \<le> st_retries s \<and> st_retries s < 2 ^ 63 \<and>
     - (2 ^ 63) \<le> st_timeout s \<and> st_timeout s < 2 ^ 63"

lemma rfold_append: "rfold f s (xs @ ys) = rbind (rfold f s xs) (\<lambda>s'. rfold f s' ys)"
  by (induction xs arbitrary: s) (auto simp: rbind_def split: sum.splits)

lemmas member_names = dec_step_member_def dec_definition_member_def dec_ui_member_def Let_def
  ToLower_def char_lower_def less_eq_char_def

lemma dec_enc_step:
  assumes "step_in_range s"
  shows "dec_step (enc_step s) = Inr s"
proof -
  have needs: "rmap (dec_string []) (map JStr ns) = Inr ns" for ns
    by (induction ns) auto
  have config: "dec_config [] (JObj (st_config s)) = Inr (st_config s)"
    using assms foldl_update_append [of "[]" "st_config s"] by (simp add: step_in_range_def)
  have ints: "dec_int 0 (JNum (Itoa (st_retries s))) = Inr (st_retries s)"
    "dec_int 0 (JNum (Itoa (st_timeout s))) = Inr (st_timeout s)"
    using assms by (simp_all add: step_in_range_def ParseInt_Itoa)
  show ?thesis
    by (cases s) (use needs config ints in
      \<open>auto simp: enc_step_def rfold_append member_names zero_step_def split: option.splits\<close>)
qed

text \<open>
  C40. Parsing inverts the document the struct tags describe: for every definition whose integers
  fit in 64 bits and whose configurations have distinct keys, decoding its document gives it back,
  fields omitted as empty included.
\<close>

theorem Parse_enc_definition:
  assumes "list_all step_in_range (d_steps d)"
  shows "Parse (enc_definition d) = Inr d"
proof -
  have "rmap dec_step (map enc_step (d_steps d)) = Inr (d_steps d)"
  proof -
    have "rmap dec_step (map enc_step ss) = Inr ss" if "list_all step_in_range ss" for ss
      using that by (induction ss) (auto simp: dec_enc_step)
    with assms show ?thesis by blast
  qed
  then show ?thesis
    by (cases d) (auto simp: Parse_def enc_definition_def member_names zero_definition_def)
qed

theorem Parse_enc_definition_witness:
  "Parse (enc_definition \<lparr>d_name = ''w'', d_steps =
     [\<lparr>st_key = ''a'', st_type = ''delay'', st_needs = [], st_if = [], st_config = [(''seconds'', JNum ''5'')],
       st_retries = 3, st_timeout = 0, st_ui = Some (''1.5'', ''2'')\<rparr>]\<rparr>) =
   Inr \<lparr>d_name = ''w'', d_steps =
     [\<lparr>st_key = ''a'', st_type = ''delay'', st_needs = [], st_if = [], st_config = [(''seconds'', JNum ''5'')],
       st_retries = 3, st_timeout = 0, st_ui = Some (''1.5'', ''2'')\<rparr>]\<rparr>"
  by (rule Parse_enc_definition) code_simp

end
