(* ===== verification/Store.thy ===== *)
theory Store
  imports Definition_Parse
begin

text \<open>
  The Postgres state the engine works on (\<^verbatim>\<open>internal/db/migrations\<close>) and the statements the
  engine runs against it. A table is the list of its rows; a statement is a function on the
  database that honours the constraints of the schema. The River queue is a table of jobs, since
  every job is inserted in the transaction that writes the state (\<^verbatim>\<open>Client.InsertTx\<close>).

  What is not code of the repository is a field of \<open>externals\<close>: the identifiers Postgres
  generates, the text form of an identifier, Postgres's jsonb parser, the JSON decoder of outputs
  read back, the goja JavaScript engine, and the SHA-256 digest. The properties that rely on one of them name what
  they rely on.
\<close>

section \<open>Externals\<close>

record externals =
  gen_random_uuid :: "uuid list \<Rightarrow> uuid"          \<comment> \<open>next generated id, given the ids in use\<close>
  uuid_String :: "uuid \<Rightarrow> string"
  jsonb_ok :: "string \<Rightarrow> bool"                    \<comment> \<open>does a jsonb column accept this text?\<close>
  json_Unmarshal :: "string \<Rightarrow> json result"
  goja_RunString :: "(string \<times> json) list \<Rightarrow> string \<Rightarrow> json result"
  sha256_Sum256 :: "string \<Rightarrow> string"

definition fresh_uuids :: "externals \<Rightarrow> bool" where
  "fresh_uuids X \<longleftrightarrow> (\<forall>ids. gen_random_uuid X ids \<notin> set ids)"

definition uuid_text :: "externals \<Rightarrow> bool" where
  "uuid_text X \<longleftrightarrow> inj (uuid_String X) \<and> (\<forall>u. CHR '':'' \<notin> set (uuid_String X u))"

section \<open>Statuses\<close>

datatype run_status = RQueued | RRunning | RSuspended | RSucceeded | RFailed | RCanceled

datatype task_status =
  TQueued | TRunning | TSuspended | TSucceeded | TFailed | TSkipped | TCanceled

fun run_terminal :: "run_status \<Rightarrow> bool" where
  "run_terminal RSucceeded = True"
| "run_terminal RFailed = True"
| "run_terminal RCanceled = True"
| "run_terminal _ = False"

text \<open>
  A task is \<open>active\<close> while something may still change it, \<open>done\<close> when it satisfies the needs
  of a dependent, and \<open>bad\<close> when it fails the run.
\<close>

definition task_active :: "task_status \<Rightarrow> bool" where
  "task_active s \<longleftrightarrow> s \<in> {TQueued, TRunning, TSuspended}"

definition task_done :: "task_status \<Rightarrow> bool" where
  "task_done s \<longleftrightarrow> s \<in> {TSucceeded, TSkipped}"

definition task_bad :: "task_status \<Rightarrow> bool" where
  "task_bad s \<longleftrightarrow> s \<in> {TFailed, TCanceled}"

section \<open>Rows\<close>

record workflow_row =
  w_id :: uuid
  w_workspace_id :: uuid
  w_name :: string
  w_slug :: string
  w_is_enabled :: bool
  w_current_version_id :: "uuid option"

record version_row =
  v_id :: uuid
  v_workflow_id :: uuid
  v_version :: int
  v_definition :: json

record trigger_row =
  tr_id :: uuid
  tr_workspace_id :: uuid
  tr_workflow_id :: uuid
  tr_type :: string
  tr_config :: "(string \<times> json) list"
  tr_is_enabled :: bool

record run_row =
  r_id :: uuid
  r_workspace_id :: uuid
  r_workflow_id :: uuid
  r_version_id :: uuid
  r_trigger_id :: "uuid option"
  r_status :: run_status
  r_input :: string
  r_error :: "string option"
  r_idempotency_key :: "string option"
  r_created_at :: timestamp
  r_started_at :: "timestamp option"
  r_finished_at :: "timestamp option"

record task_row =
  t_id :: uuid
  t_run_id :: uuid
  t_workspace_id :: uuid
  t_step_key :: string
  t_attempt :: int
  t_status :: task_status
  t_input :: "string option"
  t_output :: "string option"
  t_error :: "string option"
  t_queued_at :: timestamp
  t_started_at :: "timestamp option"
  t_finished_at :: "timestamp option"

record suspension_row =
  su_task_id :: uuid
  su_workspace_id :: uuid
  su_kind :: string
  su_resume_token :: string
  su_resume_at :: "timestamp option"
  su_payload :: string

datatype job_args = AdvanceRunArgs uuid | ExecuteTaskArgs uuid | ResumeTaskArgs uuid

record job_row =
  j_args :: job_args
  j_queue :: string
  j_max_attempts :: "int option"            \<comment> \<open>\<open>None\<close>: River's default\<close>
  j_scheduled_at :: "timestamp option"      \<comment> \<open>\<open>None\<close>: available at once\<close>

record db =
  workflows :: "workflow_row list"
  versions :: "version_row list"
  triggers :: "trigger_row list"
  runs :: "run_row list"
  tasks :: "task_row list"
  suspensions :: "suspension_row list"
  jobs :: "job_row list"

definition empty_db :: db where
  "empty_db = \<lparr>workflows = [], versions = [], triggers = [], runs = [], tasks = [], suspensions = [], jobs = []\<rparr>"

section \<open>Queries\<close>

definition find_run :: "db \<Rightarrow> uuid \<Rightarrow> run_row option" where
  "find_run db i = find (\<lambda>r. r_id r = i) (runs db)"

definition find_version :: "db \<Rightarrow> uuid \<Rightarrow> version_row option" where
  "find_version db i = find (\<lambda>v. v_id v = i) (versions db)"

definition find_task :: "db \<Rightarrow> uuid \<Rightarrow> task_row option" where
  "find_task db i = find (\<lambda>t. t_id t = i) (tasks db)"

definition run_tasks :: "db \<Rightarrow> uuid \<Rightarrow> task_row list" where
  "run_tasks db rid = filter (\<lambda>t. t_run_id t = rid) (tasks db)"

text \<open>
  \<^verbatim>\<open>select distinct on (step_key) ... order by step_key, attempt desc\<close>: for every step key the
  row with the greatest attempt, in the order of the keys.
\<close>

fun latest :: "task_row list \<Rightarrow> task_row option" where
  "latest [] = None"
| "latest (t # ts) =
     (case latest ts of
        None \<Rightarrow> Some t
      | Some b \<Rightarrow> if t_attempt b \<le> t_attempt t then Some t else Some b)"

definition step_tasks :: "string \<Rightarrow> task_row list \<Rightarrow> task_row list" where
  "step_tasks k ts = filter (\<lambda>t. t_step_key t = k) ts"

definition distinct_on_step :: "task_row list \<Rightarrow> task_row list" where
  "distinct_on_step ts =
     List.map_filter (\<lambda>k. latest (step_tasks k ts)) (sort (remdups (map t_step_key ts)))"

section \<open>Statements\<close>

definition update_runs :: "(run_row \<Rightarrow> bool) \<Rightarrow> (run_row \<Rightarrow> run_row) \<Rightarrow> db \<Rightarrow> db" where
  "update_runs P f db = db\<lparr>runs := map (\<lambda>r. if P r then f r else r) (runs db)\<rparr>"

definition update_tasks :: "(task_row \<Rightarrow> bool) \<Rightarrow> (task_row \<Rightarrow> task_row) \<Rightarrow> db \<Rightarrow> db" where
  "update_tasks P f db = db\<lparr>tasks := map (\<lambda>t. if P t then f t else t) (tasks db)\<rparr>"

text \<open>\<^verbatim>\<open>tag.RowsAffected()\<close> of the update with the same condition.\<close>

definition tasks_affected :: "(task_row \<Rightarrow> bool) \<Rightarrow> db \<Rightarrow> nat" where
  "tasks_affected P db = length (filter P (tasks db))"

definition task_slot :: "task_row \<Rightarrow> uuid \<times> string \<times> int" where
  "task_slot t = (t_run_id t, t_step_key t, t_attempt t)"

definition new_task :: "externals \<Rightarrow> timestamp \<Rightarrow> uuid \<Rightarrow> uuid \<Rightarrow> string \<Rightarrow> int \<Rightarrow> task_status \<Rightarrow> db \<Rightarrow> task_row" where
  "new_task X now rid ws k att st db =
     \<lparr>t_id = gen_random_uuid X (map t_id (tasks db)), t_run_id = rid, t_workspace_id = ws,
      t_step_key = k, t_attempt = att, t_status = st, t_input = None, t_output = None,
      t_error = None, t_queued_at = now, t_started_at = None, t_finished_at = None\<rparr>"

text \<open>
  \<^verbatim>\<open>insert into tasks\<close>: refused by the primary key or by
  \<^verbatim>\<open>unique (run_id, step_key, attempt)\<close>.
\<close>

definition insert_task :: "task_row \<Rightarrow> db \<Rightarrow> db result" where
  "insert_task t db =
     (if t_id t \<in> t_id ` set (tasks db) \<or> task_slot t \<in> task_slot ` set (tasks db)
      then Inl UniqueViolation
      else Inr (db\<lparr>tasks := tasks db @ [t]\<rparr>))"

text \<open>The same with \<^verbatim>\<open>on conflict (run_id, step_key, attempt) do nothing\<close>: \<open>None\<close> when nothing was inserted.\<close>

definition insert_task_or_nothing :: "task_row \<Rightarrow> db \<Rightarrow> db option result" where
  "insert_task_or_nothing t db =
     (if task_slot t \<in> task_slot ` set (tasks db) then Inr None
      else if t_id t \<in> t_id ` set (tasks db) then Inl UniqueViolation
      else Inr (Some (db\<lparr>tasks := tasks db @ [t]\<rparr>)))"

text \<open>\<^verbatim>\<open>insert into suspensions\<close>: refused when the token is taken or the task is gone.\<close>

definition insert_suspension :: "suspension_row \<Rightarrow> db \<Rightarrow> db result" where
  "insert_suspension s db =
     (if su_resume_token s \<in> su_resume_token ` set (suspensions db) then Inl UniqueViolation
      else if su_task_id s \<notin> t_id ` set (tasks db) then Inl ForeignKeyViolation
      else Inr (db\<lparr>suspensions := suspensions db @ [s]\<rparr>))"

definition delete_suspensions :: "uuid \<Rightarrow> db \<Rightarrow> db" where
  "delete_suspensions tid db = db\<lparr>suspensions := filter (\<lambda>s. su_task_id s \<noteq> tid) (suspensions db)\<rparr>"

text \<open>
  \<^verbatim>\<open>insert into runs\<close>: refused by the primary key, by the foreign keys, or by
  \<^verbatim>\<open>unique (workspace_id, idempotency_key)\<close>, under which null keys never conflict. The second
  form is \<^verbatim>\<open>on conflict (workspace_id, idempotency_key) do nothing\<close>.
\<close>

definition key_taken :: "run_row \<Rightarrow> db \<Rightarrow> bool" where
  "key_taken r db \<longleftrightarrow>
     r_idempotency_key r \<noteq> None \<and>
     (\<exists>r' \<in> set (runs db). r_workspace_id r' = r_workspace_id r \<and> r_idempotency_key r' = r_idempotency_key r)"

definition run_references_ok :: "run_row \<Rightarrow> db \<Rightarrow> bool" where
  "run_references_ok r db \<longleftrightarrow>
     r_workflow_id r \<in> w_id ` set (workflows db) \<and> r_version_id r \<in> v_id ` set (versions db) \<and>
     (case r_trigger_id r of None \<Rightarrow> True | Some i \<Rightarrow> i \<in> tr_id ` set (triggers db))"

definition insert_run :: "run_row \<Rightarrow> db \<Rightarrow> db result" where
  "insert_run r db =
     (if r_id r \<in> r_id ` set (runs db) \<or> key_taken r db then Inl UniqueViolation
      else if \<not> run_references_ok r db then Inl ForeignKeyViolation
      else Inr (db\<lparr>runs := runs db @ [r]\<rparr>))"

definition insert_run_or_nothing :: "run_row \<Rightarrow> db \<Rightarrow> db option result" where
  "insert_run_or_nothing r db =
     (if key_taken r db then Inr None else rbind (insert_run r db) (\<lambda>db'. Inr (Some db')))"

text \<open>
  \<^verbatim>\<open>Client.InsertTx\<close> with the \<^verbatim>\<open>InsertOpts()\<close> of the three argument types: queue
  \<^verbatim>\<open>control\<close> for advance and resume jobs, \<^verbatim>\<open>tasks\<close> and a single attempt for execute jobs.
\<close>

fun InsertOpts :: "job_args \<Rightarrow> string \<times> int option" where
  "InsertOpts (AdvanceRunArgs r) = (''control'', None)"
| "InsertOpts (ExecuteTaskArgs t) = (''tasks'', Some 1)"
| "InsertOpts (ResumeTaskArgs t) = (''control'', None)"

definition InsertTx :: "job_args \<Rightarrow> timestamp option \<Rightarrow> db \<Rightarrow> db" where
  "InsertTx a at db =
     db\<lparr>jobs := jobs db @
       [\<lparr>j_args = a, j_queue = fst (InsertOpts a), j_max_attempts = snd (InsertOpts a),
         j_scheduled_at = at\<rparr>]\<rparr>"

end
