(* ===== verification/Passwords.thy ===== *)
theory Passwords
  imports Go_Strings
begin

text \<open>
  Password hashes (\<^verbatim>\<open>internal/api/password.go\<close>): the PHC text an argon2id key is stored as and
  its verification, with the parts of \<^verbatim>\<open>encoding/base64\<close>, \<^verbatim>\<open>fmt.Sscanf\<close> and \<^verbatim>\<open>strings.Split\<close>
  they use. The key derivation \<^verbatim>\<open>argon2.IDKey\<close> is a parameter.
\<close>

section \<open>Base64 without padding\<close>

definition b64_alphabet :: string where
  "b64_alphabet = ''ABCDEFGHIJKLMNOPQRSTUVWXYZabcdefghijklmnopqrstuvwxyz0123456789+/''"

definition b64_char :: "nat \<Rightarrow> char" where
  "b64_char n = b64_alphabet ! (n mod 64)"

definition b64_value :: "char \<Rightarrow> nat option" where
  "b64_value c = map_of (zip b64_alphabet [0..<64]) c"

fun EncodeToString :: "string \<Rightarrow> string" where
  "EncodeToString [] = []"
| "EncodeToString [a] =
     (let n = of_char a * 16 in [b64_char (n div 64), b64_char n])"
| "EncodeToString [a, b] =
     (let n = (of_char a * 256 + of_char b) * 4 in
      [b64_char (n div 4096), b64_char (n div 64), b64_char n])"
| "EncodeToString (a # b # c # s) =
     (let n = (of_char a * 256 + of_char b) * 256 + of_char c in
      [b64_char (n div 262144), b64_char (n div 4096), b64_char (n div 64), b64_char n] @ EncodeToString s)"

fun b64_quads :: "nat list \<Rightarrow> string option" where
  "b64_quads [] = Some []"
| "b64_quads [w] = None"
| "b64_quads [w, x] = Some [char_of ((w * 64 + x) div 16)]"
| "b64_quads [w, x, y] =
     (let n = (w * 64 + x) * 64 + y in Some [char_of (n div 1024), char_of (n div 4)])"
| "b64_quads (w # x # y # z # vs) =
     (let n = ((w * 64 + x) * 64 + y) * 64 + z in
      map_option (\<lambda>s. [char_of (n div 65536), char_of (n div 256), char_of n] @ s) (b64_quads vs))"

fun b64_values :: "string \<Rightarrow> nat list option" where
  "b64_values [] = Some []"
| "b64_values (c # s) =
     (case b64_value c of None \<Rightarrow> None | Some v \<Rightarrow> map_option (\<lambda>vs. v # vs) (b64_values s))"

text \<open>\<^verbatim>\<open>DecodeString\<close> skips line breaks and ignores unused trailing bits.\<close>

definition DecodeString :: "string \<Rightarrow> string option" where
  "DecodeString s =
     Option.bind (b64_values (filter (\<lambda>c. c \<noteq> CHR 0x0A \<and> c \<noteq> CHR 0x0D) s)) b64_quads"

section \<open>Splitting and scanning\<close>

fun Split :: "char \<Rightarrow> string \<Rightarrow> string list" where
  "Split sep [] = [[]]"
| "Split sep (c # s) =
     (if c = sep then [] # Split sep s
      else case Split sep s of [] \<Rightarrow> [[c]] | p # ps \<Rightarrow> (c # p) # ps)"

text \<open>
  One literal of a \<^verbatim>\<open>Sscanf\<close> format, and the verb \<^verbatim>\<open>%d\<close> for an integer: blanks are skipped,
  digits are taken greedily, and a value out of the range of the variable is an error.
\<close>

fun scan_lit :: "string \<Rightarrow> string \<Rightarrow> string option" where
  "scan_lit [] s = Some s"
| "scan_lit (p # ps) [] = None"
| "scan_lit (p # ps) (c # s) = (if p = c then scan_lit ps s else None)"

definition skip_blanks :: "string \<Rightarrow> string" where
  "skip_blanks s = dropWhile (\<lambda>c. is_space c \<and> c \<noteq> CHR 0x0A) s"

definition scan_uint :: "nat \<Rightarrow> string \<Rightarrow> (int \<times> string) option" where
  "scan_uint bits s =
     (let s' = skip_blanks s; ds = takeWhile is_digit s' in
      if ds = [] \<or> 2 ^ bits \<le> digits_val ds then None
      else Some (digits_val ds, dropWhile is_digit s'))"

definition scan_int :: "string \<Rightarrow> (int \<times> string) option" where
  "scan_int s =
     (let s' = skip_blanks s;
          neg = (case s' of c # _ \<Rightarrow> c = CHR ''-'' | [] \<Rightarrow> False);
          signed = (case s' of c # _ \<Rightarrow> c = CHR ''-'' \<or> c = CHR ''+'' | [] \<Rightarrow> False);
          rest = (if signed then tl s' else s');
          ds = takeWhile is_digit rest;
          n = (if neg then - digits_val ds else digits_val ds) in
      if ds = [] \<or> n < - (2 ^ 63) \<or> 2 ^ 63 \<le> n then None
      else Some (n, dropWhile is_digit rest))"

section \<open>Hashing and verifying\<close>

type_synonym kdf = "string \<Rightarrow> string \<Rightarrow> int \<Rightarrow> int \<Rightarrow> int \<Rightarrow> nat \<Rightarrow> string"

definition argonMemoryKiB :: int where "argonMemoryKiB = 19 * 1024"
definition argonTime :: int where "argonTime = 2"
definition argonThreads :: int where "argonThreads = 1"
definition argonKeyLen :: nat where "argonKeyLen = 32"
definition argonVersion :: int where "argonVersion = 19"   \<comment> \<open>\<^verbatim>\<open>argon2.Version\<close>\<close>
definition minPasswordLen :: nat where "minPasswordLen = 8"

definition hashPassword :: "kdf \<Rightarrow> string option \<Rightarrow> string \<Rightarrow> string option" where
  "hashPassword IDKey salt password =
     (case salt of
        None \<Rightarrow> None
      | Some salt \<Rightarrow>
          let key = IDKey password salt argonTime argonMemoryKiB argonThreads argonKeyLen in
          Some (''$argon2id$v='' @ Itoa argonVersion @ ''$m='' @ Itoa argonMemoryKiB @ '',t='' @ Itoa argonTime @
            '',p='' @ Itoa argonThreads @ ''$'' @ EncodeToString salt @ ''$'' @ EncodeToString key))"

definition scan_params :: "string \<Rightarrow> (int \<times> int \<times> int) option" where
  "scan_params s =
     Option.bind (scan_lit ''m='' s) (\<lambda>s1. Option.bind (scan_uint 32 s1) (\<lambda>(m, s2).
     Option.bind (scan_lit '',t='' s2) (\<lambda>s3. Option.bind (scan_uint 32 s3) (\<lambda>(t, s4).
     Option.bind (scan_lit '',p='' s4) (\<lambda>s5. Option.bind (scan_uint 8 s5) (\<lambda>(p, _). Some (m, t, p)))))))"

definition verifyPassword :: "kdf \<Rightarrow> string \<Rightarrow> string \<Rightarrow> bool" where
  "verifyPassword IDKey encoded password =
     (let parts = Split CHR ''$'' encoded in
      if length parts \<noteq> 6 \<or> parts ! 1 \<noteq> ''argon2id'' then False
      else case Option.bind (scan_lit ''v='' (parts ! 2)) scan_int of
        None \<Rightarrow> False
      | Some (version, _) \<Rightarrow>
          if version \<noteq> argonVersion then False
          else case scan_params (parts ! 3) of
            None \<Rightarrow> False
          | Some (m, t, p) \<Rightarrow>
              (case DecodeString (parts ! 4) of
                 None \<Rightarrow> False
               | Some salt \<Rightarrow>
                   (case DecodeString (parts ! 5) of
                      None \<Rightarrow> False
                    | Some want \<Rightarrow>
                        if want = [] then False
                        else IDKey password salt t m p (length want) = want)))"

section \<open>Lemmas\<close>

lemma length_b64_alphabet [simp]: "length b64_alphabet = 64"
  by (simp add: b64_alphabet_def)

lemma b64_value_nth: "n < 64 \<Longrightarrow> b64_value (b64_alphabet ! n) = Some n"
proof -
  assume "n < 64"
  moreover have "distinct b64_alphabet" by code_simp
  ultimately show ?thesis
    using map_of_zip_nth [of b64_alphabet "[0..<64]" n] by (simp add: b64_value_def)
qed

lemma b64_value_char [simp]: "b64_value (b64_char n) = Some (n mod 64)"
  by (simp add: b64_char_def b64_value_nth)

lemma b64_char_plain: "b64_char n \<notin> {CHR 0x0A, CHR 0x0D, CHR ''$''}"
proof -
  have "\<forall>c \<in> set b64_alphabet. c \<notin> {CHR 0x0A, CHR 0x0D, CHR ''$''}" by code_simp
  moreover have "b64_char n \<in> set b64_alphabet" by (simp add: b64_char_def)
  ultimately show ?thesis by blast
qed

lemma EncodeToString_plain:
  "c \<in> set (EncodeToString s) \<Longrightarrow> c \<notin> {CHR 0x0A, CHR 0x0D, CHR ''$''}"
  by (induction s rule: EncodeToString.induct) (use b64_char_plain in \<open>auto simp: Let_def\<close>)

lemma char_of_eqI: "n mod 256 = of_char c \<Longrightarrow> char_of (n :: nat) = c"
  by (metis char_of_mod_256 char_of_char)

text \<open>Joining the base-64 digits of a number gives it back.\<close>

lemma join64: "(n div 64 * 64 + n mod 64 :: nat) = n"
  by simp

lemma join64_2:
  fixes n :: nat
  assumes "n < 4096"
  shows "n div 64 mod 64 * 64 + n mod 64 = n"
  using assms by simp

lemma join64_3:
  fixes n :: nat
  assumes "n < 262144"
  shows "(n div 4096 mod 64 * 64 + n div 64 mod 64) * 64 + n mod 64 = n"
proof -
  have "n div 64 < 4096" using assms by (simp add: less_mult_imp_div_less)
  then have "n div 64 div 64 mod 64 * 64 + n div 64 mod 64 = n div 64" by (rule join64_2)
  moreover have "n div 64 div 64 = n div 4096" by (simp flip: div_mult2_eq)
  ultimately show ?thesis by (simp only: join64)
qed

lemma join64_4:
  fixes n :: nat
  assumes "n < 16777216"
  shows "((n div 262144 mod 64 * 64 + n div 4096 mod 64) * 64 + n div 64 mod 64) * 64 + n mod 64 = n"
proof -
  have "n div 64 < 262144" using assms by (simp add: less_mult_imp_div_less)
  then have "(n div 64 div 4096 mod 64 * 64 + n div 64 div 64 mod 64) * 64 + n div 64 mod 64 = n div 64"
    by (rule join64_3)
  moreover have "n div 64 div 64 = n div 4096" "n div 64 div 4096 = n div 262144"
    by (simp_all flip: div_mult2_eq)
  ultimately show ?thesis by (simp only: join64)
qed

lemma of_char_256: "of_char c \<le> (255 :: nat)"
proof -
  have "of_char c < (256 :: nat)" by simp
  then show ?thesis by linarith
qed

lemma split_bytes:
  fixes x y z :: nat
  assumes "x \<le> 255" "y \<le> 255" "z \<le> 255"
  shows "((x * 256 + y) * 256 + z) div 65536 mod 256 = x" "((x * 256 + y) * 256 + z) div 256 mod 256 = y"
    "((x * 256 + y) * 256 + z) mod 256 = z"
proof -
  have d: "((x * 256 + y) * 256 + z) div 256 = x * 256 + y" using assms by simp
  moreover have "((x * 256 + y) * 256 + z) div 65536 = ((x * 256 + y) * 256 + z) div 256 div 256"
    by (simp flip: div_mult2_eq)
  ultimately show "((x * 256 + y) * 256 + z) div 65536 mod 256 = x" using assms by simp
  show "((x * 256 + y) * 256 + z) div 256 mod 256 = y" unfolding d using assms by simp
  have "z mod 256 = z" using assms by simp
  then show "((x * 256 + y) * 256 + z) mod 256 = z"
    using mod_mult_self3 [of "x * 256 + y" 256 z] by (simp only:)
qed

lemma b64_quads_join:
  "w * 64 + x = n \<Longrightarrow> b64_quads [w, x] = Some [char_of (n div 16)]"
  "(w * 64 + x) * 64 + y = n \<Longrightarrow> b64_quads [w, x, y] = Some [char_of (n div 1024), char_of (n div 4)]"
  "((w * 64 + x) * 64 + y) * 64 + z = n \<Longrightarrow>
     b64_quads (w # x # y # z # vs) =
       map_option (\<lambda>s. [char_of (n div 65536), char_of (n div 256), char_of n] @ s) (b64_quads vs)"
  by (auto simp only: b64_quads.simps Let_def)

lemma b64_values_chars:
  "b64_values (b64_char m # s) = map_option (\<lambda>vs. (m mod 64) # vs) (b64_values s)"
  by (simp only: b64_values.simps b64_value_char option.case)

lemma b64_decode_encode:
  "\<exists>vs. b64_values (EncodeToString s) = Some vs \<and> b64_quads vs = Some s"
proof (induction s rule: EncodeToString.induct)
  case (2 a)
  define n :: nat where "n = of_char a * 16"
  have "n < 4096" using of_char_256 [of a] by (simp add: n_def)
  note q = b64_quads_join(1) [OF join64_2 [OF this]]
  have "char_of (n div 16) = a" by (simp add: n_def)
  moreover have "b64_values (EncodeToString [a]) = Some [n div 64 mod 64, n mod 64]"
    by (simp only: EncodeToString.simps Let_def n_def b64_values_chars b64_values.simps(1) option.map)
  ultimately show ?case using q by metis
next
  case (3 a b)
  define n :: nat where "n = (of_char a * 256 + of_char b) * 4"
  have "n < 262144" using of_char_256 [of a] of_char_256 [of b] by (simp add: n_def)
  note q = b64_quads_join(2) [OF join64_3 [OF this]]
  have "char_of (n div 1024) = a" "char_of (n div 4) = b"
    using of_char_256 [of a] of_char_256 [of b] by (auto simp: n_def intro!: char_of_eqI)
  moreover have "b64_values (EncodeToString [a, b]) = Some [n div 4096 mod 64, n div 64 mod 64, n mod 64]"
    by (simp only: EncodeToString.simps Let_def n_def b64_values_chars b64_values.simps(1) option.map)
  ultimately show ?case using q by metis
next
  case (4 a b c s)
  define n :: nat where "n = (of_char a * 256 + of_char b) * 256 + of_char c"
  have "n < 16777216"
    using of_char_256 [of a] of_char_256 [of b] of_char_256 [of c] by (simp add: n_def)
  note q = b64_quads_join(3) [OF join64_4 [OF this]]
  have c: "char_of (n div 65536) = a" "char_of (n div 256) = b" "char_of n = c"
    using split_bytes [OF of_char_256 [of a] of_char_256 [of b] of_char_256 [of c]]
    unfolding n_def by (blast intro: char_of_eqI)+
  obtain vs where vs: "b64_values (EncodeToString s) = Some vs" "b64_quads vs = Some s"
    using 4 by blast
  have "b64_values (EncodeToString (a # b # c # s)) =
      Some (n div 262144 mod 64 # n div 4096 mod 64 # n div 64 mod 64 # n mod 64 # vs)"
    by (simp only: EncodeToString.simps Let_def n_def append.simps b64_values_chars vs option.map)
  moreover have "b64_quads (n div 262144 mod 64 # n div 4096 mod 64 # n div 64 mod 64 # n mod 64 # vs) =
      Some (a # b # c # s)"
    by (simp only: q vs c option.map append.simps)
  ultimately show ?case by blast
qed simp

lemma DecodeString_EncodeToString [simp]: "DecodeString (EncodeToString s) = Some s"
proof -
  have "filter (\<lambda>c. c \<noteq> CHR 0x0A \<and> c \<noteq> CHR 0x0D) (EncodeToString s) = EncodeToString s"
    using EncodeToString_plain by (auto simp: filter_id_conv)
  with b64_decode_encode [of s] show ?thesis by (auto simp: DecodeString_def)
qed

lemma Split_nosep: "c \<notin> set s \<Longrightarrow> Split c s = [s]"
  by (induction s) auto

lemma Split_append: "c \<notin> set p \<Longrightarrow> Split c (p @ c # s) = p # Split c s"
  by (induction p) auto

text \<open>The PHC text of a hash, and its parts.\<close>

lemma argon_texts:
  "Itoa argonVersion = ''19''" "Itoa argonMemoryKiB = ''19456''" "Itoa argonTime = ''2''" "Itoa argonThreads = ''1''"
  by (simp_all add: Itoa_def nat_digits.simps argonVersion_def argonMemoryKiB_def argonTime_def argonThreads_def)
    code_simp+

lemma hashPassword_text:
  "hashPassword IDKey (Some salt) p = Some (''$argon2id$v=19$m=19456,t=2,p=1$'' @ EncodeToString salt @
     CHR ''$'' # EncodeToString (IDKey p salt argonTime argonMemoryKiB argonThreads argonKeyLen))"
  by (simp add: hashPassword_def Let_def argon_texts)

lemma Split_hash:
  "Split CHR ''$'' (''$argon2id$v=19$m=19456,t=2,p=1$'' @ EncodeToString salt @ CHR ''$'' # EncodeToString key) =
   [[], ''argon2id'', ''v=19'', ''m=19456,t=2,p=1'', EncodeToString salt, EncodeToString key]"
proof -
  have no: "CHR ''$'' \<notin> set (EncodeToString s)" for s using EncodeToString_plain by blast
  show ?thesis by (simp add: Split_append Split_nosep no)
qed

lemma scan_hash_parts:
  "scan_int ''19'' = Some (argonVersion, [])"
  "scan_params ''m=19456,t=2,p=1'' = Some (argonMemoryKiB, argonTime, argonThreads)"
  by code_simp+

section \<open>A hash verifies its password\<close>

text \<open>The outcome of verifying a hash this program made.\<close>

definition key_of :: "kdf \<Rightarrow> string \<Rightarrow> string \<Rightarrow> string" where
  "key_of IDKey salt p = IDKey p salt argonTime argonMemoryKiB argonThreads argonKeyLen"

lemma verify_hash:
  assumes "hashPassword IDKey (Some salt) p = Some h" and "length (key_of IDKey salt p) = argonKeyLen"
  shows "verifyPassword IDKey h q \<longleftrightarrow> key_of IDKey salt q = key_of IDKey salt p"
proof -
  have "Split CHR ''$'' h = [[], ''argon2id'', ''v=19'', ''m=19456,t=2,p=1'', EncodeToString salt,
      EncodeToString (key_of IDKey salt p)]"
    using assms(1) by (auto simp only: hashPassword_text Split_hash key_of_def option.inject)
  moreover have "key_of IDKey salt p \<noteq> []" using assms(2) by (auto simp: argonKeyLen_def)
  ultimately show ?thesis
    using assms(2) by (simp add: verifyPassword_def scan_hash_parts Let_def) (simp add: key_of_def)
qed

text \<open>
  A stored password hash verifies exactly the passwords with the same key: the text
  \<^verbatim>\<open>hashPassword\<close> writes is read back by \<^verbatim>\<open>verifyPassword\<close> with the same salt and the same
  parameters, so the password itself is accepted and another one only when argon2 derives the
  same key from it.
\<close>

lemma password_hash_verifies:
  assumes "hashPassword IDKey (Some salt) p = Some h" and "length (key_of IDKey salt p) = argonKeyLen"
  shows "verifyPassword IDKey h p \<and> (verifyPassword IDKey h q \<longleftrightarrow> key_of IDKey salt q = key_of IDKey salt p)"
  using verify_hash [OF assms] by simp

definition demo_kdf :: kdf where
  "demo_kdf p salt t m n len = take len (p @ salt @ replicate len CHR ''0'')"

end
