(* ===== verification/Http.thy ===== *)
theory Http
  imports Definition_Parse
begin

text \<open>
  What the HTTP handlers of \<^verbatim>\<open>internal/api\<close> share: the parts of a request they read, the
  response they write, and the decoding of a request body into the fields of a Go struct. A body is
  the first JSON value of the request, \<open>None\<close> when there is none (malformed, or cut off by
  \<^verbatim>\<open>MaxBody\<close>). The clock and the random bytes a handler obtains are parts of its request. A query
  that fails for a reason other than a constraint of the schema (a lost connection) is not
  modelled: such a handler answers 500 and its transaction is rolled back.
\<close>

section \<open>Requests and responses\<close>

datatype principalKind = principalSession | principalToken

record authInfo =
  a_Kind :: principalKind
  a_UserID :: uuid
  a_Email :: string
  a_UserName :: "string option"
  a_WorkspaceID :: uuid
  a_WorkspaceName :: string
  a_WorkspaceSlug :: string
  a_Role :: string
  a_MustChangePassword :: bool
  a_sessionTokenHash :: string

record request =
  rq_now :: timestamp
  rq_salt :: "string option"             \<comment> \<open>\<^verbatim>\<open>rand.Read\<close> for a password salt, \<open>None\<close> when it fails\<close>
  rq_rand :: "string option"             \<comment> \<open>\<^verbatim>\<open>rand.Read\<close> for a session or API token\<close>
  rq_path :: string
  rq_values :: "(string \<times> string) list"  \<comment> \<open>\<^verbatim>\<open>r.PathValue\<close>\<close>
  rq_query :: "(string \<times> string list) list"
  rq_header :: "(string \<times> string) list"
  rq_cookie :: "string option"           \<comment> \<open>the session cookie\<close>
  rq_remote_addr :: string
  rq_tls :: bool
  rq_raw :: string
  rq_body :: "json option"
  rq_auth :: "authInfo option"           \<comment> \<open>the principal in the request context\<close>

definition Header_Get :: "request \<Rightarrow> string \<Rightarrow> string" where
  "Header_Get r k = (case map_of (rq_header r) k of Some v \<Rightarrow> v | None \<Rightarrow> [])"

definition PathValue :: "request \<Rightarrow> string \<Rightarrow> string" where
  "PathValue r k = (case map_of (rq_values r) k of Some v \<Rightarrow> v | None \<Rightarrow> [])"

definition Query_Get :: "request \<Rightarrow> string \<Rightarrow> string" where
  "Query_Get r k = (case map_of (rq_query r) k of Some (v # _) \<Rightarrow> v | _ \<Rightarrow> [])"

record cookie =
  ck_Value :: string
  ck_MaxAge :: int
  ck_HttpOnly :: bool
  ck_Secure :: bool

record response =
  rs_status :: int
  rs_body :: "json option"
  rs_cookie :: "cookie option"

definition s_json :: "int \<Rightarrow> json \<Rightarrow> response" where
  "s_json status v = \<lparr>rs_status = status, rs_body = Some v, rs_cookie = None\<rparr>"

definition s_error :: "int \<Rightarrow> string \<Rightarrow> response" where
  "s_error status err =
     s_json status (JObj [(''error'', JStr (if 500 \<le> status then ''internal error'' else err))])"

definition WriteHeader :: "int \<Rightarrow> response" where
  "WriteHeader status = \<lparr>rs_status = status, rs_body = None, rs_cookie = None\<rparr>"

definition authFrom :: "request \<Rightarrow> authInfo option" where
  "authFrom r = rq_auth r"

definition workspace :: "request \<Rightarrow> uuid" where
  "workspace r = (case authFrom r of Some a \<Rightarrow> a_WorkspaceID a | None \<Rightarrow> uuid_Nil)"

definition userIDOrNil :: "authInfo option \<Rightarrow> uuid option" where
  "userIDOrNil a = (case a of None \<Rightarrow> None | Some a \<Rightarrow> if a_UserID a = uuid_Nil then None else Some (a_UserID a))"

section \<open>Decoding a body into struct fields\<close>

text \<open>
  \<^verbatim>\<open>encoding/json\<close> matches members to fields without regard to letter case, in document order. A
  member of the wrong type leaves its field as it was and is reported at the end, after the
  remaining members have been decoded; so every field has a value and there is one flag for the
  whole body.
\<close>

fun field :: "('a \<Rightarrow> json \<Rightarrow> 'a result) \<Rightarrow> 'a \<Rightarrow> string \<Rightarrow> (string \<times> json) list \<Rightarrow> 'a" where
  "field dec old k [] = old"
| "field dec old k ((n, v) # ms) =
     field dec (if ToLower n = k then (case dec old v of Inr x \<Rightarrow> x | Inl _ \<Rightarrow> old) else old) k ms"

fun field_ok :: "('a \<Rightarrow> json \<Rightarrow> 'a result) \<Rightarrow> 'a \<Rightarrow> string \<Rightarrow> (string \<times> json) list \<Rightarrow> bool" where
  "field_ok dec old k [] = True"
| "field_ok dec old k ((n, v) # ms) =
     ((ToLower n = k \<longrightarrow> \<not> (case dec old v of Inr x \<Rightarrow> False | Inl _ \<Rightarrow> True)) \<and> field_ok dec old k ms)"

fun dec_bool :: "bool \<Rightarrow> json \<Rightarrow> bool result" where
  "dec_bool old (JBool b) = Inr b"
| "dec_bool old JNull = Inr old"
| "dec_bool old _ = Inl type_error"

text \<open>A pointer field: \<^verbatim>\<open>null\<close> sets it to nil.\<close>

fun dec_ptr :: "('a \<Rightarrow> json \<Rightarrow> 'a result) \<Rightarrow> 'a \<Rightarrow> 'a option \<Rightarrow> json \<Rightarrow> 'a option result" where
  "dec_ptr dec z old JNull = Inr None"
| "dec_ptr dec z old v = rbind (dec (case old of Some x \<Rightarrow> x | None \<Rightarrow> z) v) (\<lambda>x. Inr (Some x))"

text \<open>A \<^verbatim>\<open>json.RawMessage\<close> field keeps the value as it is, \<^verbatim>\<open>null\<close> included.\<close>

definition dec_raw :: "json option \<Rightarrow> json \<Rightarrow> json option result" where
  "dec_raw old v = Inr (Some v)"

text \<open>The members of a body: an object has its own, \<^verbatim>\<open>null\<close> none, any other value is a type error.\<close>

fun body_members :: "json option \<Rightarrow> (string \<times> json) list" where
  "body_members (Some (JObj ms)) = ms"
| "body_members _ = []"

fun body_is_struct :: "json option \<Rightarrow> bool" where
  "body_is_struct (Some (JObj ms)) = True"
| "body_is_struct (Some JNull) = True"
| "body_is_struct _ = False"

definition string_field :: "request \<Rightarrow> string \<Rightarrow> string" where
  "string_field r k = field dec_string [] k (body_members (rq_body r))"

definition opt_string_field :: "request \<Rightarrow> string \<Rightarrow> string option" where
  "opt_string_field r k = field (dec_ptr dec_string []) None k (body_members (rq_body r))"

definition opt_bool_field :: "request \<Rightarrow> string \<Rightarrow> bool option" where
  "opt_bool_field r k = field (dec_ptr dec_bool False) None k (body_members (rq_body r))"

definition raw_field :: "request \<Rightarrow> string \<Rightarrow> json option" where
  "raw_field r k = field dec_raw None k (body_members (rq_body r))"

definition strings_ok :: "request \<Rightarrow> string list \<Rightarrow> bool" where
  "strings_ok r ks \<longleftrightarrow>
     body_is_struct (rq_body r) \<and> list_all (\<lambda>k. field_ok dec_string [] k (body_members (rq_body r))) ks"

definition opt_strings_ok :: "request \<Rightarrow> string list \<Rightarrow> bool" where
  "opt_strings_ok r ks \<longleftrightarrow>
     body_is_struct (rq_body r) \<and> list_all (\<lambda>k. field_ok (dec_ptr dec_string []) None k (body_members (rq_body r))) ks"

definition opt_bools_ok :: "request \<Rightarrow> string list \<Rightarrow> bool" where
  "opt_bools_ok r ks \<longleftrightarrow>
     body_is_struct (rq_body r) \<and> list_all (\<lambda>k. field_ok (dec_ptr dec_bool False) None k (body_members (rq_body r))) ks"

section \<open>Helpers\<close>

text \<open>\<^verbatim>\<open>strconv.Atoi\<close> is \<^verbatim>\<open>ParseInt\<close> on a 64-bit platform.\<close>

definition clampLimit :: "string \<Rightarrow> int \<Rightarrow> int \<Rightarrow> int" where
  "clampLimit raw dflt mx =
     (case ParseInt raw of
        None \<Rightarrow> dflt
      | Some n \<Rightarrow> if n < 1 then dflt else if n > mx then mx else n)"

definition slug_char :: "char \<Rightarrow> bool" where
  "slug_char c \<longleftrightarrow> (CHR ''a'' \<le> c \<and> c \<le> CHR ''z'') \<or> is_digit c"

text \<open>\<^verbatim>\<open>nonSlug.ReplaceAllString\<close>: every maximal run of other characters becomes one dash.\<close>

function (sequential) dash_runs :: "string \<Rightarrow> string" where
  "dash_runs [] = []"
| "dash_runs (c # s) =
     (if slug_char c then c # dash_runs s
      else CHR ''-'' # dash_runs (dropWhile (\<lambda>x. \<not> slug_char x) s))"
  by pat_completeness auto
termination
  by (relation "measure length") (auto simp: le_imp_less_Suc length_dropWhile_le)

definition Trim_dash :: "string \<Rightarrow> string" where
  "Trim_dash s = rev (dropWhile (\<lambda>c. c = CHR ''-'') (rev (dropWhile (\<lambda>c. c = CHR ''-'') s)))"

definition slugify :: "string \<Rightarrow> string" where
  "slugify name = Trim_dash (dash_runs (ToLower name))"

definition secureCookies :: "string \<Rightarrow> request \<Rightarrow> bool" where
  "secureCookies setting r =
     (if setting = ''always'' then True
      else if setting = ''never'' then False
      else rq_tls r \<or> Header_Get r ''X-Forwarded-Proto'' = ''https'')"

end
