(* ===== verification/Login_Limiter.thy ===== *)
theory Login_Limiter
  imports Http
begin

text \<open>
  The in-memory counter of failed logins (\<^verbatim>\<open>internal/api/ratelimit.go\<close>). A limiter maps a key to
  the times of its recent failures; every operation holds the mutex, so it is one step. The locale
  \<open>attempt_limiter\<close> is what the login handler relies on.
\<close>

section \<open>Model\<close>

record loginLimiter =
  ll_failures :: "(string \<times> timestamp list) list"
  ll_window :: int
  ll_max :: nat

definition newLoginLimiter :: loginLimiter where
  "newLoginLimiter = \<lparr>ll_failures = [], ll_window = 15 * Minute, ll_max = 10\<rparr>"

definition failures_of :: "loginLimiter \<Rightarrow> string \<Rightarrow> timestamp list" where
  "failures_of l key = (case map_of (ll_failures l) key of Some ts \<Rightarrow> ts | None \<Rightarrow> [])"

definition prune :: "string \<Rightarrow> timestamp \<Rightarrow> loginLimiter \<Rightarrow> timestamp list \<times> loginLimiter" where
  "prune key now l =
     (let kept = filter (\<lambda>t. now - t < ll_window l) (failures_of l key) in
      if length kept = 0 then ([], l\<lparr>ll_failures := AList.delete key (ll_failures l)\<rparr>)
      else (kept, l\<lparr>ll_failures := AList.update key kept (ll_failures l)\<rparr>))"

definition allowed :: "string \<Rightarrow> timestamp \<Rightarrow> loginLimiter \<Rightarrow> bool \<times> loginLimiter" where
  "allowed key now l = (let (kept, l') = prune key now l in (length kept < ll_max l, l'))"

definition fail :: "string \<Rightarrow> timestamp \<Rightarrow> loginLimiter \<Rightarrow> loginLimiter" where
  "fail key now l =
     (let (kept, l') = prune key now l in l'\<lparr>ll_failures := AList.update key (kept @ [now]) (ll_failures l')\<rparr>)"

definition limiter_reset :: "string \<Rightarrow> loginLimiter \<Rightarrow> loginLimiter" where
  "limiter_reset key l = l\<lparr>ll_failures := AList.delete key (ll_failures l)\<rparr>"

text \<open>
  \<^verbatim>\<open>net.SplitHostPort\<close> is modelled for the addresses \<^verbatim>\<open>net/http\<close> puts in \<^verbatim>\<open>RemoteAddr\<close>:
  \<^verbatim>\<open>[host]:port\<close> for IPv6, \<^verbatim>\<open>host:port\<close> otherwise; anything else is an error.
\<close>

definition SplitHostPort :: "string \<Rightarrow> string option" where
  "SplitHostPort a =
     (case a of
        [] \<Rightarrow> None
      | c # rest \<Rightarrow>
          if c = CHR ''['' then
            (let host = takeWhile (\<lambda>x. x \<noteq> CHR '']'') rest; after = dropWhile (\<lambda>x. x \<noteq> CHR '']'') rest in
             if length after \<ge> 2 \<and> after ! 1 = CHR '':'' \<and>
                CHR '':'' \<notin> set (drop 2 after) \<and> CHR ''['' \<notin> set host \<and>
                CHR ''['' \<notin> set (drop 2 after) \<and> CHR '']'' \<notin> set (drop 2 after) then Some host else None)
          else
            (let host = takeWhile (\<lambda>x. x \<noteq> CHR '':'') a; after = dropWhile (\<lambda>x. x \<noteq> CHR '':'') a in
             if after \<noteq> [] \<and> CHR '':'' \<notin> set (tl after) \<and>
                CHR ''['' \<notin> set a \<and> CHR '']'' \<notin> set a then Some host else None))"

definition clientIP :: "request \<Rightarrow> string" where
  "clientIP r =
     (let xff = Header_Get r ''X-Forwarded-For'' in
      if xff \<noteq> [] then TrimSpace (takeWhile (\<lambda>c. c \<noteq> CHR '','') xff)
      else case SplitHostPort (rq_remote_addr r) of None \<Rightarrow> rq_remote_addr r | Some host \<Rightarrow> host)"

section \<open>What a limiter promises\<close>

text \<open>
  The specification is a log of what happened, without any pruning: the failures of a key since
  its last successful login.
\<close>

datatype attempt = Asked string timestamp | Failed string timestamp | Succeeded string

fun attempt_time :: "attempt \<Rightarrow> timestamp option" where
  "attempt_time (Asked k t) = Some t"
| "attempt_time (Failed k t) = Some t"
| "attempt_time (Succeeded k) = None"

fun log_failures :: "string \<Rightarrow> attempt list \<Rightarrow> timestamp list" where
  "log_failures key [] = []"
| "log_failures key (a # newer) =
     (if Succeeded key \<in> set newer then log_failures key newer
      else case a of Failed k t \<Rightarrow> if k = key then t # log_failures key newer else log_failures key newer
           | _ \<Rightarrow> log_failures key newer)"

fun run_attempts ::
  "(string \<Rightarrow> timestamp \<Rightarrow> 'l \<Rightarrow> bool \<times> 'l) \<Rightarrow> (string \<Rightarrow> timestamp \<Rightarrow> 'l \<Rightarrow> 'l) \<Rightarrow> (string \<Rightarrow> 'l \<Rightarrow> 'l) \<Rightarrow>
   attempt list \<Rightarrow> 'l \<Rightarrow> 'l" where
  "run_attempts ask flag clear [] l = l"
| "run_attempts ask flag clear (a # as) l =
     run_attempts ask flag clear as
       (case a of Asked k t \<Rightarrow> snd (ask k t l) | Failed k t \<Rightarrow> flag k t l | Succeeded k \<Rightarrow> clear k l)"

definition happened_by :: "timestamp \<Rightarrow> attempt list \<Rightarrow> bool" where
  "happened_by now as \<longleftrightarrow> (\<forall>a \<in> set as. \<forall>t. attempt_time a = Some t \<longrightarrow> t \<le> now)"

locale attempt_limiter =
  fixes ask :: "string \<Rightarrow> timestamp \<Rightarrow> 'l \<Rightarrow> bool \<times> 'l"
    and flag :: "string \<Rightarrow> timestamp \<Rightarrow> 'l \<Rightarrow> 'l"
    and clear :: "string \<Rightarrow> 'l \<Rightarrow> 'l"
    and recent :: "'l \<Rightarrow> string \<Rightarrow> timestamp \<Rightarrow> timestamp list"
    and limit :: "'l \<Rightarrow> nat"
    and window :: "'l \<Rightarrow> int"
  assumes ask_iff: "fst (ask k t l) \<longleftrightarrow> length (recent l k t) < limit l"
    and ask_recent: "t \<le> now \<Longrightarrow> recent (snd (ask k t l)) k' now = recent l k' now"
    and flag_recent: "t \<le> now \<Longrightarrow>
      recent (flag k t l) k' now = recent l k' now @ (if k' = k \<and> now - t < window l then [t] else [])"
    and clear_recent: "recent (clear k l) k' now = (if k' = k then [] else recent l k' now)"
    and settings: "limit (snd (ask k t l)) = limit l" "limit (flag k t l) = limit l" "limit (clear k l) = limit l"
      "window (snd (ask k t l)) = window l" "window (flag k t l) = window l" "window (clear k l) = window l"
begin

lemma run_settings:
  "limit (run_attempts ask flag clear as l) = limit l \<and> window (run_attempts ask flag clear as l) = window l"
  by (induction as arbitrary: l) (auto simp: settings split: attempt.splits)

lemma run_recent:
  assumes "happened_by now as"
  shows "recent (run_attempts ask flag clear as l) k now =
    (if Succeeded k \<in> set as then [] else recent l k now) @ filter (\<lambda>t. now - t < window l) (log_failures k as)"
  using assms
proof (induction as arbitrary: l)
  case (Cons a as)
  then have IH: "recent (run_attempts ask flag clear as l') k now =
      (if Succeeded k \<in> set as then [] else recent l' k now) @ filter (\<lambda>t. now - t < window l') (log_failures k as)"
    for l' by (simp add: happened_by_def)
  from Cons.prems have t: "attempt_time a = Some t \<Longrightarrow> t \<le> now" for t by (simp add: happened_by_def)
  show ?case
    using t by (cases a) (auto simp: IH settings ask_recent flag_recent clear_recent)
qed simp

lemma ask_after_run:
  assumes "happened_by now as"
  shows "fst (ask k now (run_attempts ask flag clear as l)) \<longleftrightarrow>
    length ((if Succeeded k \<in> set as then [] else recent l k now) @
      filter (\<lambda>t. now - t < window l) (log_failures k as)) < limit l"
  using run_recent [OF assms] by (simp add: ask_iff run_settings)

end

section \<open>The limiter keeps the promise\<close>

definition recent_failures :: "loginLimiter \<Rightarrow> string \<Rightarrow> timestamp \<Rightarrow> timestamp list" where
  "recent_failures l key now = filter (\<lambda>t. now - t < ll_window l) (failures_of l key)"

lemma failures_of_update:
  "failures_of (l\<lparr>ll_failures := AList.update k v (ll_failures l)\<rparr>) k' = (if k' = k then v else failures_of l k')"
  "failures_of (l\<lparr>ll_failures := AList.delete k (ll_failures l)\<rparr>) k' = (if k' = k then [] else failures_of l k')"
  by (simp_all add: failures_of_def update_conv' delete_conv')

lemma prune_effect:
  "fst (prune k t l) = recent_failures l k t" "ll_window (snd (prune k t l)) = ll_window l"
  "ll_max (snd (prune k t l)) = ll_max l"
  "failures_of (snd (prune k t l)) k' = (if k' = k then recent_failures l k t else failures_of l k')"
  by (auto simp: prune_def Let_def recent_failures_def failures_of_update)

lemma recent_twice:
  assumes "t \<le> now"
  shows "filter (\<lambda>x. now - x < w) (filter (\<lambda>x. t - x < w) xs) = filter (\<lambda>x. now - x < (w :: int)) xs"
  unfolding filter_filter by (rule filter_cong) (use assms in auto)

interpretation login_limiter: attempt_limiter allowed fail limiter_reset recent_failures ll_max ll_window
proof
  fix k k' :: string and t now :: timestamp and l :: loginLimiter
  show "fst (allowed k t l) \<longleftrightarrow> length (recent_failures l k t) < ll_max l"
    by (simp add: allowed_def split_beta prune_effect)
  show "recent_failures (snd (allowed k t l)) k' now = recent_failures l k' now" if "t \<le> now"
    using recent_twice [OF that]
    by (simp add: allowed_def split_beta prune_effect recent_failures_def [of _ k'])
      (simp add: recent_failures_def)
  show "recent_failures (fail k t l) k' now =
      recent_failures l k' now @ (if k' = k \<and> now - t < ll_window l then [t] else [])" if "t \<le> now"
    using recent_twice [OF that]
    by (simp add: fail_def split_beta prune_effect recent_failures_def [of _ k'] failures_of_update)
      (simp add: recent_failures_def)
qed (simp_all add: limiter_reset_def recent_failures_def failures_of_update allowed_def fail_def
    split_beta prune_effect)

text \<open>
  C37. The login limiter, which throws expired failures away as it goes, decides as if it kept the
  whole history: after any sequence of attempts that happened by now, a key is let through exactly
  when fewer than ten of its failures since its last success lie within the last fifteen minutes.
\<close>

theorem login_limiter_refines_history:
  assumes "happened_by now as"
  shows "fst (allowed key now (run_attempts allowed fail limiter_reset as newLoginLimiter)) \<longleftrightarrow>
    length (filter (\<lambda>t. now - t < 15 * Minute) (log_failures key as)) < 10"
  using login_limiter.ask_after_run [OF assms, of key newLoginLimiter]
  by (simp add: newLoginLimiter_def recent_failures_def failures_of_def)

theorem login_limiter_refines_history_witness:
  "\<not> fst (allowed ''k'' 11 (run_attempts allowed fail limiter_reset
       (map (Failed ''k'') [1,2,3,4,5,6,7,8,9,10]) newLoginLimiter)) \<and>
   fst (allowed ''k'' (2 + 15 * Minute) (run_attempts allowed fail limiter_reset
       (map (Failed ''k'') [1,2,3,4,5,6,7,8,9,10]) newLoginLimiter))"
proof
  have "happened_by 11 (map (Failed ''k'') [1,2,3,4,5,6,7,8,9,10])" by (simp add: happened_by_def)
  from login_limiter_refines_history [OF this, of "''k''"]
  show "\<not> fst (allowed ''k'' 11 (run_attempts allowed fail limiter_reset
       (map (Failed ''k'') [1,2,3,4,5,6,7,8,9,10]) newLoginLimiter))"
    by (simp add: Minute_def Second_def)
next
  have "happened_by (2 + 15 * Minute) (map (Failed ''k'') [1,2,3,4,5,6,7,8,9,10])"
    by (simp add: happened_by_def Minute_def Second_def)
  from login_limiter_refines_history [OF this, of "''k''"]
  show "fst (allowed ''k'' (2 + 15 * Minute) (run_attempts allowed fail limiter_reset
       (map (Failed ''k'') [1,2,3,4,5,6,7,8,9,10]) newLoginLimiter))"
    by (simp add: Minute_def Second_def)
qed

end
