(* ===== verification/Accounts.thy ===== *)
theory Accounts
  imports Store Passwords Login_Limiter
begin

text \<open>
  Accounts, sessions and API tokens: the tables behind \<^verbatim>\<open>internal/api/auth.go\<close>,
  \<^verbatim>\<open>users.go\<close> and \<^verbatim>\<open>tokens.go\<close>, and every handler of these files as a function from a request
  and the server's state to a response and the new state. A handler outside a transaction issues
  its statements one after the other; the model runs one request at a time, and the interleaving of
  two requests is taken up where it matters (\<open>Accounts_Facts\<close>).
\<close>

section \<open>Tables and server state\<close>

record workspace_row =
  ws_id :: uuid
  ws_slug :: string
  ws_name :: string

record user_row =
  u_id :: uuid
  u_email :: string
  u_name :: "string option"
  u_password_hash :: "string option"
  u_must_change_password :: bool
  u_created_at :: timestamp

record member_row =
  m_workspace_id :: uuid
  m_user_id :: uuid
  m_role :: string
  m_created_at :: timestamp

record session_row =
  se_user_id :: uuid
  se_token :: string
  se_expires_at :: timestamp
  se_last_seen_at :: "timestamp option"

record token_row =
  at_id :: uuid
  at_workspace_id :: uuid
  at_name :: string
  at_token_hash :: string
  at_prefix :: string
  at_created_by :: "uuid option"
  at_created_at :: timestamp
  at_last_used_at :: "timestamp option"

record server =
  workspaces :: "workspace_row list"
  users :: "user_row list"
  members :: "member_row list"
  sessions :: "session_row list"
  api_tokens :: "token_row list"
  setupConfigured :: bool          \<comment> \<open>the process-wide \<^verbatim>\<open>atomic.Bool\<close>\<close>
  loginAttempts :: loginLimiter
  SecureCookies :: string

text \<open>
  Code outside the repository: argon2, \<^verbatim>\<open>uuid.Parse\<close>, and the text form Postgres gives a
  timestamp.
\<close>

record api_env =
  ae_IDKey :: kdf
  ae_uuid_Parse :: "string \<Rightarrow> uuid option"
  ae_timestamptz_text :: "timestamp \<Rightarrow> string"

type_synonym handler = "request \<Rightarrow> server \<Rightarrow> response \<times> server"

text \<open>The columns \<^verbatim>\<open>users.email\<close> are \<^verbatim>\<open>citext\<close>: compared without regard to letter case.\<close>

definition same_email :: "string \<Rightarrow> string \<Rightarrow> bool" where
  "same_email a b \<longleftrightarrow> ToLower a = ToLower b"

definition aborted :: response where
  "aborted = \<lparr>rs_status = 0, rs_body = None, rs_cookie = None\<rparr>"   \<comment> \<open>a panic: the connection is closed\<close>

section \<open>Principals\<close>

definition admin :: "authInfo option \<Rightarrow> bool" where
  "admin a = (case a of None \<Rightarrow> False
     | Some a \<Rightarrow> a_Kind a = principalSession \<and> (a_Role a = ''owner'' \<or> a_Role a = ''admin''))"

definition authSkip :: "string list" where
  "authSkip = [''/v1/setup'', ''/v1/login'', ''/v1/logout'']"

definition sessionTTL :: int where
  "sessionTTL = 30 * 24 * 60 * Minute"

definition hashToken :: "externals \<Rightarrow> string \<Rightarrow> string" where
  "hashToken X token = hex_EncodeToString (sha256_Sum256 X token)"

definition bearer :: string where
  "bearer = ''Bearer ''"

definition authenticateToken :: "externals \<Rightarrow> request \<Rightarrow> server \<Rightarrow> uuid option \<times> server" where
  "authenticateToken X r s =
     (let h = Header_Get r ''Authorization'' in
      if \<not> HasPrefix h bearer then (None, s)
      else let raw = TrimSpace (drop (length bearer) h) in
        if \<not> HasPrefix raw ''oak_'' then (None, s)
        else case find (\<lambda>t. at_token_hash t = hashToken X raw) (api_tokens s) of
          None \<Rightarrow> (None, s)
        | Some t \<Rightarrow>
            (Some (at_workspace_id t),
             s\<lparr>api_tokens := map (\<lambda>t'. if at_id t' = at_id t then t'\<lparr>at_last_used_at := Some (rq_now r)\<rparr> else t')
                 (api_tokens s)\<rparr>))"

definition tokenPrincipal :: "externals \<Rightarrow> request \<Rightarrow> server \<Rightarrow> authInfo option \<times> server" where
  "tokenPrincipal X r s =
     (case authenticateToken X r s of
        (None, s') \<Rightarrow> (None, s')
      | (Some wsID, s') \<Rightarrow>
          (case find (\<lambda>w. ws_id w = wsID) (workspaces s') of
             None \<Rightarrow> (None, s')
           | Some w \<Rightarrow>
               (Some \<lparr>a_Kind = principalToken, a_UserID = uuid_Nil, a_Email = [], a_UserName = None,
                  a_WorkspaceID = wsID, a_WorkspaceName = ws_name w, a_WorkspaceSlug = ws_slug w,
                  a_Role = ''editor'', a_MustChangePassword = False, a_sessionTokenHash = []\<rparr>, s')))"

definition setupRequired :: "server \<Rightarrow> bool \<times> server" where
  "setupRequired s =
     (if setupConfigured s then (False, s)
      else if list_ex (\<lambda>u. u_password_hash u \<noteq> None) (users s) then (False, s\<lparr>setupConfigured := True\<rparr>)
      else (True, s))"

definition session_rows :: "string \<Rightarrow> timestamp \<Rightarrow> server \<Rightarrow> (user_row \<times> member_row \<times> workspace_row) list" where
  "session_rows hashed now s =
     [(u, m, w). se \<leftarrow> sessions s, se_token se = hashed \<and> se_expires_at se > now,
        u \<leftarrow> users s, u_id u = se_user_id se, m \<leftarrow> members s, m_user_id m = u_id u,
        w \<leftarrow> workspaces s, ws_id w = m_workspace_id m]"

definition loadSession :: "externals \<Rightarrow> timestamp \<Rightarrow> string \<Rightarrow> server \<Rightarrow> authInfo option \<times> server" where
  "loadSession X now token s =
     (let hashed = hashToken X token in
      case sort_key (\<lambda>(u, m, w). m_created_at m) (session_rows hashed now s) of
        [] \<Rightarrow> (None, s)
      | (u, m, w) # _ \<Rightarrow>
          (Some \<lparr>a_Kind = principalSession, a_UserID = u_id u, a_Email = u_email u, a_UserName = u_name u,
             a_WorkspaceID = m_workspace_id m, a_WorkspaceName = ws_name w, a_WorkspaceSlug = ws_slug w,
             a_Role = m_role m, a_MustChangePassword = u_must_change_password u, a_sessionTokenHash = hashed\<rparr>,
           s\<lparr>sessions := map (\<lambda>se. if se_token se = hashed then se\<lparr>se_last_seen_at := Some now\<rparr> else se) (sessions s)\<rparr>))"

definition auth_required :: "server \<Rightarrow> response \<times> server" where
  "auth_required s =
     (let (needed, s') = setupRequired s in
      (s_json 401 (JObj [(''error'', JStr ''authentication required''), (''setup_required'', JBool needed)]), s'))"

definition WithAuth :: "externals \<Rightarrow> handler \<Rightarrow> handler" where
  "WithAuth X nxt r s =
     (if rq_path r \<in> set authSkip then nxt r s
      else if HasPrefix (Header_Get r ''Authorization'') bearer then
        (case tokenPrincipal X r s of
           (None, s') \<Rightarrow> (s_error 401 ''invalid API token'', s')
         | (Some a, s') \<Rightarrow> nxt (r\<lparr>rq_auth := Some a\<rparr>) s')
      else case rq_cookie r of
        None \<Rightarrow> auth_required s
      | Some c \<Rightarrow>
          (case loadSession X (rq_now r) c s of
             (Some a, s') \<Rightarrow> nxt (r\<lparr>rq_auth := Some a\<rparr>) s'
           | (None, s') \<Rightarrow> auth_required s'))"

definition requireAdmin :: "handler \<Rightarrow> handler" where
  "requireAdmin nxt r s =
     (if \<not> admin (authFrom r) then (s_error 403 ''admin access required'', s) else nxt r s)"

definition requireSession :: "handler \<Rightarrow> handler" where
  "requireSession nxt r s =
     (case authFrom r of
        None \<Rightarrow> (s_error 403 ''session required'', s)
      | Some a \<Rightarrow> if a_Kind a \<noteq> principalSession then (s_error 403 ''session required'', s) else nxt r s)"

section \<open>Sessions\<close>

definition startSession :: "externals \<Rightarrow> request \<Rightarrow> uuid \<Rightarrow> server \<Rightarrow> (cookie \<times> server) result" where
  "startSession X r userID s =
     (case rq_rand r of
        None \<Rightarrow> Inl (Errorf ''rand'')
      | Some raw \<Rightarrow>
          let token = hex_EncodeToString raw; hashed = hashToken X token in
          if hashed \<in> se_token ` set (sessions s) then Inl UniqueViolation
          else if userID \<notin> u_id ` set (users s) then Inl ForeignKeyViolation
          else Inr (\<lparr>ck_Value = token, ck_MaxAge = sessionTTL div Second, ck_HttpOnly = True,
                     ck_Secure = secureCookies (SecureCookies s) r\<rparr>,
                    s\<lparr>sessions := sessions s @ [\<lparr>se_user_id = userID, se_token = hashed,
                        se_expires_at = rq_now r + sessionTTL, se_last_seen_at = None\<rparr>]\<rparr>))"

definition ok_body :: json where
  "ok_body = JObj [(''ok'', JBool True)]"

definition reply_session :: "int \<Rightarrow> externals \<Rightarrow> request \<Rightarrow> uuid \<Rightarrow> server \<Rightarrow> response \<times> server" where
  "reply_session status X r userID s =
     (case startSession X r userID s of
        Inl e \<Rightarrow> (s_error 500 [], s)
      | Inr (ck, s') \<Rightarrow> ((s_json status ok_body)\<lparr>rs_cookie := Some ck\<rparr>, s'))"

definition password_too_short :: string where
  "password_too_short = ''password must be at least 8 characters''"

text \<open>The account \<^verbatim>\<open>setup\<close> claims: the oldest owner without a password.\<close>

definition unclaimed_owner :: "server \<Rightarrow> user_row option" where
  "unclaimed_owner s =
     (case sort_key u_created_at (filter (\<lambda>u. u_password_hash u = None \<and>
         (\<exists>m \<in> set (members s). m_user_id m = u_id u \<and> m_role m = ''owner'')) (users s)) of
        [] \<Rightarrow> None | u # _ \<Rightarrow> Some u)"

definition email_taken :: "string \<Rightarrow> uuid \<Rightarrow> server \<Rightarrow> bool" where
  "email_taken email i s \<longleftrightarrow> (\<exists>u \<in> set (users s). u_id u \<noteq> i \<and> same_email (u_email u) email)"

definition update_user :: "uuid \<Rightarrow> (user_row \<Rightarrow> user_row) \<Rightarrow> server \<Rightarrow> server" where
  "update_user i f s = s\<lparr>users := map (\<lambda>u. if u_id u = i then f u else u) (users s)\<rparr>"

definition claim :: "string \<Rightarrow> string \<Rightarrow> string \<Rightarrow> user_row \<Rightarrow> user_row" where
  "claim email name hash u = u\<lparr>u_email := email, u_name := Some name, u_password_hash := Some hash,
     u_must_change_password := False\<rparr>"

definition delete_sessions :: "(session_row \<Rightarrow> bool) \<Rightarrow> server \<Rightarrow> server" where
  "delete_sessions P s = s\<lparr>sessions := filter (\<lambda>se. \<not> P se) (sessions s)\<rparr>"

definition setup_account :: "externals \<Rightarrow> api_env \<Rightarrow> handler" where
  "setup_account X A r s0 =
     (let (required, s) = setupRequired s0 in
      if \<not> required then (s_error 409 ''setup is already complete'', s)
      else if \<not> strings_ok r [''email'', ''name'', ''password''] then (s_error 400 ''invalid body'', s)
      else let email = ToLower (TrimSpace (string_field r ''email''));
               name = TrimSpace (string_field r ''name'');
               password = string_field r ''password'' in
        if email = [] \<or> \<not> Contains email ''@'' then (s_error 422 ''a valid email is required'', s)
        else if length password < minPasswordLen then (s_error 422 password_too_short, s)
        else case hashPassword (ae_IDKey A) (rq_salt r) password of
          None \<Rightarrow> (s_error 500 [], s)
        | Some hash \<Rightarrow>
            (case unclaimed_owner s of
               None \<Rightarrow> (s_error 409 ''setup is already complete'', s)
             | Some u \<Rightarrow>
                 if email_taken email (u_id u) s then (s_error 500 [], s)
                 else
                   let s1 = update_user (u_id u) (claim email name hash) s;
                       s2 = s1\<lparr>setupConfigured := True\<rparr>;
                       s3 = delete_sessions (\<lambda>se. se_user_id se = u_id u) s2 in
                   reply_session 201 X r (u_id u) s3))"

definition login :: "externals \<Rightarrow> api_env \<Rightarrow> handler" where
  "login X A r s =
     (if \<not> strings_ok r [''email'', ''password''] then (s_error 400 ''invalid body'', s)
      else let email = ToLower (TrimSpace (string_field r ''email''));
               password = string_field r ''password'';
               limitKey = clientIP r @ ''|'' @ email;
               (ok, l) = allowed limitKey (rq_now r) (loginAttempts s);
               s1 = s\<lparr>loginAttempts := l\<rparr> in
        if \<not> ok then (s_error 429 ''too many attempts; try again later'', s1)
        else
          let denied = (s_error 401 ''invalid email or password'',
                        s1\<lparr>loginAttempts := fail limitKey (rq_now r) l\<rparr>) in
          case find (\<lambda>u. same_email (u_email u) email) (users s1) of
            None \<Rightarrow> denied
          | Some u \<Rightarrow>
              (case u_password_hash u of
                 None \<Rightarrow> denied
               | Some hash \<Rightarrow>
                   if \<not> verifyPassword (ae_IDKey A) hash password then denied
                   else reply_session 200 X r (u_id u)
                     (delete_sessions (\<lambda>se. se_expires_at se < rq_now r)
                       (s1\<lparr>loginAttempts := limiter_reset limitKey l\<rparr>))))"

definition logout :: "externals \<Rightarrow> handler" where
  "logout X r s =
     ((WriteHeader 204)\<lparr>rs_cookie := Some \<lparr>ck_Value = [], ck_MaxAge = -1, ck_HttpOnly = True,
        ck_Secure = secureCookies (SecureCookies s) r\<rparr>\<rparr>,
      case rq_cookie r of
        None \<Rightarrow> s
      | Some c \<Rightarrow> delete_sessions (\<lambda>se. se_token se = hashToken X c) s)"

definition set_password :: "string \<Rightarrow> bool \<Rightarrow> user_row \<Rightarrow> user_row" where
  "set_password hash must u = u\<lparr>u_password_hash := Some hash, u_must_change_password := must\<rparr>"

definition changePassword :: "externals \<Rightarrow> api_env \<Rightarrow> handler" where
  "changePassword X A r s =
     (if \<not> strings_ok r [''current_password'', ''new_password''] then (s_error 400 ''invalid body'', s)
      else let current = string_field r ''current_password''; new = string_field r ''new_password'' in
        if length new < minPasswordLen then (s_error 422 password_too_short, s)
        else case authFrom r of
          None \<Rightarrow> (aborted, s)
        | Some a \<Rightarrow>
            let change = (case hashPassword (ae_IDKey A) (rq_salt r) new of
                  None \<Rightarrow> (s_error 500 [], s)
                | Some hash \<Rightarrow>
                    (s_json 200 ok_body,
                     delete_sessions (\<lambda>se. se_user_id se = a_UserID a \<and> se_token se \<noteq> a_sessionTokenHash a)
                       (update_user (a_UserID a) (set_password hash False) s))) in
            if a_MustChangePassword a then change
            else case find (\<lambda>u. u_id u = a_UserID a) (users s) of
              None \<Rightarrow> (s_error 500 [], s)
            | Some u \<Rightarrow>
                (case u_password_hash u of
                   None \<Rightarrow> (s_error 403 ''current password is incorrect'', s)
                 | Some hash \<Rightarrow>
                     if \<not> verifyPassword (ae_IDKey A) hash current
                     then (s_error 403 ''current password is incorrect'', s)
                     else change))"

definition opt_str :: "string option \<Rightarrow> json" where
  "opt_str v = (case v of None \<Rightarrow> JNull | Some x \<Rightarrow> JStr x)"

fun kind_text :: "principalKind \<Rightarrow> string" where
  "kind_text principalSession = ''session''"
| "kind_text principalToken = ''token''"

definition me :: "externals \<Rightarrow> bool \<Rightarrow> handler" where
  "me X devKey r s =
     (case authFrom r of
        None \<Rightarrow> (s_error 401 ''no session'', s)
      | Some a \<Rightarrow>
          (s_json 200 (JObj
             [(''auth_kind'', JStr (kind_text (a_Kind a))),
              (''user'', if a_Kind a = principalSession
                 then JObj [(''id'', JStr (uuid_String X (a_UserID a))), (''email'', JStr (a_Email a)),
                            (''name'', opt_str (a_UserName a))]
                 else JNull),
              (''must_change_password'', JBool (a_MustChangePassword a)),
              (''workspace'', JObj [(''id'', JStr (uuid_String X (a_WorkspaceID a))),
                 (''name'', JStr (a_WorkspaceName a)), (''slug'', JStr (a_WorkspaceSlug a))]),
              (''role'', JStr (a_Role a)),
              (''vault'', JObj [(''dev_key'', JBool devKey)])]), s))"

section \<open>User management\<close>

definition allowedRoles :: "string list" where
  "allowedRoles = [''admin'', ''editor'', ''viewer'']"

definition isAdminRole :: "string \<Rightarrow> bool" where
  "isAdminRole role \<longleftrightarrow> role = ''owner'' \<or> role = ''admin''"

definition last_seen :: "uuid \<Rightarrow> server \<Rightarrow> timestamp option" where
  "last_seen i s =
     (case List.map_filter se_last_seen_at (filter (\<lambda>se. se_user_id se = i) (sessions s)) of
        [] \<Rightarrow> None | t # ts \<Rightarrow> Some (foldl max t ts))"

definition listUsers :: "externals \<Rightarrow> api_env \<Rightarrow> handler" where
  "listUsers X A r s =
     (s_json 200 (JArr (map (\<lambda>(u, m). JObj
        [(''id'', JStr (uuid_String X (u_id u))), (''email'', JStr (u_email u)), (''name'', opt_str (u_name u)),
         (''role'', JStr (m_role m)), (''must_change_password'', JBool (u_must_change_password u)),
         (''created_at'', JStr (ae_timestamptz_text A (u_created_at u))),
         (''last_seen_at'', opt_str (map_option (ae_timestamptz_text A) (last_seen (u_id u) s)))])
        (sort_key (\<lambda>(u, m). u_created_at u)
          [(u, m). u \<leftarrow> users s, m \<leftarrow> members s, m_user_id m = u_id u \<and> m_workspace_id m = workspace r]))), s)"

definition createUser :: "externals \<Rightarrow> api_env \<Rightarrow> handler" where
  "createUser X A r s =
     (if \<not> strings_ok r [''email'', ''name'', ''password'', ''role''] then (s_error 400 ''invalid body'', s)
      else let email = ToLower (TrimSpace (string_field r ''email''));
               password = string_field r ''password''; role = string_field r ''role'' in
        if email = [] \<or> \<not> Contains email ''@'' then (s_error 422 ''a valid email is required'', s)
        else if length password < minPasswordLen then (s_error 422 password_too_short, s)
        else if role \<notin> set allowedRoles then (s_error 422 ''role must be admin, editor, or viewer'', s)
        else case hashPassword (ae_IDKey A) (rq_salt r) password of
          None \<Rightarrow> (s_error 500 [], s)
        | Some hash \<Rightarrow>
            let i = gen_random_uuid X (map u_id (users s)) in
            if i \<in> u_id ` set (users s) \<or> (\<exists>u \<in> set (users s). same_email (u_email u) email)
            then (s_error 409 (''a user with email '' @ quoted email @ '' already exists''), s)
            else if workspace r \<notin> ws_id ` set (workspaces s) then (s_error 500 [], s)
            else
              (s_json 201 (JObj [(''id'', JStr (uuid_String X i))]),
               s\<lparr>users := users s @ [\<lparr>u_id = i, u_email = email, u_name = Some (TrimSpace (string_field r ''name'')),
                   u_password_hash = Some hash, u_must_change_password = True, u_created_at = rq_now r\<rparr>],
                 members := members s @ [\<lparr>m_workspace_id = workspace r, m_user_id = i, m_role = role,
                   m_created_at = rq_now r\<rparr>]\<rparr>))"

definition adminCount :: "uuid \<Rightarrow> server \<Rightarrow> nat" where
  "adminCount wsID s =
     length (filter (\<lambda>m. m_workspace_id m = wsID \<and> m_role m \<in> {''owner'', ''admin''}) (members s))"

definition memberRole :: "uuid \<Rightarrow> uuid \<Rightarrow> server \<Rightarrow> string option" where
  "memberRole wsID userID s =
     map_option m_role (find (\<lambda>m. m_workspace_id m = wsID \<and> m_user_id m = userID) (members s))"

definition set_role :: "uuid \<Rightarrow> uuid \<Rightarrow> string \<Rightarrow> server \<Rightarrow> server" where
  "set_role wsID userID role s =
     s\<lparr>members := map (\<lambda>m. if m_workspace_id m = wsID \<and> m_user_id m = userID then m\<lparr>m_role := role\<rparr> else m)
         (members s)\<rparr>"

text \<open>
  The checks of \<^verbatim>\<open>updateUser\<close> on a new role, and of \<^verbatim>\<open>deleteUser\<close>: they read the tables before
  the statement that changes them. \<open>Some\<close> is the answer to refuse with.
\<close>

definition check_role :: "uuid \<Rightarrow> string \<Rightarrow> string \<Rightarrow> server \<Rightarrow> response option" where
  "check_role wsID current role s =
     (if role \<notin> set allowedRoles then Some (s_error 422 ''role must be admin, editor, or viewer'')
      else if isAdminRole current \<and> \<not> isAdminRole role \<and> adminCount wsID s \<le> 1
      then Some (s_error 409 ''cannot demote the last admin'')
      else None)"

definition updateUser :: "externals \<Rightarrow> api_env \<Rightarrow> handler" where
  "updateUser X A r s =
     (case ae_uuid_Parse A (PathValue r ''id'') of
        None \<Rightarrow> (s_error 400 ''invalid user id'', s)
      | Some i \<Rightarrow>
          if \<not> opt_strings_ok r [''name'', ''role''] then (s_error 400 ''invalid body'', s)
          else case memberRole (workspace r) i s of
            None \<Rightarrow> (s_error 404 ''user not found'', s)
          | Some current \<Rightarrow>
              let changed = (case opt_string_field r ''role'' of Some role \<Rightarrow> role \<noteq> current | None \<Rightarrow> False);
                  role = (case opt_string_field r ''role'' of Some role \<Rightarrow> role | None \<Rightarrow> current);
                  s1 = (if changed then set_role (workspace r) i role s else s);
                  s2 = (case opt_string_field r ''name'' of
                          None \<Rightarrow> s1
                        | Some n \<Rightarrow> update_user i (\<lambda>u. u\<lparr>u_name := Some (TrimSpace n)\<rparr>) s1) in
              case (if changed then check_role (workspace r) current role s else None) of
                Some refusal \<Rightarrow> (refusal, s)
              | None \<Rightarrow> (s_json 200 (JObj [(''id'', JStr (uuid_String X i))]), s2))"

text \<open>
  \<^verbatim>\<open>delete from users\<close>: sessions and memberships cascade, \<^verbatim>\<open>created_by\<close> references become null.
\<close>

definition delete_user :: "uuid \<Rightarrow> server \<Rightarrow> server" where
  "delete_user i s =
     s\<lparr>users := filter (\<lambda>u. u_id u \<noteq> i) (users s),
       members := filter (\<lambda>m. m_user_id m \<noteq> i) (members s),
       sessions := filter (\<lambda>se. se_user_id se \<noteq> i) (sessions s),
       api_tokens := map (\<lambda>t. if at_created_by t = Some i then t\<lparr>at_created_by := None\<rparr> else t) (api_tokens s)\<rparr>"

definition check_delete :: "uuid \<Rightarrow> uuid \<Rightarrow> server \<Rightarrow> response option" where
  "check_delete wsID i s =
     (case memberRole wsID i s of
        None \<Rightarrow> Some (s_error 404 ''user not found'')
      | Some role \<Rightarrow>
          if isAdminRole role \<and> adminCount wsID s \<le> 1
          then Some (s_error 409 ''cannot delete the last admin'') else None)"

definition deleteUser :: "api_env \<Rightarrow> handler" where
  "deleteUser A r s =
     (case ae_uuid_Parse A (PathValue r ''id'') of
        None \<Rightarrow> (s_error 400 ''invalid user id'', s)
      | Some i \<Rightarrow>
          (case check_delete (workspace r) i s of
             Some refusal \<Rightarrow> (refusal, s)
           | None \<Rightarrow> (WriteHeader 204, delete_user i s)))"

definition resetUserPassword :: "externals \<Rightarrow> api_env \<Rightarrow> handler" where
  "resetUserPassword X A r s =
     (case ae_uuid_Parse A (PathValue r ''id'') of
        None \<Rightarrow> (s_error 400 ''invalid user id'', s)
      | Some i \<Rightarrow>
          if \<not> strings_ok r [''password''] then (s_error 400 ''invalid body'', s)
          else if length (string_field r ''password'') < minPasswordLen then (s_error 422 password_too_short, s)
          else case memberRole (workspace r) i s of
            None \<Rightarrow> (s_error 404 ''user not found'', s)
          | Some _ \<Rightarrow>
              (case hashPassword (ae_IDKey A) (rq_salt r) (string_field r ''password'') of
                 None \<Rightarrow> (s_error 500 [], s)
               | Some hash \<Rightarrow>
                   (s_json 200 (JObj [(''id'', JStr (uuid_String X i))]),
                    delete_sessions (\<lambda>se. se_user_id se = i) (update_user i (set_password hash True) s))))"

section \<open>API tokens\<close>

definition newAPIToken :: "externals \<Rightarrow> string option \<Rightarrow> (string \<times> string \<times> string) option" where
  "newAPIToken X rnd =
     (case rnd of
        None \<Rightarrow> None
      | Some b \<Rightarrow> let raw = ''oak_'' @ hex_EncodeToString b in Some (raw, hashToken X raw, take 8 raw))"

definition listAPITokens :: "externals \<Rightarrow> api_env \<Rightarrow> handler" where
  "listAPITokens X A r s =
     (s_json 200 (JArr (map (\<lambda>t. JObj
        [(''id'', JStr (uuid_String X (at_id t))), (''name'', JStr (at_name t)), (''prefix'', JStr (at_prefix t)),
         (''created_at'', JStr (ae_timestamptz_text A (at_created_at t))),
         (''last_used_at'', opt_str (map_option (ae_timestamptz_text A) (at_last_used_at t)))])
        (rev (sort_key at_created_at (filter (\<lambda>t. at_workspace_id t = workspace r) (api_tokens s)))))), s)"

definition createAPIToken :: "externals \<Rightarrow> handler" where
  "createAPIToken X r s =
     (if \<not> strings_ok r [''name''] \<or> TrimSpace (string_field r ''name'') = []
      then (s_error 400 ''name is required'', s)
      else let name = TrimSpace (string_field r ''name'') in
        case newAPIToken X (rq_rand r) of
          None \<Rightarrow> (s_error 500 [], s)
        | Some (raw, hash, prefix) \<Rightarrow>
            let i = gen_random_uuid X (map at_id (api_tokens s)) in
            if i \<in> at_id ` set (api_tokens s) \<or> hash \<in> at_token_hash ` set (api_tokens s) \<or>
               (\<exists>t \<in> set (api_tokens s). at_workspace_id t = workspace r \<and> at_name t = name) \<or>
               workspace r \<notin> ws_id ` set (workspaces s) \<or>
               (case userIDOrNil (authFrom r) of None \<Rightarrow> False | Some u \<Rightarrow> u \<notin> u_id ` set (users s))
            then (s_error 409 (''a token named '' @ quoted name @ '' already exists''), s)
            else
              (s_json 201 (JObj [(''id'', JStr (uuid_String X i)), (''token'', JStr raw)]),
               s\<lparr>api_tokens := api_tokens s @ [\<lparr>at_id = i, at_workspace_id = workspace r, at_name = name,
                   at_token_hash = hash, at_prefix = prefix, at_created_by = userIDOrNil (authFrom r),
                   at_created_at = rq_now r, at_last_used_at = None\<rparr>]\<rparr>))"

definition rotateAPIToken :: "externals \<Rightarrow> api_env \<Rightarrow> handler" where
  "rotateAPIToken X A r s =
     (case ae_uuid_Parse A (PathValue r ''id'') of
        None \<Rightarrow> (s_error 400 ''invalid token id'', s)
      | Some i \<Rightarrow>
          (case newAPIToken X (rq_rand r) of
             None \<Rightarrow> (s_error 500 [], s)
           | Some (raw, hash, prefix) \<Rightarrow>
               let mine = (\<lambda>t. at_id t = i \<and> at_workspace_id t = workspace r) in
               if \<not> list_ex mine (api_tokens s) then (s_error 404 ''token not found'', s)
               else if (\<exists>t \<in> set (api_tokens s). at_id t \<noteq> i \<and> at_token_hash t = hash) then (s_error 500 [], s)
               else
                 (s_json 200 (JObj [(''id'', JStr (uuid_String X i)), (''token'', JStr raw)]),
                  s\<lparr>api_tokens := map (\<lambda>t. if mine t
                      then t\<lparr>at_token_hash := hash, at_prefix := prefix, at_last_used_at := None\<rparr> else t)
                      (api_tokens s)\<rparr>)))"

definition deleteAPIToken :: "api_env \<Rightarrow> handler" where
  "deleteAPIToken A r s =
     (case ae_uuid_Parse A (PathValue r ''id'') of
        None \<Rightarrow> (s_error 400 ''invalid token id'', s)
      | Some i \<Rightarrow>
          let mine = (\<lambda>t. at_id t = i \<and> at_workspace_id t = workspace r) in
          if \<not> list_ex mine (api_tokens s) then (s_error 404 ''token not found'', s)
          else (WriteHeader 204, s\<lparr>api_tokens := filter (\<lambda>t. \<not> mine t) (api_tokens s)\<rparr>))"

section \<open>Routes\<close>

definition accountRoutes :: "externals \<Rightarrow> api_env \<Rightarrow> bool \<Rightarrow> (string \<times> handler) list" where
  "accountRoutes X A devKey =
     [(''POST /v1/setup'', setup_account X A), (''POST /v1/login'', login X A), (''POST /v1/logout'', logout X),
      (''POST /v1/password'', requireSession (changePassword X A)), (''GET /v1/me'', me X devKey)]"

definition userRoutes :: "externals \<Rightarrow> api_env \<Rightarrow> (string \<times> handler) list" where
  "userRoutes X A =
     [(''GET /v1/users'', requireAdmin (listUsers X A)),
      (''POST /v1/users'', requireAdmin (createUser X A)),
      (''PATCH /v1/users/{id}'', requireAdmin (updateUser X A)),
      (''DELETE /v1/users/{id}'', requireAdmin (deleteUser A)),
      (''POST /v1/users/{id}/reset-password'', requireAdmin (resetUserPassword X A))]"

definition tokenRoutes :: "externals \<Rightarrow> api_env \<Rightarrow> (string \<times> handler) list" where
  "tokenRoutes X A =
     [(''GET /v1/api-tokens'', requireAdmin (listAPITokens X A)),
      (''POST /v1/api-tokens'', requireAdmin (createAPIToken X)),
      (''POST /v1/api-tokens/{id}/rotate'', requireAdmin (rotateAPIToken X A)),
      (''DELETE /v1/api-tokens/{id}'', requireAdmin (deleteAPIToken A))]"

end
