(* ===== verification/Store_Facts.thy ===== *)
theory Store_Facts
  imports Store
begin

text \<open>
  Facts about the store that every operation of the engine uses: what the latest attempt of a step
  is and how statements change it, the well-formedness invariant \<open>wf_store\<close>, and the contract
  \<open>task_lifecycle\<close> that every transaction of the engine meets: it keeps the invariant, never touches
  a finished task, never removes or renames a task, and never changes which definition a run
  executes. The contract is a locale; its consequences for whole histories are proved once and
  every operation interprets it.
\<close>

section \<open>Field access\<close>

text \<open>The jobs in the queue, by their arguments.\<close>

definition job_set :: "db \<Rightarrow> job_args set" where
  "job_set db = j_args ` set (jobs db)"

lemma update_runs_fields [store_simps]:
  "workflows (update_runs P f db) = workflows db" "versions (update_runs P f db) = versions db"
  "runs (update_runs P f db) = map (\<lambda>r. if P r then f r else r) (runs db)"
  "tasks (update_runs P f db) = tasks db" "suspensions (update_runs P f db) = suspensions db"
  "jobs (update_runs P f db) = jobs db" "job_set (update_runs P f db) = job_set db"
  by (simp_all add: update_runs_def job_set_def)

lemma update_tasks_fields [store_simps]:
  "workflows (update_tasks P g db) = workflows db" "versions (update_tasks P g db) = versions db"
  "runs (update_tasks P g db) = runs db"
  "tasks (update_tasks P g db) = map (\<lambda>t. if P t then g t else t) (tasks db)"
  "suspensions (update_tasks P g db) = suspensions db" "jobs (update_tasks P g db) = jobs db"
  "job_set (update_tasks P g db) = job_set db"
  by (simp_all add: update_tasks_def job_set_def)

lemma mem_update_tasks:
  "t \<in> set (tasks db) \<Longrightarrow> (if P t then g t else t) \<in> set (tasks (update_tasks P g db))"
  unfolding update_tasks_fields set_map by blast

lemma job_set_tasks [store_simps]:
  "job_set (db\<lparr>tasks := ts\<rparr>) = job_set db" "job_set (db\<lparr>suspensions := ss\<rparr>) = job_set db"
  "job_set (db\<lparr>runs := rs\<rparr>) = job_set db"
  by (simp_all add: job_set_def)

lemma InsertTx_fields [store_simps]:
  "workflows (InsertTx a at db) = workflows db" "versions (InsertTx a at db) = versions db"
  "runs (InsertTx a at db) = runs db" "tasks (InsertTx a at db) = tasks db"
  "suspensions (InsertTx a at db) = suspensions db"
  "job_set (InsertTx a at db) = insert a (job_set db)"
  by (auto simp: InsertTx_def job_set_def)

lemma insert_task_Inr:
  "insert_task t db = Inr db' \<longleftrightarrow>
     t_id t \<notin> t_id ` set (tasks db) \<and> task_slot t \<notin> task_slot ` set (tasks db) \<and>
     db' = db\<lparr>tasks := tasks db @ [t]\<rparr>"
  by (auto simp: insert_task_def)

lemma insert_task_or_nothing_Some:
  "insert_task_or_nothing t db = Inr (Some db') \<longleftrightarrow> insert_task t db = Inr db'"
  by (auto simp: insert_task_or_nothing_def insert_task_def)

section \<open>The latest attempt\<close>

lemma latest_None_iff: "latest ts = None \<longleftrightarrow> ts = []"
  by (cases ts) (auto split: option.splits)

lemma latest_SomeD:
  "latest ts = Some b \<Longrightarrow> b \<in> set ts \<and> (\<forall>t \<in> set ts. t_attempt t \<le> t_attempt b)"
proof (induction ts arbitrary: b)
  case (Cons t ts)
  show ?case
  proof (cases "latest ts")
    case None
    with Cons.prems show ?thesis by (auto simp: latest_None_iff)
  next
    case (Some c)
    with Cons.prems Cons.IH [OF Some] show ?thesis by (force split: if_splits)
  qed
qed simp

lemma latest_SomeI:
  assumes "b \<in> set ts" and "\<And>t. t \<in> set ts \<Longrightarrow> t_attempt t \<le> t_attempt b"
    and "\<And>t. t \<in> set ts \<Longrightarrow> t_attempt t = t_attempt b \<Longrightarrow> t = b"
  shows "latest ts = Some b"
proof (cases "latest ts")
  case None
  with assms(1) show ?thesis by (auto simp: latest_None_iff)
next
  case (Some c)
  with latest_SomeD [OF Some] assms show ?thesis by (metis order_antisym)
qed

definition step_task :: "db \<Rightarrow> uuid \<Rightarrow> string \<Rightarrow> task_row option" where
  "step_task db rid k = latest (step_tasks k (run_tasks db rid))"

definition step_status :: "db \<Rightarrow> uuid \<Rightarrow> string \<Rightarrow> task_status option" where
  "step_status db rid k = map_option t_status (step_task db rid k)"

lemma mem_step_tasks [simp]:
  "t \<in> set (step_tasks k (run_tasks db rid)) \<longleftrightarrow> t \<in> set (tasks db) \<and> t_run_id t = rid \<and> t_step_key t = k"
  by (auto simp: step_tasks_def run_tasks_def)

lemma step_task_None_iff:
  "step_task db rid k = None \<longleftrightarrow> (\<forall>t \<in> set (tasks db). \<not> (t_run_id t = rid \<and> t_step_key t = k))"
  by (auto simp: step_task_def latest_None_iff step_tasks_def run_tasks_def filter_empty_conv)

lemma step_task_SomeD:
  assumes "step_task db rid k = Some t"
  shows "t \<in> set (tasks db)" "t_run_id t = rid" "t_step_key t = k"
    and "\<And>t'. t' \<in> set (tasks db) \<Longrightarrow> t_run_id t' = rid \<Longrightarrow> t_step_key t' = k \<Longrightarrow> t_attempt t' \<le> t_attempt t"
  using latest_SomeD [OF assms [unfolded step_task_def]] by auto

lemma step_status_None_iff: "step_status db rid k = None \<longleftrightarrow> step_task db rid k = None"
  by (simp add: step_status_def)

text \<open>The query \<^verbatim>\<open>distinct on (step_key)\<close> as a map: looking a key up in its rows gives the latest attempt.\<close>

lemma map_of_map_filter_latest:
  assumes "distinct ks" "\<And>k t. f k = Some t \<Longrightarrow> t_step_key t = k"
  shows "map_of (map (\<lambda>t. (t_step_key t, g t)) (List.map_filter f ks)) k =
    (if k \<in> set ks then map_option g (f k) else None)"
  using assms(1)
proof (induction ks)
  case (Cons x ks)
  show ?case
  proof (cases "f x")
    case None
    with Cons show ?thesis by (auto simp: List.map_filter_simps)
  next
    case (Some t)
    then have "t_step_key t = x" by (rule assms(2))
    with Cons Some show ?thesis by (auto simp: List.map_filter_simps)
  qed
qed (simp add: List.map_filter_simps)

lemma map_of_distinct_on_step:
  "map_of (map (\<lambda>t. (t_step_key t, g t)) (distinct_on_step (run_tasks db rid))) k =
     map_option g (step_task db rid k)"
proof -
  have key: "t_step_key t = k'" if "latest (step_tasks k' (run_tasks db rid)) = Some t" for k' t
    using step_task_SomeD(3) that by (simp add: step_task_def)
  have "step_task db rid k = None" if "k \<notin> t_step_key ` set (run_tasks db rid)"
    using that by (auto simp: step_task_None_iff run_tasks_def)
  then show ?thesis
    unfolding distinct_on_step_def
    by (subst map_of_map_filter_latest) (auto simp: key step_task_def)
qed

lemma set_distinct_on_step:
  "t \<in> set (distinct_on_step (run_tasks db rid)) \<longleftrightarrow> step_task db rid (t_step_key t) = Some t"
proof -
  have "t \<in> set (List.map_filter (step_task db rid) ks) \<longleftrightarrow>
      t_step_key t \<in> set ks \<and> step_task db rid (t_step_key t) = Some t" for ks
  proof (induction ks)
    case (Cons k ks)
    then show ?case
      using step_task_SomeD(3) [of db rid k]
      by (cases "step_task db rid k") (auto simp: List.map_filter_simps)
  qed (simp add: List.map_filter_simps)
  moreover have "t_step_key t \<in> t_step_key ` set (run_tasks db rid)" if "step_task db rid (t_step_key t) = Some t"
    using step_task_SomeD(1,2) [OF that] by (auto simp: run_tasks_def)
  ultimately show ?thesis
    by (auto simp: distinct_on_step_def step_task_def [symmetric])
qed

section \<open>Well-formedness\<close>

definition task_row_ids :: "db \<Rightarrow> bool" where
  "task_row_ids db \<longleftrightarrow> distinct (map t_id (tasks db)) \<and> distinct (map task_slot (tasks db))"

definition active_is_latest :: "db \<Rightarrow> bool" where
  "active_is_latest db \<longleftrightarrow>
     (\<forall>t \<in> set (tasks db). \<forall>t' \<in> set (tasks db).
        task_active (t_status t) \<and> t_run_id t' = t_run_id t \<and> t_step_key t' = t_step_key t
          \<longrightarrow> t_attempt t' \<le> t_attempt t)"

definition same_key :: "run_row \<Rightarrow> run_row \<Rightarrow> bool" where
  "same_key r r' \<longleftrightarrow>
     r_workspace_id r = r_workspace_id r' \<and> r_idempotency_key r = r_idempotency_key r' \<and>
     r_idempotency_key r \<noteq> None"

definition run_row_ids :: "db \<Rightarrow> bool" where
  "run_row_ids db \<longleftrightarrow>
     distinct (map r_id (runs db)) \<and>
     (\<forall>r \<in> set (runs db). \<forall>r' \<in> set (runs db). same_key r r' \<longrightarrow> r_id r = r_id r')"

definition tasks_have_runs :: "db \<Rightarrow> bool" where
  "tasks_have_runs db \<longleftrightarrow> (\<forall>t \<in> set (tasks db). t_run_id t \<in> r_id ` set (runs db) \<and> 1 \<le> t_attempt t \<and>
       (t_status t = TSkipped \<longrightarrow> t_attempt t = 1))"

definition wf_store :: "db \<Rightarrow> bool" where
  "wf_store db \<longleftrightarrow> task_row_ids db \<and> active_is_latest db \<and> run_row_ids db \<and> tasks_have_runs db"

lemmas wf_defs = wf_store_def task_row_ids_def active_is_latest_def run_row_ids_def tasks_have_runs_def

lemma wf_empty_db [wf_intros]: "wf_store empty_db"
  by (simp add: wf_defs empty_db_def)

lemma wf_same_tables:
  "wf_store db \<Longrightarrow> tasks db' = tasks db \<Longrightarrow> runs db' = runs db \<Longrightarrow> wf_store db'"
  by (simp add: wf_defs)

lemma wf_InsertTx [wf_intros]: "wf_store db \<Longrightarrow> wf_store (InsertTx a at db)"
  by (erule wf_same_tables) (simp_all add: store_simps)

text \<open>The columns of a run that no statement of the engine ever updates.\<close>

definition same_run :: "run_row \<Rightarrow> run_row \<Rightarrow> bool" where
  "same_run r' r \<longleftrightarrow>
     r_id r' = r_id r \<and> r_workspace_id r' = r_workspace_id r \<and> r_workflow_id r' = r_workflow_id r \<and>
     r_version_id r' = r_version_id r \<and> r_trigger_id r' = r_trigger_id r \<and> r_input r' = r_input r \<and>
     r_idempotency_key r' = r_idempotency_key r"

definition keeps_run_key :: "(run_row \<Rightarrow> run_row) \<Rightarrow> bool" where
  "keeps_run_key f \<longleftrightarrow> (\<forall>r. same_run (f r) r)"

lemma same_run_refl [simp]: "same_run r r"
  by (simp add: same_run_def)

lemma same_run_trans: "same_run a b \<Longrightarrow> same_run b c \<Longrightarrow> same_run a c"
  by (simp add: same_run_def)

lemma same_run_mem [simp, intro]: "r \<in> A \<Longrightarrow> \<exists>r' \<in> A. same_run r' r"
  by (rule bexI [of _ r]) simp_all

lemma wf_update_runs [wf_intros]:
  assumes "wf_store db" and "keeps_run_key f"
  shows "wf_store (update_runs P f db)"
proof -
  have ids: "map r_id (runs (update_runs P f db)) = map r_id (runs db)"
    using assms(2) by (auto simp: store_simps keeps_run_key_def same_run_def)
  have key: "same_key (f r) r' = same_key r r'" "same_key r (f r') = same_key r r'" for r r'
    using assms(2) by (simp_all add: same_key_def keeps_run_key_def same_run_def)
  have "run_row_ids (update_runs P f db)"
    unfolding run_row_ids_def ids
    using assms by (auto simp: wf_store_def run_row_ids_def store_simps key keeps_run_key_def same_run_def)
  moreover have "r_id ` set (runs (update_runs P f db)) = r_id ` set (runs db)"
    by (metis ids list.set_map)
  ultimately show ?thesis
    using assms(1) by (simp add: wf_store_def task_row_ids_def active_is_latest_def tasks_have_runs_def store_simps)
qed

definition keeps_slot :: "(task_row \<Rightarrow> task_row) \<Rightarrow> bool" where
  "keeps_slot g \<longleftrightarrow>
     (\<forall>t. t_id (g t) = t_id t \<and> t_run_id (g t) = t_run_id t \<and> t_workspace_id (g t) = t_workspace_id t \<and>
        t_step_key (g t) = t_step_key t \<and> t_attempt (g t) = t_attempt t \<and>
        t_status (g t) \<noteq> TSkipped \<and> t_status (g t) \<noteq> TQueued)"

text \<open>An update of active tasks in place: every statement of the engine that updates tasks is one.\<close>

lemma wf_update_tasks [wf_intros]:
  assumes wf: "wf_store db" and g: "keeps_slot g" and act: "\<And>t. P t \<Longrightarrow> task_active (t_status t)"
  shows "wf_store (update_tasks P g db)"
proof -
  have ids: "map t_id (tasks (update_tasks P g db)) = map t_id (tasks db)"
    "map task_slot (tasks (update_tasks P g db)) = map task_slot (tasks db)"
    using g by (auto simp: store_simps keeps_slot_def task_slot_def)
  have "active_is_latest (update_tasks P g db)"
    unfolding active_is_latest_def store_simps
  proof (intro ballI impI, elim conjE)
    fix t t'
    assume "t \<in> set (map (\<lambda>t. if P t then g t else t) (tasks db))"
      and "t' \<in> set (map (\<lambda>t. if P t then g t else t) (tasks db))"
    then obtain u u' where u: "u \<in> set (tasks db)" "t = (if P u then g u else u)"
      and u': "u' \<in> set (tasks db)" "t' = (if P u' then g u' else u')" by auto
    assume "task_active (t_status t)" "t_run_id t' = t_run_id t" "t_step_key t' = t_step_key t"
    with u u' act [of u] g have "task_active (t_status u)" "t_run_id u' = t_run_id u" "t_step_key u' = t_step_key u"
      by (auto simp: keeps_slot_def split: if_splits)
    with u(1) u'(1) wf have "t_attempt u' \<le> t_attempt u" by (auto simp: wf_store_def active_is_latest_def)
    with u(2) u'(2) g show "t_attempt t' \<le> t_attempt t" by (auto simp: keeps_slot_def)
  qed
  moreover have "tasks_have_runs (update_tasks P g db)"
    using wf g by (auto simp: wf_store_def tasks_have_runs_def store_simps keeps_slot_def)
  moreover have "task_row_ids (update_tasks P g db)"
    using wf unfolding wf_store_def task_row_ids_def ids by simp
  ultimately show ?thesis
    using wf by (simp add: wf_store_def run_row_ids_def store_simps)
qed

text \<open>A new attempt of a step none of whose attempts is active or later.\<close>

definition next_attempt :: "db \<Rightarrow> task_row \<Rightarrow> bool" where
  "next_attempt db t \<longleftrightarrow>
     t_run_id t \<in> r_id ` set (runs db) \<and> 1 \<le> t_attempt t \<and> (t_status t = TSkipped \<longrightarrow> t_attempt t = 1) \<and>
     (\<forall>t' \<in> set (tasks db). t_run_id t' = t_run_id t \<and> t_step_key t' = t_step_key t \<longrightarrow>
        \<not> task_active (t_status t') \<and> t_attempt t' \<le> t_attempt t)"

lemma wf_insert_task [wf_intros]:
  assumes "wf_store db" and "insert_task t db = Inr db'" and "next_attempt db t"
  shows "wf_store db'"
  using assms by (auto simp: wf_defs insert_task_Inr next_attempt_def)

lemma find_key_map_if:
  assumes "\<And>x. P x \<Longrightarrow> h (f x) = h x"
  shows "find (\<lambda>x. h x = k) (map (\<lambda>x. if P x then f x else x) xs) =
    map_option (\<lambda>x. if P x then f x else x) (find (\<lambda>x. h x = k) xs)"
  using assms by (induction xs) auto

lemma find_task_iff:
  "wf_store db \<Longrightarrow> find_task db i = Some t \<longleftrightarrow> t \<in> set (tasks db) \<and> t_id t = i"
  unfolding find_task_def
  by (auto simp: wf_store_def task_row_ids_def dest: find_SomeD intro: find_key_unique)

lemma find_run_iff:
  "wf_store db \<Longrightarrow> find_run db i = Some r \<longleftrightarrow> r \<in> set (runs db) \<and> r_id r = i"
  unfolding find_run_def
  by (auto simp: wf_store_def run_row_ids_def dest: find_SomeD intro: find_key_unique)

lemma find_run_update_runs:
  "keeps_run_key f \<Longrightarrow> find_run (update_runs P f db) i = map_option (\<lambda>r. if P r then f r else r) (find_run db i)"
  unfolding find_run_def store_simps by (rule find_key_map_if) (simp add: keeps_run_key_def same_run_def)

lemma find_task_update_tasks:
  "keeps_slot g \<Longrightarrow> find_task (update_tasks P g db) i = map_option (\<lambda>t. if P t then g t else t) (find_task db i)"
  unfolding find_task_def store_simps by (rule find_key_map_if) (simp add: keeps_slot_def)

lemma active_step_task:
  assumes "wf_store db" "t \<in> set (tasks db)" "task_active (t_status t)"
  shows "step_task db (t_run_id t) (t_step_key t) = Some t"
  unfolding step_task_def
proof (rule latest_SomeI)
  show "t \<in> set (step_tasks (t_step_key t) (run_tasks db (t_run_id t)))" using assms by simp
next
  fix u assume u: "u \<in> set (step_tasks (t_step_key t) (run_tasks db (t_run_id t)))"
  with assms show "t_attempt u \<le> t_attempt t" by (auto simp: wf_store_def active_is_latest_def)
  assume "t_attempt u = t_attempt t"
  with u have "task_slot u = task_slot t" by (simp add: task_slot_def)
  with u assms show "u = t" by (auto simp: wf_store_def task_row_ids_def intro: distinct_map_inj_on_set)
qed

section \<open>The contract of every engine transaction\<close>

definition run_json :: "db \<Rightarrow> uuid \<Rightarrow> json option" where
  "run_json db rid =
     (case find_run db rid of None \<Rightarrow> None | Some r \<Rightarrow> map_option v_definition (find_version db (r_version_id r)))"

lemma run_json_cong: "runs db' = runs db \<Longrightarrow> versions db' = versions db \<Longrightarrow> run_json db' rid = run_json db rid"
  unfolding run_json_def find_run_def find_version_def by (simp split: option.splits)

text \<open>\<open>step_done\<close>: the latest attempt of the step succeeded or was skipped.\<close>

definition step_done :: "db \<Rightarrow> uuid \<Rightarrow> string \<Rightarrow> bool" where
  "step_done db rid k = (case step_status db rid k of None \<Rightarrow> False | Some s \<Rightarrow> task_done s)"

lemma step_done_iff: "step_done db rid k \<longleftrightarrow> (\<exists>s. step_status db rid k = Some s \<and> task_done s)"
  by (auto simp: step_done_def split: option.splits)

text \<open>
  How a task row may change: its identity and slot stay, a finished row does not change at all, and
  no row becomes queued again.
\<close>

definition row_evolves :: "task_row \<Rightarrow> task_row \<Rightarrow> bool" where
  "row_evolves t t' \<longleftrightarrow>
     t_id t' = t_id t \<and> task_slot t' = task_slot t \<and> t_workspace_id t' = t_workspace_id t \<and>
     (\<not> task_active (t_status t) \<longrightarrow> t' = t) \<and> (t_status t' = TQueued \<longrightarrow> t_status t = TQueued)"

lemma row_evolves_refl [simp]: "row_evolves t t"
  by (simp add: row_evolves_def)

lemma row_evolves_mem [simp, intro]: "t \<in> A \<Longrightarrow> \<exists>t' \<in> A. row_evolves t t'"
  by (rule bexI [of _ t]) simp_all

lemma row_evolves_trans: "row_evolves a b \<Longrightarrow> row_evolves b c \<Longrightarrow> row_evolves a c"
  unfolding row_evolves_def by metis

definition lifecycle :: "db \<Rightarrow> db \<Rightarrow> bool" where
  "lifecycle db db' \<longleftrightarrow>
     (wf_store db \<longrightarrow> wf_store db') \<and>
     (\<forall>t \<in> set (tasks db). \<exists>t' \<in> set (tasks db'). row_evolves t t') \<and>
     (\<forall>r \<in> set (runs db). \<exists>r' \<in> set (runs db'). same_run r' r) \<and>
     (\<forall>rid j. run_json db rid = Some j \<longrightarrow> run_json db' rid = Some j) \<and>
     (wf_store db \<longrightarrow> (\<forall>rid k. step_done db rid k \<longrightarrow> step_task db' rid k = step_task db rid k))"

lemma lifecycleD:
  assumes "lifecycle db db'"
  shows "wf_store db \<Longrightarrow> wf_store db'"
    and "t \<in> set (tasks db) \<Longrightarrow> \<exists>t' \<in> set (tasks db'). row_evolves t t'"
    and "r \<in> set (runs db) \<Longrightarrow> \<exists>r' \<in> set (runs db'). same_run r' r"
    and "run_json db rid = Some j \<Longrightarrow> run_json db' rid = Some j"
    and "wf_store db \<Longrightarrow> step_done db rid k \<Longrightarrow> step_task db' rid k = step_task db rid k"
  using assms by (simp_all add: lifecycle_def)

locale task_lifecycle =
  fixes txn :: "db \<Rightarrow> db \<Rightarrow> bool"
  assumes contract: "txn db db' \<Longrightarrow> lifecycle db db'"
begin

lemma history_wf: "txn\<^sup>*\<^sup>* db db' \<Longrightarrow> wf_store db \<Longrightarrow> wf_store db'"
  by (induction rule: rtranclp_induct) (auto dest: contract simp: lifecycle_def)

lemma history_slots:
  assumes "txn\<^sup>*\<^sup>* db db'" "t \<in> set (tasks db)"
  shows "\<exists>t' \<in> set (tasks db'). row_evolves t t'"
  using assms
proof (induction rule: rtranclp_induct)
  case (step b c)
  then show ?case using lifecycleD(2) [OF contract [OF step.hyps(2)]] by (blast intro: row_evolves_trans)
qed auto

lemma history_finished: "txn\<^sup>*\<^sup>* db db' \<Longrightarrow> t \<in> set (tasks db) \<Longrightarrow> \<not> task_active (t_status t) \<Longrightarrow> t \<in> set (tasks db')"
  using history_slots unfolding row_evolves_def by blast

lemma history_runs:
  assumes "txn\<^sup>*\<^sup>* db db'" "r \<in> set (runs db)"
  shows "\<exists>r' \<in> set (runs db'). same_run r' r"
  using assms
proof (induction rule: rtranclp_induct)
  case (step b c)
  then show ?case using lifecycleD(3) [OF contract [OF step.hyps(2)]] by (blast intro: same_run_trans)
qed auto

lemma history_definition: "txn\<^sup>*\<^sup>* db db' \<Longrightarrow> run_json db rid = Some j \<Longrightarrow> run_json db' rid = Some j"
  by (induction rule: rtranclp_induct) (auto dest: contract simp: lifecycle_def)

lemma history_done:
  assumes "txn\<^sup>*\<^sup>* db db'" "wf_store db" "step_done db rid k"
  shows "step_task db' rid k = step_task db rid k"
  using assms
proof (induction rule: rtranclp_induct)
  case (step b c)
  have "wf_store b" using history_wf [OF step.hyps(1)] step.prems by blast
  moreover have "step_done b rid k"
    using step by (simp add: step_done_def step_status_def)
  ultimately have "step_task c rid k = step_task b rid k"
    using contract [OF step.hyps(2)] by (simp add: lifecycle_def)
  with step show ?case by simp
qed simp

end

section \<open>Building blocks of the contract\<close>

lemma lifecycle_refl [simp]: "lifecycle db db"
  by (auto simp: lifecycle_def)

lemma lifecycle_trans:
  assumes "lifecycle a b" "lifecycle b c"
  shows "lifecycle a c"
  unfolding lifecycle_def
proof (intro conjI)
  show "wf_store a \<longrightarrow> wf_store c" using assms by (simp add: lifecycle_def)
  show "\<forall>t \<in> set (tasks a). \<exists>t' \<in> set (tasks c). row_evolves t t'"
    using lifecycleD(2) [OF assms(1)] lifecycleD(2) [OF assms(2)] by (blast intro: row_evolves_trans)
  show "\<forall>r \<in> set (runs a). \<exists>r' \<in> set (runs c). same_run r' r"
    using lifecycleD(3) [OF assms(1)] lifecycleD(3) [OF assms(2)] by (blast intro: same_run_trans)
  show "\<forall>rid j. run_json a rid = Some j \<longrightarrow> run_json c rid = Some j"
    using assms by (simp add: lifecycle_def)
  show "wf_store a \<longrightarrow> (\<forall>rid k. step_done a rid k \<longrightarrow> step_task c rid k = step_task a rid k)"
    using assms by (auto simp: lifecycle_def step_done_def step_status_def)
qed

lemma lifecycle_same_tables:
  assumes "tasks db' = tasks db" "runs db' = runs db" "versions db' = versions db"
  shows "lifecycle db db'"
proof -
  have "run_json db' = run_json db" "step_task db' = step_task db"
    using assms run_json_cong [of db' db] by (simp_all add: step_task_def run_tasks_def fun_eq_iff)
  with assms show ?thesis by (auto simp: lifecycle_def wf_same_tables)
qed

lemma lifecycle_InsertTx: "lifecycle db (InsertTx a at db)"
  by (rule lifecycle_same_tables) (simp_all add: store_simps)

lemma lifecycle_update_runs:
  assumes f: "keeps_run_key f"
  shows "lifecycle db (update_runs P f db)"
proof -
  have "run_json (update_runs P f db) rid = run_json db rid" for rid
    using f by (auto simp: run_json_def find_run_update_runs find_version_def store_simps keeps_run_key_def same_run_def
        split: option.splits)
  moreover have "\<exists>r' \<in> set (runs (update_runs P f db)). same_run r' r" if "r \<in> set (runs db)" for r
    using f that by (intro bexI [of _ "if P r then f r else r"]) (auto simp: store_simps keeps_run_key_def)
  ultimately show ?thesis
    using f by (auto simp: lifecycle_def wf_update_runs step_task_def run_tasks_def store_simps)
qed

lemma step_task_update_tasks:
  assumes "keeps_slot g"
  shows "step_task (update_tasks P g db) rid k = map_option (\<lambda>t. if P t then g t else t) (step_task db rid k)"
proof -
  let ?h = "\<lambda>t. if P t then g t else t"
  have h: "t_run_id (?h t) = t_run_id t" "t_step_key (?h t) = t_step_key t" "t_attempt (?h t) = t_attempt t" for t
    using assms by (simp_all add: keeps_slot_def)
  have map: "latest (map ?h ts) = map_option ?h (latest ts)" for ts
    using assms by (induction ts) (auto simp: keeps_slot_def split: option.splits)
  have "step_tasks k (run_tasks (update_tasks P g db) rid) = map ?h (step_tasks k (run_tasks db rid))"
    unfolding step_tasks_def run_tasks_def store_simps
    by (simp only: filter_map_swap h filter_filter)
  then show ?thesis by (simp add: step_task_def map)
qed

lemma task_done_not_active: "task_done s \<Longrightarrow> \<not> task_active s"
  by (auto simp: task_done_def task_active_def)

lemma lifecycle_update_tasks:
  assumes g: "keeps_slot g" and act: "\<And>t. P t \<Longrightarrow> task_active (t_status t)"
  shows "lifecycle db (update_tasks P g db)"
  unfolding lifecycle_def
proof (intro conjI)
  show "wf_store db \<longrightarrow> wf_store (update_tasks P g db)"
    using wf_update_tasks [OF _ g act] by blast
  show "\<forall>t \<in> set (tasks db). \<exists>t' \<in> set (tasks (update_tasks P g db)). row_evolves t t'"
  proof (rule ballI)
    fix t assume "t \<in> set (tasks db)"
    then show "\<exists>t' \<in> set (tasks (update_tasks P g db)). row_evolves t t'"
      using g act [of t]
      by (intro bexI [of _ "if P t then g t else t"]) (auto simp: store_simps keeps_slot_def task_slot_def row_evolves_def)
  qed
  show "\<forall>r \<in> set (runs db). \<exists>r' \<in> set (runs (update_tasks P g db)). same_run r' r"
    by (auto simp: store_simps)
  show "\<forall>rid j. run_json db rid = Some j \<longrightarrow> run_json (update_tasks P g db) rid = Some j"
    using run_json_cong [of "update_tasks P g db" db] by (simp add: store_simps)
  have "\<not> P t" if "step_task db rid k = Some t" "step_done db rid k" for rid k t
    using that act [of t] task_done_not_active by (auto simp: step_done_def step_status_def)
  then show "wf_store db \<longrightarrow> (\<forall>rid k. step_done db rid k \<longrightarrow>
      step_task (update_tasks P g db) rid k = step_task db rid k)"
    using g by (auto simp: step_task_update_tasks step_done_def step_status_def split: option.splits)
qed

lemma step_task_insert_other:
  assumes "insert_task t db = Inr db'" "t_run_id t \<noteq> rid \<or> t_step_key t \<noteq> k"
  shows "step_task db' rid k = step_task db rid k"
  using assms by (auto simp: insert_task_Inr step_task_def step_tasks_def run_tasks_def)

lemma lifecycle_insert_task:
  assumes ins: "insert_task t db = Inr db'"
    and nxt: "wf_store db \<Longrightarrow> next_attempt db t"
    and undone: "wf_store db \<Longrightarrow> \<not> step_done db (t_run_id t) (t_step_key t)"
  shows "lifecycle db db'"
  unfolding lifecycle_def
proof (intro conjI)
  show "wf_store db \<longrightarrow> wf_store db'"
    using wf_insert_task [OF _ ins nxt] by blast
  show "\<forall>t \<in> set (tasks db). \<exists>t' \<in> set (tasks db'). row_evolves t t'"
    using ins by (auto simp: insert_task_Inr)
  show "\<forall>r \<in> set (runs db). \<exists>r' \<in> set (runs db'). same_run r' r"
    using ins by (auto simp: insert_task_Inr)
  show "\<forall>rid j. run_json db rid = Some j \<longrightarrow> run_json db' rid = Some j"
    using ins run_json_cong [of db' db] by (auto simp: insert_task_Inr)
  show "wf_store db \<longrightarrow> (\<forall>rid k. step_done db rid k \<longrightarrow> step_task db' rid k = step_task db rid k)"
    using undone step_task_insert_other [OF ins] by metis
qed

lemma step_task_insert_latest:
  assumes "insert_task t db = Inr db'" "next_attempt db t"
  shows "step_task db' (t_run_id t) (t_step_key t) = Some t"
  unfolding step_task_def
proof (rule latest_SomeI)
  show "t \<in> set (step_tasks (t_step_key t) (run_tasks db' (t_run_id t)))"
    using assms by (simp add: insert_task_Inr)
next
  fix u assume "u \<in> set (step_tasks (t_step_key t) (run_tasks db' (t_run_id t)))"
  then have u: "u = t \<or> u \<in> set (tasks db)" "t_run_id u = t_run_id t" "t_step_key u = t_step_key t"
    using assms(1) by (auto simp: insert_task_Inr)
  with assms(2) show "t_attempt u \<le> t_attempt t" by (auto simp: next_attempt_def)
  assume "t_attempt u = t_attempt t"
  with u assms(1) show "u = t" by (auto simp: insert_task_Inr task_slot_def image_iff)
qed

lemma lifecycle_insert_run:
  assumes ins: "insert_run r db = Inr db'"
  shows "lifecycle db db'"
proof -
  have db': "db' = db\<lparr>runs := runs db @ [r]\<rparr>" and new: "r_id r \<notin> r_id ` set (runs db)" "\<not> key_taken r db"
    using ins by (auto simp: insert_run_def split: if_splits)
  have key: "\<not> same_key q r \<and> \<not> same_key r q" if "q \<in> set (runs db)" for q
    using new(2) that by (auto simp: same_key_def key_taken_def)
  have "wf_store db'" if wf: "wf_store db"
  proof -
    have "run_row_ids db'"
      using wf new(1) key unfolding wf_store_def run_row_ids_def db' by simp
    moreover have "tasks_have_runs db'"
      using wf by (simp add: wf_store_def tasks_have_runs_def db')
    ultimately show ?thesis
      using wf by (simp add: wf_store_def task_row_ids_def active_is_latest_def db')
  qed
  moreover have "run_json db' rid = Some j" if "run_json db rid = Some j" for rid j
    using that by (auto simp: run_json_def find_run_def find_version_def db' find_append_Some split: option.splits)
  moreover have "step_task db' rid k = step_task db rid k" for rid k
    by (simp add: step_task_def run_tasks_def db')
  ultimately show ?thesis by (auto simp: lifecycle_def db')
qed

section \<open>Liveness of a run\<close>

text \<open>
  \<open>run_live\<close>: the run is finished, or an advance of it is queued, or one of its tasks is still
  active. A run for which this fails would hang.
\<close>

definition has_active_task :: "db \<Rightarrow> uuid \<Rightarrow> bool" where
  "has_active_task db rid \<longleftrightarrow> (\<exists>t \<in> set (tasks db). t_run_id t = rid \<and> task_active (t_status t))"

definition run_live :: "db \<Rightarrow> uuid \<Rightarrow> bool" where
  "run_live db rid \<longleftrightarrow>
     (\<forall>r. find_run db rid = Some r \<longrightarrow> run_terminal (r_status r)) \<or>
     AdvanceRunArgs rid \<in> job_set db \<or> has_active_task db rid"

end
