(* ===== verification/Go_Json.thy ===== *)
theory Go_Json
  imports Go_Strings
begin

text \<open>
  \<^verbatim>\<open>json.Marshal\<close> of \<^verbatim>\<open>encoding/json\<close> on the dynamic values the engine persists: object
  members in the order of their keys, strings with the default HTML-safe escaping, invalid UTF-8
  replaced. Numbers are their literal text, except that a JavaScript \<^verbatim>\<open>NaN\<close> or infinity is not
  representable and makes the whole call fail.
\<close>

section \<open>Strings\<close>

definition byte :: "char \<Rightarrow> nat" where
  "byte c = of_char c"

definition between :: "nat \<Rightarrow> char \<Rightarrow> nat \<Rightarrow> bool" where
  "between lo c hi \<longleftrightarrow> lo \<le> byte c \<and> byte c \<le> hi"

definition cont :: "char \<Rightarrow> bool" where
  "cont c \<longleftrightarrow> between 0x80 c 0xBF"

text \<open>The length of the UTF-8 sequence a text starts with; 0 when it starts with none.\<close>

fun rune_len :: "string \<Rightarrow> nat" where
  "rune_len [] = 0"
| "rune_len (a # s) =
     (if byte a < 0x80 then 1
      else case s of
        [] \<Rightarrow> 0
      | b # s' \<Rightarrow>
          if between 0xC2 a 0xDF then (if cont b then 2 else 0)
          else case s' of
            [] \<Rightarrow> 0
          | c # s'' \<Rightarrow>
              if between 0xE0 a 0xEF then
                (if cont b \<and> cont c \<and> (byte a = 0xE0 \<longrightarrow> 0xA0 \<le> byte b) \<and>
                    (byte a = 0xED \<longrightarrow> byte b \<le> 0x9F) then 3 else 0)
              else case s'' of
                [] \<Rightarrow> 0
              | d # _ \<Rightarrow>
                  if between 0xF0 a 0xF4 \<and> cont b \<and> cont c \<and> cont d \<and>
                     (byte a = 0xF0 \<longrightarrow> 0x90 \<le> byte b) \<and> (byte a = 0xF4 \<longrightarrow> byte b \<le> 0x8F)
                  then 4 else 0)"

definition hex_digit :: "nat \<Rightarrow> char" where
  "hex_digit n = (if n < 10 then char_of (48 + n) else char_of (87 + n))"

definition backslash :: char where
  "backslash = CHR 0x5C"

definition dquote :: char where
  "dquote = CHR 0x22"

definition escape_ascii :: "char \<Rightarrow> string" where
  "escape_ascii c =
     (if c = dquote then [backslash, dquote]
      else if c = backslash then [backslash, backslash]
      else if c = CHR 0x08 then [backslash, CHR ''b'']
      else if c = CHR 0x0C then [backslash, CHR ''f'']
      else if c = CHR 0x0A then [backslash, CHR ''n'']
      else if c = CHR 0x0D then [backslash, CHR ''r'']
      else if c = CHR 0x09 then [backslash, CHR ''t'']
      else if byte c < 0x20 \<or> c = CHR ''<'' \<or> c = CHR ''>'' \<or> c = CHR ''&'' then
        [backslash, CHR ''u'', CHR ''0'', CHR ''0'', hex_digit (byte c div 16), hex_digit (byte c mod 16)]
      else [c])"

function (sequential) escape :: "string \<Rightarrow> string" where
  "escape [] = []"
| "escape (c # s) =
     (if byte c < 0x80 then escape_ascii c @ escape s
      else let n = rune_len (c # s); r = take n (c # s) in
        if n < 2 then backslash # ''ufffd'' @ escape s
        else if r = [CHR 0xE2, CHR 0x80, CHR 0xA8] then backslash # ''u2028'' @ escape (drop n (c # s))
        else if r = [CHR 0xE2, CHR 0x80, CHR 0xA9] then backslash # ''u2029'' @ escape (drop n (c # s))
        else r @ escape (drop n (c # s)))"
  by pat_completeness auto
termination
  by (relation "measure length") auto

definition quote :: "string \<Rightarrow> string" where
  "quote s = dquote # escape s @ [dquote]"

section \<open>Values\<close>

fun joined :: "string \<Rightarrow> string list \<Rightarrow> string" where
  "joined sep [] = []"
| "joined sep [x] = x"
| "joined sep (x # y # xs) = x @ sep @ joined sep (y # xs)"

definition unsupported_number :: "string \<Rightarrow> bool" where
  "unsupported_number lit \<longleftrightarrow> lit \<in> {''NaN'', ''+Inf'', ''-Inf''}"

function (sequential) Marshal :: "json \<Rightarrow> string result" where
  "Marshal JNull = Inr ''null''"
| "Marshal (JBool b) = Inr (if b then ''true'' else ''false'')"
| "Marshal (JNum lit) =
     (if unsupported_number lit then Inl (Errorf (''json: unsupported value: '' @ lit)) else Inr lit)"
| "Marshal (JStr s) = Inr (quote s)"
| "Marshal (JArr xs) = rbind (rmap Marshal xs) (\<lambda>ys. Inr (''['' @ joined '','' ys @ '']''))"
| "Marshal (JObj m) =
     rbind (rmap (\<lambda>(k, v). rbind (Marshal v) (\<lambda>y. Inr (k, quote k @ '':'' @ y))) m)
       (\<lambda>ys. Inr (CHR 0x7B # joined '','' (map snd (sort_key fst ys)) @ [CHR 0x7D]))"
  by pat_completeness auto
termination
  by (relation "measure size") (auto simp: less_Suc_eq_le intro: size_list_estimation')

text \<open>
  \<^verbatim>\<open>marshalJSON\<close> (advance.go) never fails its caller: a marshalling error becomes a document
  that reports it.
\<close>

fun error_text :: "go_error \<Rightarrow> string" where
  "error_text ErrNoRows = ''no rows in result set''"
| "error_text UniqueViolation = ''duplicate key value violates unique constraint''"
| "error_text ForeignKeyViolation = ''violates foreign key constraint''"
| "error_text InvalidTextRepresentation = ''invalid input syntax for type json''"
| "error_text ErrSuspensionNotFound = ''suspension not found''"
| "error_text ErrNotWaiting = ''not waiting''"
| "error_text (Errorf m) = m"
| "error_text (Wrapf m e) = m @ '': '' @ error_text e"

definition marshalJSON :: "json \<Rightarrow> string" where
  "marshalJSON v =
     (case Marshal v of
        Inr b \<Rightarrow> b
      | Inl e \<Rightarrow>
          (case Marshal (JObj [(''marshal_error'', JStr (error_text e))]) of
             Inr b \<Rightarrow> b
           | Inl _ \<Rightarrow> []))"

definition message_json :: "string \<Rightarrow> string" where
  "message_json m = marshalJSON (JObj [(''message'', JStr m)])"

text \<open>The only error of \<^verbatim>\<open>json.Marshal\<close> on decoded values is a number that JSON cannot write.\<close>

lemma Marshal_Inl: "Marshal v = Inl e \<Longrightarrow> \<exists>lit. e = Errorf (''json: unsupported value: '' @ lit)"
proof (induction v rule: Marshal.induct)
  case (5 xs)
  then show ?case by (auto simp: rbind_Inl_iff dest!: rmap_Inl)
next
  case (6 m)
  from "6.prems" obtain k v where "(k, v) \<in> set m" "Marshal v = Inl e"
    by (auto simp: rbind_Inl_iff dest!: rmap_Inl)
  with "6.IH" show ?case by auto
qed (auto split: if_splits)

end
