(* ===== verification/Sample.thy ===== *)
theory Sample
  imports Store Go_Strings
begin

text \<open>
  A concrete store and concrete externals on which the properties of the engine are evaluated: one
  workspace, one workflow whose step \<open>b\<close> needs \<open>a\<close> and has a guard, and one queued run of it.
\<close>

fun ok_or :: "'a \<Rightarrow> 'a result \<Rightarrow> 'a" where
  "ok_or x (Inr y) = y"
| "ok_or x (Inl e) = x"

definition demo_step :: "string \<Rightarrow> string list \<Rightarrow> string \<Rightarrow> json" where
  "demo_step k needs cond =
     JObj [(''key'', JStr k), (''type'', JStr ''delay''), (''needs'', JArr (map JStr needs)), (''if'', JStr cond)]"

definition demo_json :: json where
  "demo_json = JObj [(''name'', JStr ''w''),
     (''steps'', JArr [demo_step ''a'' [] [], demo_step ''b'' [''a''] ''steps.a''])]"

definition demo_X :: externals where
  "demo_X = \<lparr>gen_random_uuid = (\<lambda>ids. Suc (foldl max 0 ids)), uuid_String = nat_digits,
     jsonb_ok = (\<lambda>_. True), json_Unmarshal = (\<lambda>s. Inr (JStr s)),
     goja_RunString = (\<lambda>_ _. Inr (JBool False)), sha256_Sum256 = (\<lambda>s. s)\<rparr>"

definition demo_run :: run_row where
  "demo_run = \<lparr>r_id = 1, r_workspace_id = 7, r_workflow_id = 3, r_version_id = 4, r_trigger_id = None,
     r_status = RQueued, r_input = ''{}'', r_error = None, r_idempotency_key = None, r_created_at = 0,
     r_started_at = None, r_finished_at = None\<rparr>"

definition demo_db :: db where
  "demo_db = empty_db\<lparr>
     workflows := [\<lparr>w_id = 3, w_workspace_id = 7, w_name = ''w'', w_slug = ''w'', w_is_enabled = True,
        w_current_version_id = Some 4\<rparr>],
     versions := [\<lparr>v_id = 4, v_workflow_id = 3, v_version = 1, v_definition = demo_json\<rparr>],
     runs := [demo_run]\<rparr>"

definition demo_def :: wf_definition where
  "demo_def = (case Parse demo_json of Inr d \<Rightarrow> d | Inl _ \<Rightarrow> zero_definition)"

definition demo_task :: "uuid \<Rightarrow> string \<Rightarrow> int \<Rightarrow> task_status \<Rightarrow> task_row" where
  "demo_task i k a st =
     \<lparr>t_id = i, t_run_id = 1, t_workspace_id = 7, t_step_key = k, t_attempt = a, t_status = st, t_input = None,
      t_output = None, t_error = None, t_queued_at = 0, t_started_at = Some 0, t_finished_at = None\<rparr>"

definition demo_with :: "run_status \<Rightarrow> task_row list \<Rightarrow> db" where
  "demo_with st ts = demo_db\<lparr>runs := [demo_run\<lparr>r_status := st\<rparr>], tasks := ts\<rparr>"

end
