(* ===== verification/Runs.thy ===== *)
theory Runs
  imports Store_Facts Go_Json Sample
begin

text \<open>
  Starting, canceling and retrying runs (\<^verbatim>\<open>internal/engine/engine.go\<close>). Each operation is one
  transaction: \<open>Inr\<close> carries the committed store, \<open>Inl\<close> an error with everything rolled back.
  Change notifications and log lines are not part of the state.
\<close>

section \<open>Model\<close>

record run_opts =
  ro_TriggerID :: "uuid option"
  ro_IdempotencyKey :: string

definition zero_opts :: run_opts where
  "zero_opts = \<lparr>ro_TriggerID = None, ro_IdempotencyKey = []\<rparr>"

definition scoped_key :: "externals \<Rightarrow> uuid \<Rightarrow> string \<Rightarrow> string" where
  "scoped_key X workflowID key = uuid_String X workflowID @ '':'' @ key"

definition select_version :: "db \<Rightarrow> uuid \<Rightarrow> uuid \<Rightarrow> uuid result" where
  "select_version db workspaceID workflowID =
     (case find (\<lambda>w. w_id w = workflowID \<and> w_workspace_id w = workspaceID \<and> w_current_version_id w \<noteq> None)
         (workflows db) of
        None \<Rightarrow> Inl ErrNoRows
      | Some w \<Rightarrow> (case w_current_version_id w of Some v \<Rightarrow> Inr v | None \<Rightarrow> Inl ErrNoRows))"

definition new_run ::
  "externals \<Rightarrow> timestamp \<Rightarrow> uuid \<Rightarrow> uuid \<Rightarrow> uuid \<Rightarrow> string \<Rightarrow> uuid option \<Rightarrow> string option \<Rightarrow> db \<Rightarrow> run_row" where
  "new_run X now workspaceID workflowID versionID input trigger key db =
     \<lparr>r_id = gen_random_uuid X (map r_id (runs db)), r_workspace_id = workspaceID, r_workflow_id = workflowID,
      r_version_id = versionID, r_trigger_id = trigger, r_status = RQueued, r_input = input, r_error = None,
      r_idempotency_key = key, r_created_at = now, r_started_at = None, r_finished_at = None\<rparr>"

text \<open>The replay path: the run that holds the key, checked to belong to the same workflow.\<close>

definition existing_run :: "db \<Rightarrow> uuid \<Rightarrow> uuid \<Rightarrow> string \<Rightarrow> uuid result" where
  "existing_run db workspaceID workflowID key =
     (case find (\<lambda>r. r_workspace_id r = workspaceID \<and> r_idempotency_key r = Some key) (runs db) of
        None \<Rightarrow> Inl ErrNoRows
      | Some r \<Rightarrow>
          if r_workflow_id r \<noteq> workflowID then Inl (Errorf ''idempotency key already used by another workflow'')
          else Inr (r_id r))"

definition StartRunOpts ::
  "externals \<Rightarrow> timestamp \<Rightarrow> uuid \<Rightarrow> uuid \<Rightarrow> json \<Rightarrow> run_opts \<Rightarrow> db \<Rightarrow> (uuid \<times> bool \<times> db) result" where
  "StartRunOpts X now workspaceID workflowID input opts db =
     rbind (select_version db workspaceID workflowID) (\<lambda>versionID.
     rbind (Marshal input) (\<lambda>inputJSON.
     let key = (if ro_IdempotencyKey opts \<noteq> [] then Some (scoped_key X workflowID (ro_IdempotencyKey opts)) else None);
         r = new_run X now workspaceID workflowID versionID inputJSON (ro_TriggerID opts) key db;
         started = (\<lambda>db'. Inr (r_id r, True, InsertTx (AdvanceRunArgs (r_id r)) None db')) in
     if \<not> jsonb_ok X inputJSON then Inl InvalidTextRepresentation
     else case key of
       Some k \<Rightarrow>
         rbind (insert_run_or_nothing r db) (\<lambda>ins. case ins of
           None \<Rightarrow> rbind (existing_run db workspaceID workflowID k) (\<lambda>existing. Inr (existing, False, db))
         | Some db' \<Rightarrow> started db')
     | None \<Rightarrow> rbind (insert_run r db) started))"

definition StartRun :: "externals \<Rightarrow> timestamp \<Rightarrow> uuid \<Rightarrow> uuid \<Rightarrow> json \<Rightarrow> db \<Rightarrow> (uuid \<times> db) result" where
  "StartRun X now workspaceID workflowID input db =
     rbind (StartRunOpts X now workspaceID workflowID input zero_opts db) (\<lambda>(runID, _, db'). Inr (runID, db'))"

fun run_status_text :: "run_status \<Rightarrow> string" where
  "run_status_text RQueued = ''queued''"
| "run_status_text RRunning = ''running''"
| "run_status_text RSuspended = ''suspended''"
| "run_status_text RSucceeded = ''succeeded''"
| "run_status_text RFailed = ''failed''"
| "run_status_text RCanceled = ''canceled''"

definition run_for_update :: "db \<Rightarrow> uuid \<Rightarrow> uuid \<Rightarrow> run_row result" where
  "run_for_update db workspaceID runID =
     (case find (\<lambda>r. r_id r = runID \<and> r_workspace_id r = workspaceID) (runs db) of
        None \<Rightarrow> Inl ErrNoRows | Some r \<Rightarrow> Inr r)"

definition cancel_task :: "timestamp \<Rightarrow> task_row \<Rightarrow> task_row" where
  "cancel_task now t = t\<lparr>t_status := TCanceled, t_finished_at := Some now\<rparr>"

definition CancelRun :: "timestamp \<Rightarrow> uuid \<Rightarrow> uuid \<Rightarrow> db \<Rightarrow> db result" where
  "CancelRun now workspaceID runID db =
     rbind (run_for_update db workspaceID runID) (\<lambda>r.
       if run_terminal (r_status r) then Inl (Errorf (''run is already '' @ run_status_text (r_status r)))
       else Inr (update_tasks
           (\<lambda>t. t_run_id t = runID \<and> t_status t \<in> {TQueued, TRunning, TSuspended}) (cancel_task now)
         (update_runs (\<lambda>r. r_id r = runID)
           (\<lambda>r. r\<lparr>r_status := RCanceled, r_finished_at := Some now\<rparr>) db)))"

definition redos :: "db \<Rightarrow> uuid \<Rightarrow> (string \<times> int) list" where
  "redos db runID =
     map (\<lambda>t. (t_step_key t, t_attempt t))
       (filter (\<lambda>t. t_status t = TFailed \<or> t_status t = TCanceled) (distinct_on_step (run_tasks db runID)))"

text \<open>
  Inserting the next attempt of a step together with its execute job, which RetryRun, finishTask
  and the reaper share.
\<close>

definition insert_attempt ::
  "externals \<Rightarrow> timestamp \<Rightarrow> uuid \<Rightarrow> uuid \<Rightarrow> string \<Rightarrow> int \<Rightarrow> timestamp option \<Rightarrow> db \<Rightarrow> db result" where
  "insert_attempt X now runID workspaceID key attempt scheduledAt db =
     (let t = new_task X now runID workspaceID key attempt TQueued db in
      rbind (insert_task t db) (\<lambda>db'. Inr (InsertTx (ExecuteTaskArgs (t_id t)) scheduledAt db')))"

definition RetryRun :: "externals \<Rightarrow> timestamp \<Rightarrow> uuid \<Rightarrow> uuid \<Rightarrow> db \<Rightarrow> db result" where
  "RetryRun X now workspaceID runID db =
     rbind (run_for_update db workspaceID runID) (\<lambda>r.
       if r_status r \<noteq> RFailed \<and> r_status r \<noteq> RCanceled
       then Inl (Errorf (''only failed or canceled runs can be retried (run is '' @ run_status_text (r_status r) @ '')''))
       else rbind
         (rfold (\<lambda>db (k, a). insert_attempt X now runID workspaceID k (a + 1) None db)
           (update_runs (\<lambda>r. r_id r = runID)
             (\<lambda>r. r\<lparr>r_status := RRunning, r_finished_at := None, r_error := None\<rparr>) db)
           (redos db runID))
         (\<lambda>db'. Inr (InsertTx (AdvanceRunArgs runID) None db')))"

section \<open>Next attempts\<close>

lemma insert_attempt_Inr:
  assumes "insert_attempt X now rid ws k a at db = Inr db'"
  obtains t db1 where "insert_task t db = Inr db1" "db' = InsertTx (ExecuteTaskArgs (t_id t)) at db1"
    "t_run_id t = rid" "t_workspace_id t = ws" "t_step_key t = k" "t_attempt t = a" "t_status t = TQueued"
  using assms by (auto simp: insert_attempt_def Let_def rbind_Inr_iff new_task_def)

text \<open>The latest attempt of the step is finished and not done: the next attempt may be inserted.\<close>

definition may_redo :: "db \<Rightarrow> uuid \<Rightarrow> string \<Rightarrow> int \<Rightarrow> bool" where
  "may_redo db rid k a \<longleftrightarrow>
     (\<exists>t. step_task db rid k = Some t \<and> task_bad (t_status t) \<and> t_attempt t = a)"

lemma may_redo_next_attempt:
  assumes wf: "wf_store db" and redo: "may_redo db rid k a" and ins: "insert_task t db = Inr db1"
    and t: "t_run_id t = rid" "t_step_key t = k" "t_attempt t = a + 1" "t_status t = TQueued"
  shows "next_attempt db t"
proof -
  obtain u where u: "step_task db rid k = Some u" "task_bad (t_status u)" "t_attempt u = a"
    using redo by (auto simp: may_redo_def)
  note u' = step_task_SomeD [OF u(1)]
  have "\<not> task_active (t_status v)" if "v \<in> set (tasks db)" "t_run_id v = rid" "t_step_key v = k" for v
    using active_step_task [OF wf that(1)] that(2,3) u(1,2)
    by (auto simp: task_bad_def task_active_def)
  moreover have "t_run_id u \<in> r_id ` set (runs db)" "1 \<le> t_attempt u"
    using wf u'(1) by (auto simp: wf_store_def tasks_have_runs_def)
  ultimately show ?thesis
    using u' u(3) t by (force simp: next_attempt_def)
qed

lemma insert_attempt_lifecycle:
  assumes "insert_attempt X now rid ws k (a + 1) at db = Inr db'" and redo: "wf_store db \<Longrightarrow> may_redo db rid k a"
  shows "lifecycle db db'"
  using assms(1)
proof (rule insert_attempt_Inr)
  fix t db1
  assume ins: "insert_task t db = Inr db1" and db': "db' = InsertTx (ExecuteTaskArgs (t_id t)) at db1"
    and t: "t_run_id t = rid" "t_workspace_id t = ws" "t_step_key t = k" "t_attempt t = a + 1" "t_status t = TQueued"
  have "lifecycle db db1"
  proof (rule lifecycle_insert_task [OF ins])
    assume wf: "wf_store db"
    from may_redo_next_attempt [OF wf redo [OF wf] ins] t show "next_attempt db t" by simp
    from redo [OF wf] t show "\<not> step_done db (t_run_id t) (t_step_key t)"
      by (auto simp: may_redo_def step_done_def step_status_def task_bad_def task_done_def)
  qed
  then show ?thesis unfolding db' by (rule lifecycle_trans) (rule lifecycle_InsertTx)
qed

text \<open>With fresh identifiers the insert cannot fail: the slot after the latest attempt is free.\<close>

lemma insert_attempt_succeeds:
  assumes "fresh_uuids X" "may_redo db rid k a"
  shows "\<exists>db'. insert_attempt X now rid ws k (a + 1) at db = Inr db'"
proof -
  obtain u where u: "step_task db rid k = Some u" "t_attempt u = a" using assms(2) by (auto simp: may_redo_def)
  have "(rid, k, a + 1) \<notin> task_slot ` set (tasks db)"
    using step_task_SomeD(4) [OF u(1)] u(2) by (fastforce simp: task_slot_def)
  moreover have "gen_random_uuid X (map t_id (tasks db)) \<notin> t_id ` set (tasks db)"
    using assms(1) unfolding fresh_uuids_def by (metis list.set_map)
  ultimately show ?thesis
    by (simp add: insert_attempt_def insert_task_def new_task_def task_slot_def Let_def)
qed

text \<open>What a sequence of such inserts does to the store.\<close>

definition attempts_inserted ::
  "uuid \<Rightarrow> uuid \<Rightarrow> (string \<times> int) list \<Rightarrow> db \<Rightarrow> db \<Rightarrow> task_row list \<Rightarrow> bool" where
  "attempts_inserted rid ws ks db db' news \<longleftrightarrow>
     tasks db' = tasks db @ news \<and>
     map (\<lambda>t. (t_step_key t, t_attempt t)) news = map (\<lambda>(k, a). (k, a + 1)) ks \<and>
     (\<forall>t \<in> set news. t_run_id t = rid \<and> t_workspace_id t = ws \<and> t_status t = TQueued) \<and>
     job_set db' = job_set db \<union> ExecuteTaskArgs ` t_id ` set news \<and>
     runs db' = runs db \<and> versions db' = versions db \<and> suspensions db' = suspensions db \<and>
     lifecycle db db'"

lemma insert_attempts:
  assumes "rfold (\<lambda>db (k, a). insert_attempt X now rid ws k (a + 1) None db) db ks = Inr db'"
    and "distinct (map fst ks)" and "wf_store db" and "\<forall>(k, a) \<in> set ks. may_redo db rid k a"
  shows "\<exists>news. attempts_inserted rid ws ks db db' news"
  using assms
proof (induction ks arbitrary: db)
  case Nil
  then have "attempts_inserted rid ws [] db db' []" by (simp add: attempts_inserted_def)
  then show ?case ..
next
  case (Cons p ks)
  obtain k a where p: "p = (k, a)" by (cases p)
  with Cons.prems(1) obtain db1 where db1: "insert_attempt X now rid ws k (a + 1) None db = Inr db1"
    "rfold (\<lambda>db (k, a). insert_attempt X now rid ws k (a + 1) None db) db1 ks = Inr db'"
    by (auto simp: rbind_Inr_iff)
  obtain t db2 where t: "insert_task t db = Inr db2" "db1 = InsertTx (ExecuteTaskArgs (t_id t)) None db2"
    "t_run_id t = rid" "t_workspace_id t = ws" "t_step_key t = k" "t_attempt t = a + 1" "t_status t = TQueued"
    by (rule insert_attempt_Inr [OF db1(1)])
  have life: "lifecycle db db1"
    using insert_attempt_lifecycle [OF db1(1)] Cons.prems(4) p by simp
  then have wf1: "wf_store db1" using Cons.prems(3) by (rule lifecycleD(1))
  have "may_redo db1 rid k' a'" if "(k', a') \<in> set ks" for k' a'
  proof -
    have "k' \<noteq> k" using Cons.prems(2) p that by (auto simp: image_iff)
    then have "step_task db1 rid k' = step_task db rid k'"
      using step_task_insert_other [OF t(1), of rid k'] t(2,5)
      by (simp add: step_task_def run_tasks_def store_simps)
    moreover have "may_redo db rid k' a'" using Cons.prems(4) that by auto
    ultimately show ?thesis by (simp add: may_redo_def)
  qed
  then have "\<forall>(k', a') \<in> set ks. may_redo db1 rid k' a'" by auto
  with Cons.IH [OF db1(2) _ wf1] Cons.prems(2) obtain news where news: "attempts_inserted rid ws ks db1 db' news"
    by auto
  have "tasks db1 = tasks db @ [t]" "job_set db1 = insert (ExecuteTaskArgs (t_id t)) (job_set db)"
    "runs db1 = runs db" "versions db1 = versions db" "suspensions db1 = suspensions db"
    using t(1,2) by (auto simp: insert_task_Inr store_simps)
  moreover have "lifecycle db db'"
    using life news by (auto simp: attempts_inserted_def intro: lifecycle_trans)
  ultimately have "attempts_inserted rid ws (p # ks) db db' (t # news)"
    using news t(3-7) p by (simp add: attempts_inserted_def)
  then show ?case ..
qed

lemma set_redos:
  "(k, a) \<in> set (redos db rid) \<longleftrightarrow> may_redo db rid k a"
proof
  assume "(k, a) \<in> set (redos db rid)"
  then show "may_redo db rid k a"
    by (auto simp: redos_def set_distinct_on_step may_redo_def task_bad_def)
next
  assume "may_redo db rid k a"
  then obtain t where t: "step_task db rid k = Some t" "task_bad (t_status t)" "t_attempt t = a"
    by (auto simp: may_redo_def)
  with step_task_SomeD(3) [OF t(1)] show "(k, a) \<in> set (redos db rid)"
    by (force simp: redos_def set_distinct_on_step task_bad_def)
qed

lemma distinct_redos: "distinct (map fst (redos db rid))"
proof -
  have "map t_step_key (List.map_filter (step_task db rid) ks) = filter (\<lambda>k. step_task db rid k \<noteq> None) ks" for ks
  proof (induction ks)
    case (Cons k ks)
    then show ?case
      using step_task_SomeD(3) [of db rid k]
      by (cases "step_task db rid k") (auto simp: List.map_filter_simps)
  qed (simp add: List.map_filter_simps)
  then have "distinct (map t_step_key (distinct_on_step (run_tasks db rid)))"
    by (simp add: distinct_on_step_def step_task_def [symmetric])
  then show ?thesis by (simp add: redos_def comp_def distinct_map_filter)
qed

section \<open>The contract\<close>

lemma StartRunOpts_Inr:
  assumes "StartRunOpts X now ws wfl input opts db = Inr (rid, created, db')"
  obtains (created) r db1 where "created" "insert_run r db = Inr db1" "rid = r_id r"
      "db' = InsertTx (AdvanceRunArgs rid) None db1" "r_workspace_id r = ws" "r_workflow_id r = wfl"
      "r_status r = RQueued" "select_version db ws wfl = Inr (r_version_id r)"
      "r_idempotency_key r = (if ro_IdempotencyKey opts = [] then None
         else Some (scoped_key X wfl (ro_IdempotencyKey opts)))"
  | (replayed) r where "\<not> created" "db' = db" "ro_IdempotencyKey opts \<noteq> []" "r \<in> set (runs db)" "rid = r_id r"
      "r_workspace_id r = ws" "r_workflow_id r = wfl"
      "r_idempotency_key r = Some (scoped_key X wfl (ro_IdempotencyKey opts))"
proof (cases created)
  case True
  with assms that(1) show thesis
    by (auto simp: StartRunOpts_def Let_def rbind_Inr_iff insert_run_or_nothing_def new_run_def
        split: if_splits)
next
  case False
  with assms that(2) show thesis
    by (auto simp: StartRunOpts_def Let_def rbind_Inr_iff insert_run_or_nothing_def existing_run_def
        split: if_splits option.splits dest!: find_SomeD)
qed

lemma StartRunOpts_lifecycle:
  assumes "StartRunOpts X now ws wfl input opts db = Inr (rid, created, db')"
  shows "lifecycle db db'"
  using assms
proof (cases rule: StartRunOpts_Inr)
  case (created r db1)
  with lifecycle_insert_run lifecycle_trans [OF _ lifecycle_InsertTx] show ?thesis by metis
next
  case (replayed r)
  then show ?thesis by simp
qed

lemma run_for_update_Inr:
  "run_for_update db ws rid = Inr r \<Longrightarrow> r \<in> set (runs db) \<and> r_id r = rid \<and> r_workspace_id r = ws"
  by (auto simp: run_for_update_def split: option.splits dest!: find_SomeD)

lemma keeps_cancel [simp]:
  "keeps_slot (cancel_task now)" "keeps_run_key (\<lambda>r. r\<lparr>r_status := RCanceled, r_finished_at := Some now\<rparr>)"
  "keeps_run_key (\<lambda>r. r\<lparr>r_status := RRunning, r_finished_at := None, r_error := None\<rparr>)"
  by (simp_all add: keeps_slot_def cancel_task_def keeps_run_key_def same_run_def)

lemma CancelRun_lifecycle:
  assumes "CancelRun now ws rid db = Inr db'"
  shows "lifecycle db db'"
proof -
  from assms have db': "db' = update_tasks
      (\<lambda>t. t_run_id t = rid \<and> t_status t \<in> {TQueued, TRunning, TSuspended}) (cancel_task now)
      (update_runs (\<lambda>r. r_id r = rid) (\<lambda>r. r\<lparr>r_status := RCanceled, r_finished_at := Some now\<rparr>) db)"
    by (auto simp: CancelRun_def rbind_Inr_iff split: if_splits)
  show ?thesis unfolding db'
    by (rule lifecycle_trans [OF lifecycle_update_runs lifecycle_update_tasks]) (auto simp: task_active_def)
qed

lemma RetryRun_Inr:
  assumes "RetryRun X now ws rid db = Inr db'" and wf: "wf_store db"
  defines "db1 \<equiv> update_runs (\<lambda>r. r_id r = rid) (\<lambda>r. r\<lparr>r_status := RRunning, r_finished_at := None, r_error := None\<rparr>) db"
  obtains r db2 news where "r \<in> set (runs db)" "r_id r = rid" "r_workspace_id r = ws"
    "r_status r = RFailed \<or> r_status r = RCanceled"
    "attempts_inserted rid ws (redos db rid) db1 db2 news" "db' = InsertTx (AdvanceRunArgs rid) None db2"
proof -
  from assms(1) obtain r db2 where r: "run_for_update db ws rid = Inr r" "r_status r = RFailed \<or> r_status r = RCanceled"
    and loop: "rfold (\<lambda>db (k, a). insert_attempt X now rid ws k (a + 1) None db) db1 (redos db rid) = Inr db2"
    and db': "db' = InsertTx (AdvanceRunArgs rid) None db2"
    by (auto simp: RetryRun_def rbind_Inr_iff db1_def split: if_splits)
  have "wf_store db1" unfolding db1_def by (rule wf_update_runs [OF wf]) simp
  moreover have "may_redo db1 rid k a = may_redo db rid k a" for k a
    by (simp add: may_redo_def step_task_def run_tasks_def db1_def store_simps)
  ultimately obtain news where news: "attempts_inserted rid ws (redos db rid) db1 db2 news"
    using insert_attempts [OF loop distinct_redos] set_redos by blast
  show thesis
    by (rule that [OF _ _ _ r(2) news db']) (use run_for_update_Inr [OF r(1)] in auto)
qed

lemma RetryRun_lifecycle:
  assumes "RetryRun X now ws rid db = Inr db'" "wf_store db"
  shows "lifecycle db db'"
  using assms
proof (rule RetryRun_Inr)
  fix r db2 news
  assume "attempts_inserted rid ws (redos db rid) (update_runs (\<lambda>r. r_id r = rid)
      (\<lambda>r. r\<lparr>r_status := RRunning, r_finished_at := None, r_error := None\<rparr>) db) db2 news"
    and db': "db' = InsertTx (AdvanceRunArgs rid) None db2"
  then have "lifecycle db db2"
    using lifecycle_trans [OF lifecycle_update_runs [OF keeps_cancel(3)]] unfolding attempts_inserted_def by blast
  then show ?thesis unfolding db' by (rule lifecycle_trans) (rule lifecycle_InsertTx)
qed

interpretation start: task_lifecycle
  "\<lambda>db db'. \<exists>X now ws wfl input opts rid created. StartRunOpts X now ws wfl input opts db = Inr (rid, created, db')"
  by unfold_locales (auto intro: StartRunOpts_lifecycle)

interpretation cancel: task_lifecycle "\<lambda>db db'. \<exists>now ws rid. CancelRun now ws rid db = Inr db'"
  by unfold_locales (auto intro: CancelRun_lifecycle)

interpretation retry: task_lifecycle
  "\<lambda>db db'. wf_store db \<and> (\<exists>X now ws rid. RetryRun X now ws rid db = Inr db')"
  by unfold_locales (auto intro: RetryRun_lifecycle)

section \<open>Properties\<close>

lemma StartRunOpts_row:
  assumes "StartRunOpts X now ws wfl input opts db = Inr (rid, created, db')"
  shows "\<exists>r \<in> set (runs db'). r_id r = rid \<and> r_workspace_id r = ws \<and> r_workflow_id r = wfl \<and>
    (ro_IdempotencyKey opts \<noteq> [] \<longrightarrow> r_idempotency_key r = Some (scoped_key X wfl (ro_IdempotencyKey opts)))"
  using assms
proof (cases rule: StartRunOpts_Inr)
  case (created r db1)
  then have "r \<in> set (runs db')" by (auto simp: insert_run_def store_simps split: if_splits)
  with created show ?thesis by auto
qed auto

lemma existing_run_found:
  assumes wf: "wf_store db" and r: "r \<in> set (runs db)" "r_workspace_id r = ws" "r_idempotency_key r = Some k"
  shows "existing_run db ws (r_workflow_id r) k = Inr (r_id r)"
proof -
  let ?P = "\<lambda>r. r_workspace_id r = ws \<and> r_idempotency_key r = Some k"
  obtain q where q: "find ?P (runs db) = Some q"
    using r by (cases "find ?P (runs db)") (auto simp: find_None_iff_ball)
  then have q': "q \<in> set (runs db)" "same_key q r"
    using r by (auto simp: same_key_def dest!: find_SomeD)
  then have "r_id q = r_id r" using wf r(1) by (auto simp: wf_store_def run_row_ids_def)
  then have "q = r"
    using wf r(1) q'(1) by (auto simp: wf_store_def run_row_ids_def intro: distinct_map_inj_on_set)
  with q show ?thesis by (simp add: existing_run_def)
qed

lemma StartRunOpts_replay:
  assumes first: "StartRunOpts X now ws wfl input opts db = Inr (rid, created, db1)"
    and key: "ro_IdempotencyKey opts \<noteq> []" "ro_IdempotencyKey opts' = ro_IdempotencyKey opts"
    and later: "lifecycle db1 db2" "wf_store db2"
    and ready: "select_version db2 ws wfl = Inr v" "Marshal input' = Inr s" "jsonb_ok X s"
  shows "StartRunOpts X now' ws wfl input' opts' db2 = Inr (rid, False, db2)"
proof -
  let ?k = "scoped_key X wfl (ro_IdempotencyKey opts)"
  obtain r where "r \<in> set (runs db1)" "r_id r = rid" "r_workspace_id r = ws" "r_workflow_id r = wfl"
    "r_idempotency_key r = Some ?k"
    using StartRunOpts_row [OF first] key(1) by auto
  with lifecycleD(3) [OF later(1)] obtain r' where r': "r' \<in> set (runs db2)" "r_id r' = rid"
    "r_workspace_id r' = ws" "r_workflow_id r' = wfl" "r_idempotency_key r' = Some ?k"
    unfolding same_run_def by metis
  have "existing_run db2 ws wfl ?k = Inr rid"
    using existing_run_found [OF later(2) r'(1,3,5)] r'(2,4) by simp
  moreover have "key_taken (new_run X now' ws wfl v s (ro_TriggerID opts') (Some ?k) db2) db2"
    using r' by (auto simp: key_taken_def new_run_def)
  ultimately show ?thesis
    using ready key by (simp add: StartRunOpts_def insert_run_or_nothing_def Let_def)
qed

text \<open>
  C11. Starting a run is idempotent in its key. After a start with a non-empty key has committed, and
  however the store has evolved since by transactions that meet the engine's contract, every
  further start of the same workflow with the same key, whatever its input, trigger and time,
  returns the same run with \<^verbatim>\<open>created = false\<close> and writes nothing: no row and no job.
\<close>

theorem start_run_is_idempotent:
  assumes first: "StartRunOpts X now ws wfl input opts db = Inr (rid, created, db1)"
    and key: "ro_IdempotencyKey opts \<noteq> []" "ro_IdempotencyKey opts' = ro_IdempotencyKey opts"
    and later: "lifecycle db1 db2" "wf_store db2"
    and ready: "select_version db2 ws wfl = Inr v" "Marshal input' = Inr s" "jsonb_ok X s"
  shows "StartRunOpts X now' ws wfl input' opts' db2 = Inr (rid, False, db2)"
  by (rule StartRunOpts_replay [OF assms])

definition demo_opts :: run_opts where
  "demo_opts = \<lparr>ro_TriggerID = None, ro_IdempotencyKey = ''order-7''\<rparr>"

definition demo_started :: db where
  "demo_started = (case StartRunOpts demo_X 1 7 3 (JObj []) demo_opts demo_db of Inr (_, _, d) \<Rightarrow> d | Inl _ \<Rightarrow> demo_db)"

theorem start_run_is_idempotent_witness:
  "StartRunOpts demo_X 8 7 3 JNull demo_opts demo_started = Inr (2, False, demo_started)"
proof (rule start_run_is_idempotent)
  show "StartRunOpts demo_X 1 7 3 (JObj []) demo_opts demo_db = Inr (2, True, demo_started)" by code_simp
  show "ro_IdempotencyKey demo_opts \<noteq> []" by code_simp
  show "lifecycle demo_started demo_started" by simp
  show "wf_store demo_started" by code_simp
  show "select_version demo_started 7 3 = Inr 4" by code_simp
  show "Marshal JNull = Inr ''null''" by code_simp
  show "jsonb_ok demo_X ''null''" by code_simp
qed simp

text \<open>Every stored key carries the workflow of its run.\<close>

definition keys_scoped :: "externals \<Rightarrow> db \<Rightarrow> bool" where
  "keys_scoped X db \<longleftrightarrow>
     (\<forall>r \<in> set (runs db). \<forall>k. r_idempotency_key r = Some k \<longrightarrow> HasPrefix k (scoped_key X (r_workflow_id r) []))"

lemma scoped_key_inj:
  assumes "uuid_text X" and "HasPrefix (scoped_key X a k) (scoped_key X b [])"
  shows "a = b"
proof -
  from assms(2) obtain z where "uuid_String X a @ CHR '':'' # k = uuid_String X b @ CHR '':'' # z"
    by (auto simp: scoped_key_def HasPrefix_iff)
  with append_sep_inject [of "CHR '':''" "uuid_String X a" "uuid_String X b" k z] assms(1)
  have "uuid_String X a = uuid_String X b" by (simp add: uuid_text_def)
  with assms(1) show ?thesis by (auto simp: uuid_text_def dest: injD)
qed

text \<open>
  Idempotency keys never reach across workflows. While every stored key is scoped to the workflow
  of its run, a start never meets a run of another workflow under its key, so the guard in the
  replay path never fires, and a committing start keeps the keys scoped. The identifiers need a
  textual form that is injective and has no colon, as that of a UUID.
\<close>

lemma idempotency_keys_stay_within_a_workflow:
  assumes X: "uuid_text X" and scoped: "keys_scoped X db"
  shows "StartRunOpts X now ws wfl input opts db \<noteq> Inl (Errorf ''idempotency key already used by another workflow'') \<and>
    (case StartRunOpts X now ws wfl input opts db of Inr (_, _, db') \<Rightarrow> keys_scoped X db' | Inl _ \<Rightarrow> True)"
proof
  have own: "r_workflow_id r = wfl"
    if "r \<in> set (runs db)" "r_idempotency_key r = Some (scoped_key X wfl (ro_IdempotencyKey opts))" for r
  proof -
    from scoped that have "HasPrefix (scoped_key X wfl (ro_IdempotencyKey opts)) (scoped_key X (r_workflow_id r) [])"
      by (auto simp: keys_scoped_def)
    from scoped_key_inj [OF X this] show ?thesis by simp
  qed
  have "Marshal v \<noteq> Inl (Errorf ''idempotency key already used by another workflow'')" for v
    using Marshal_Inl [of v "Errorf ''idempotency key already used by another workflow''"] by auto
  then show "StartRunOpts X now ws wfl input opts db \<noteq> Inl (Errorf ''idempotency key already used by another workflow'')"
    using own
    by (auto simp: StartRunOpts_def rbind_def select_version_def insert_run_or_nothing_def insert_run_def
        existing_run_def Let_def split: sum.splits option.splits if_splits dest!: find_SomeD)
  show "case StartRunOpts X now ws wfl input opts db of Inr (_, _, db') \<Rightarrow> keys_scoped X db' | Inl _ \<Rightarrow> True"
  proof (cases "StartRunOpts X now ws wfl input opts db")
    case (Inr p)
    obtain rid c db' where p: "p = (rid, c, db')" by (cases p)
    from Inr [unfolded p] have "keys_scoped X db'"
    proof (cases rule: StartRunOpts_Inr)
      case (created r db1)
      have "runs db' = runs db @ [r]" using created by (auto simp: insert_run_def store_simps split: if_splits)
      with created scoped show ?thesis
        by (auto simp: keys_scoped_def scoped_key_def HasPrefix_iff split: if_splits)
    next
      case (replayed r)
      with scoped show ?thesis by simp
    qed
    with Inr p show ?thesis by simp
  qed simp
qed

lemma CancelRun_Inr_iff:
  "CancelRun now ws rid db = Inr db' \<longleftrightarrow>
     (\<exists>r. run_for_update db ws rid = Inr r \<and> \<not> run_terminal (r_status r)) \<and>
     db' = update_tasks (\<lambda>t. t_run_id t = rid \<and> t_status t \<in> {TQueued, TRunning, TSuspended}) (cancel_task now)
       (update_runs (\<lambda>r. r_id r = rid) (\<lambda>r. r\<lparr>r_status := RCanceled, r_finished_at := Some now\<rparr>) db)"
  by (auto simp: CancelRun_def rbind_Inr_iff split: if_splits)

lemma CancelRun_tasks:
  assumes "CancelRun now ws rid db = Inr db'"
  shows "tasks db' = map (\<lambda>t. if t_run_id t = rid \<and> task_active (t_status t) then cancel_task now t else t) (tasks db)"
  using assms by (auto simp: CancelRun_Inr_iff store_simps task_active_def)



lemma distinct_attempts_step_task:
  assumes "attempts_inserted rid ws ks db db' news" "wf_store db" "distinct (map fst ks)"
    and redo: "\<forall>(k, a) \<in> set ks. may_redo db rid k a"
  shows "(k, a) \<in> set ks \<Longrightarrow> \<exists>t \<in> set news. step_task db' rid k = Some t \<and> t_attempt t = a + 1"
    and "k \<notin> fst ` set ks \<Longrightarrow> step_task db' rid k = step_task db rid k"
proof -
  have tasks: "tasks db' = tasks db @ news" and wf': "wf_store db'"
    and keys: "map (\<lambda>t. (t_step_key t, t_attempt t)) news = map (\<lambda>(k, a). (k, a + 1)) ks"
    using assms(1,2) by (auto simp: attempts_inserted_def intro: lifecycleD(1))
  {
    assume "(k, a) \<in> set ks"
    then have "(k, a + 1) \<in> set (map (\<lambda>t. (t_step_key t, t_attempt t)) news)" unfolding keys by force
    then obtain t where t: "t \<in> set news" "t_step_key t = k" "t_attempt t = a + 1" by auto
    with assms(1) have "t_run_id t = rid" "task_active (t_status t)" "t \<in> set (tasks db')"
      by (auto simp: attempts_inserted_def task_active_def)
    with t active_step_task [OF wf'] show "\<exists>t \<in> set news. step_task db' rid k = Some t \<and> t_attempt t = a + 1" by auto
  next
    assume "k \<notin> fst ` set ks"
    have "fst ` set (map (\<lambda>t. (t_step_key t, t_attempt t)) news) = fst ` set ks"
      unfolding keys by force
    then have "t_step_key ` set news = fst ` set ks" by (simp add: image_image)
    then have "filter (\<lambda>t. t_step_key t = k) news = []"
      using \<open>k \<notin> fst ` set ks\<close> by (auto simp: filter_empty_conv)
    then have "step_tasks k (run_tasks db' rid) = step_tasks k (run_tasks db rid)"
      unfolding step_tasks_def run_tasks_def tasks by (auto simp: filter_empty_conv)
    then show "step_task db' rid k = step_task db rid k" by (simp add: step_task_def)
  }
qed

text \<open>
  C13. Retrying redoes exactly what went wrong. When a retry commits, the run was failed or canceled
  and is now running with an advance enqueued; every step whose latest attempt failed or was
  canceled has one new queued attempt, numbered one higher, with its execute job; and the latest
  attempt of every other step, in particular the output of a completed one, is untouched.
\<close>

theorem retry_run_redoes_failed_steps:
  assumes wf: "wf_store db" and retry: "RetryRun X now ws rid db = Inr db'"
  shows "map_option r_status (find_run db rid) \<in> {Some RFailed, Some RCanceled} \<and>
    map_option r_status (find_run db' rid) = Some RRunning \<and> AdvanceRunArgs rid \<in> job_set db' \<and>
    (case step_task db rid k of
       None \<Rightarrow> step_task db' rid k = None
     | Some t \<Rightarrow>
         if t_status t = TFailed \<or> t_status t = TCanceled
         then (case step_task db' rid k of
             None \<Rightarrow> False
           | Some t' \<Rightarrow> t_attempt t' = t_attempt t + 1 \<and> t_status t' = TQueued \<and>
               ExecuteTaskArgs (t_id t') \<in> job_set db')
         else step_task db' rid k = Some t)"
  using retry wf
proof (rule RetryRun_Inr)
  let ?f = "\<lambda>r. r\<lparr>r_status := RRunning, r_finished_at := None, r_error := None\<rparr>"
  let ?db1 = "update_runs (\<lambda>r. r_id r = rid) ?f db"
  fix r db2 news
  assume r: "r \<in> set (runs db)" "r_id r = rid" "r_status r = RFailed \<or> r_status r = RCanceled"
    and news: "attempts_inserted rid ws (redos db rid) ?db1 db2 news" and db': "db' = InsertTx (AdvanceRunArgs rid) None db2"
  have run: "find_run db rid = Some r" using find_run_iff [OF wf] r by simp
  then have "find_run ?db1 rid = Some (?f r)" by (simp add: find_run_update_runs [OF keeps_cancel(3)] r(2))
  then have run': "find_run db' rid = Some (?f r)"
    using news by (simp add: attempts_inserted_def find_run_def db' store_simps)
  have same: "step_task ?db1 rid k = step_task db rid k" "step_task db' rid k = step_task db2 rid k" for k
    by (simp_all add: step_task_def run_tasks_def store_simps db')
  then have redo: "may_redo ?db1 rid k a = may_redo db rid k a" for k a by (simp add: may_redo_def)
  have wf1: "wf_store ?db1" by (rule wf_update_runs [OF wf keeps_cancel(3)])
  have all: "\<forall>(k, a) \<in> set (redos db rid). may_redo ?db1 rid k a" by (auto simp: set_redos redo)
  note step = distinct_attempts_step_task [OF news wf1 distinct_redos all, unfolded same(1)]
  have keys: "k \<in> fst ` set (redos db rid) \<longleftrightarrow> (\<exists>a. may_redo db rid k a)"
    by (force simp: set_redos [symmetric])
  have "case step_task db rid k of
       None \<Rightarrow> step_task db' rid k = None
     | Some t \<Rightarrow>
         if t_status t = TFailed \<or> t_status t = TCanceled
         then (case step_task db' rid k of
             None \<Rightarrow> False
           | Some t' \<Rightarrow> t_attempt t' = t_attempt t + 1 \<and> t_status t' = TQueued \<and>
               ExecuteTaskArgs (t_id t') \<in> job_set db')
         else step_task db' rid k = Some t"
  proof (cases "\<exists>a. may_redo db rid k a")
    case True
    then obtain t where t: "step_task db rid k = Some t" "task_bad (t_status t)" "may_redo db rid k (t_attempt t)"
      by (auto simp: may_redo_def)
    with step(1) obtain t' where "t' \<in> set news" "step_task db2 rid k = Some t'" "t_attempt t' = t_attempt t + 1"
      by (auto simp: set_redos)
    moreover from this(1) news have "t_status t' = TQueued" "ExecuteTaskArgs (t_id t') \<in> job_set db'"
      by (auto simp: attempts_inserted_def db' store_simps)
    ultimately show ?thesis using t by (simp add: same(2) task_bad_def)
  next
    case False
    with step(2) [of k] keys show ?thesis
      by (cases "step_task db rid k") (auto simp: same(2) may_redo_def task_bad_def)
  qed
  with r run run' show ?thesis by (auto simp: db' store_simps)
qed

theorem retry_run_redoes_failed_steps_witness:
  "map_option t_attempt (step_task (ok_or demo_db (RetryRun demo_X 9 7 1
     (demo_with RFailed [demo_task 1 ''a'' 1 TFailed]))) 1 ''a'') = Some 2"
proof -
  let ?db = "demo_with RFailed [demo_task 1 ''a'' 1 TFailed]"
  have "wf_store ?db" "RetryRun demo_X 9 7 1 ?db = Inr (ok_or demo_db (RetryRun demo_X 9 7 1 ?db))" by code_simp+
  from retry_run_redoes_failed_steps [OF this, of "''a''"]
  have "case step_task ?db 1 ''a'' of
       None \<Rightarrow> step_task (ok_or demo_db (RetryRun demo_X 9 7 1 ?db)) 1 ''a'' = None
     | Some t \<Rightarrow>
         if t_status t = TFailed \<or> t_status t = TCanceled
         then (case step_task (ok_or demo_db (RetryRun demo_X 9 7 1 ?db)) 1 ''a'' of
             None \<Rightarrow> False
           | Some t' \<Rightarrow> t_attempt t' = t_attempt t + 1 \<and> t_status t' = TQueued \<and>
               ExecuteTaskArgs (t_id t') \<in> job_set (ok_or demo_db (RetryRun demo_X 9 7 1 ?db)))
         else step_task (ok_or demo_db (RetryRun demo_X 9 7 1 ?db)) 1 ''a'' = Some t" by blast
  moreover have "step_task ?db 1 ''a'' = Some (demo_task 1 ''a'' 1 TFailed)" by code_simp
  ultimately show ?thesis by (auto simp: demo_task_def split: option.splits)
qed

end
