(* ===== verification/Scheduler.thy ===== *)
theory Scheduler
  imports Runs
begin

text \<open>
  The scheduler (\<^verbatim>\<open>internal/engine/scheduler.go\<close>). The cron library is a parameter: a parsed schedule
  is its method \<^verbatim>\<open>Next\<close>, \<open>None\<close> standing for the zero time. The walk of \<^verbatim>\<open>latestOccurrence\<close> is a
  partial function, since a \<^verbatim>\<open>Next\<close> that does not move forward would keep it going for ever; for
  schedules that keep the library's contract it is proved to return.
\<close>

section \<open>Model\<close>

type_synonym schedule = "timestamp \<Rightarrow> timestamp option"

record cron_env =
  cron_ParseStandard :: "string \<Rightarrow> schedule result"
  config_cron :: "(string \<times> json) list \<Rightarrow> string option"   \<comment> \<open>the SQL expression \<^verbatim>\<open>config->>'cron'\<close>\<close>
  format_RFC3339 :: "timestamp \<Rightarrow> string"

definition lookbackWindow :: int where
  "lookbackWindow = 90 * Second"

partial_function (option) occurrence_walk ::
  "schedule \<Rightarrow> timestamp \<Rightarrow> timestamp \<Rightarrow> timestamp option \<Rightarrow> timestamp option option" where
  "occurrence_walk Next now t occ =
     (case Next t of
        None \<Rightarrow> Some occ
      | Some nx \<Rightarrow> if now < nx then Some occ else occurrence_walk Next now nx (Some nx))"

definition latestOccurrence :: "schedule \<Rightarrow> timestamp \<Rightarrow> int \<Rightarrow> timestamp option option" where
  "latestOccurrence Next now lookback = occurrence_walk Next now (now - lookback) None"

record schedule_trigger =
  sc_id :: uuid
  sc_workspaceID :: uuid
  sc_workflowID :: uuid
  sc_cronExpr :: string

definition schedule_key :: "externals \<Rightarrow> uuid \<Rightarrow> timestamp \<Rightarrow> string" where
  "schedule_key X tid occ = ''cron:'' @ uuid_String X tid @ '':'' @ Itoa (occ div Second)"

definition fireSchedule ::
  "externals \<Rightarrow> cron_env \<Rightarrow> timestamp \<Rightarrow> schedule_trigger \<Rightarrow> timestamp \<Rightarrow> db \<Rightarrow> db result" where
  "fireSchedule X C now st occ db =
     rbind (StartRunOpts X now (sc_workspaceID st) (sc_workflowID st)
         (JObj [(''scheduled_for'', JStr (format_RFC3339 C occ))])
         \<lparr>ro_TriggerID = Some (sc_id st), ro_IdempotencyKey = schedule_key X (sc_id st) occ\<rparr> db)
       (\<lambda>(runID, created, db'). Inr db')"

definition due_triggers :: "cron_env \<Rightarrow> db \<Rightarrow> schedule_trigger list" where
  "due_triggers C db =
     map (\<lambda>t. \<lparr>sc_id = tr_id t, sc_workspaceID = tr_workspace_id t, sc_workflowID = tr_workflow_id t,
            sc_cronExpr = (case config_cron C (tr_config t) of Some e \<Rightarrow> e | None \<Rightarrow> [])\<rparr>)
       (filter (\<lambda>t. tr_type t = ''schedule'' \<and> tr_is_enabled t \<and>
            (\<exists>w \<in> set (workflows db). w_id w = tr_workflow_id t \<and> w_is_enabled w \<and> w_current_version_id w \<noteq> None))
          (triggers db))"

text \<open>One trigger of a sweep: \<open>None\<close> when the walk over its activations does not return.\<close>

definition sweep_trigger :: "externals \<Rightarrow> cron_env \<Rightarrow> timestamp \<Rightarrow> db \<Rightarrow> schedule_trigger \<Rightarrow> db option" where
  "sweep_trigger X C now db st =
     (case cron_ParseStandard C (sc_cronExpr st) of
        Inl _ \<Rightarrow> Some db
      | Inr sched \<Rightarrow>
          (case latestOccurrence sched now lookbackWindow of
             None \<Rightarrow> None
           | Some None \<Rightarrow> Some db
           | Some (Some occ) \<Rightarrow>
               (case fireSchedule X C now st occ db of Inl _ \<Rightarrow> Some db | Inr db' \<Rightarrow> Some db')))"

definition sweepSchedules :: "externals \<Rightarrow> cron_env \<Rightarrow> timestamp \<Rightarrow> db \<Rightarrow> db option" where
  "sweepSchedules X C now db =
     foldl (\<lambda>acc st. Option.bind acc (\<lambda>db. sweep_trigger X C now db st)) (Some db) (due_triggers C db)"

section \<open>The walk\<close>

text \<open>
  The contract of \<^verbatim>\<open>cron.Schedule\<close>: \<^verbatim>\<open>Next(t)\<close> is the first activation strictly after \<open>t\<close>.
\<close>

definition activates :: "schedule \<Rightarrow> timestamp set \<Rightarrow> bool" where
  "activates Next A \<longleftrightarrow>
     (\<forall>t. case Next t of
        None \<Rightarrow> \<forall>a \<in> A. a \<le> t
      | Some u \<Rightarrow> u \<in> A \<and> t < u \<and> (\<forall>a \<in> A. t < a \<longrightarrow> u \<le> a))"

lemma activatesD:
  assumes "activates Next A"
  shows "Next t = None \<Longrightarrow> a \<in> A \<Longrightarrow> a \<le> t"
    and "Next t = Some u \<Longrightarrow> u \<in> A \<and> t < u"
    and "Next t = Some u \<Longrightarrow> a \<in> A \<Longrightarrow> t < a \<Longrightarrow> u \<le> a"
  using assms [unfolded activates_def, THEN spec [of _ t]] by auto

text \<open>The walk returns, and what it returns is the last activation up to \<open>now\<close>.\<close>

lemma occurrence_walk_spec:
  assumes act: "activates Next A" and "\<forall>a \<in> A. a \<le> t \<longrightarrow> now - lookback < a \<longrightarrow> (\<exists>o'. occ = Some o' \<and> a \<le> o')"
    and "case occ of None \<Rightarrow> True | Some o' \<Rightarrow> o' \<in> A \<and> now - lookback < o' \<and> o' \<le> now \<and> o' \<le> t" and "now - lookback \<le> t"
  shows "\<exists>r. occurrence_walk Next now t occ = Some r \<and>
    (case r of
       None \<Rightarrow> \<forall>a \<in> A. \<not> (now - lookback < a \<and> a \<le> now)
     | Some o' \<Rightarrow> o' \<in> A \<and> now - lookback < o' \<and> o' \<le> now \<and> (\<forall>a \<in> A. a \<le> now \<longrightarrow> now - lookback < a \<longrightarrow> a \<le> o'))"
  using assms(2-)
proof (induction "nat (now - t)" arbitrary: t occ rule: less_induct)
  case less
  show ?case
  proof (cases "Next t")
    case None
    then have "occurrence_walk Next now t occ = Some occ" by (simp add: occurrence_walk.simps)
    moreover have "a \<le> t" if "a \<in> A" for a using activatesD(1) [OF act None that] .
    ultimately show ?thesis using less.prems by (fastforce split: option.splits)
  next
    case (Some nx)
    note nx = activatesD(2) [OF act Some] activatesD(3) [OF act Some]
    show ?thesis
    proof (cases "now < nx")
      case True
      then have "occurrence_walk Next now t occ = Some occ" using Some by (simp add: occurrence_walk.simps)
      moreover have "a \<le> t" if "a \<in> A" "a \<le> now" for a using nx(2) [OF that(1)] that(2) True by force
      ultimately show ?thesis using less.prems by (fastforce split: option.splits)
    next
      case False
      then have walk: "occurrence_walk Next now t occ = occurrence_walk Next now nx (Some nx)"
        using Some by (simp add: occurrence_walk.simps)
      have "\<forall>a \<in> A. a \<le> nx \<longrightarrow> now - lookback < a \<longrightarrow> (\<exists>o'. Some nx = Some o' \<and> a \<le> o')" by simp
      moreover have "nat (now - nx) < nat (now - t)" using False nx(1) by auto
      ultimately show ?thesis
        unfolding walk using less.prems(3) nx(1) False by (intro less.hyps) auto
    qed
  qed
qed

lemma latestOccurrence_spec:
  assumes "activates Next A" "0 \<le> lookback"
  shows "\<exists>r. latestOccurrence Next now lookback = Some r \<and>
    (case r of
       None \<Rightarrow> \<forall>a \<in> A. \<not> (now - lookback < a \<and> a \<le> now)
     | Some o' \<Rightarrow> o' \<in> A \<and> now - lookback < o' \<and> o' \<le> now \<and> (\<forall>a \<in> A. a \<le> now \<longrightarrow> now - lookback < a \<longrightarrow> a \<le> o'))"
  unfolding latestOccurrence_def by (rule occurrence_walk_spec [OF assms(1)]) auto

section \<open>The contract\<close>

lemma fireSchedule_lifecycle: "fireSchedule X C now st occ db = Inr db' \<Longrightarrow> lifecycle db db'"
  by (auto simp: fireSchedule_def rbind_Inr_iff intro: StartRunOpts_lifecycle)

lemma sweep_trigger_lifecycle: "sweep_trigger X C now db st = Some db' \<Longrightarrow> lifecycle db db'"
  by (auto simp: sweep_trigger_def intro: fireSchedule_lifecycle split: sum.splits option.splits)

lemma sweep_fold_None: "foldl (\<lambda>acc st. Option.bind acc (\<lambda>db. f db st)) None sts = None"
  by (induction sts) auto

lemma sweep_fold_lifecycle:
  "foldl (\<lambda>acc st. Option.bind acc (\<lambda>db. sweep_trigger X C now db st)) (Some db) sts = Some db' \<Longrightarrow> lifecycle db db'"
proof (induction sts arbitrary: db)
  case (Cons st sts)
  then obtain db1 where db1: "sweep_trigger X C now db st = Some db1"
    "foldl (\<lambda>acc st. Option.bind acc (\<lambda>db. sweep_trigger X C now db st)) (Some db1) sts = Some db'"
    by (cases "sweep_trigger X C now db st") (auto simp: sweep_fold_None)
  with Cons.IH sweep_trigger_lifecycle show ?case by (blast intro: lifecycle_trans)
qed simp

interpretation scheduler: task_lifecycle "\<lambda>db db'. \<exists>X C now. sweepSchedules X C now db = Some db'"
  by unfold_locales (auto simp: sweepSchedules_def intro: sweep_fold_lifecycle)

section \<open>Properties\<close>

text \<open>
  C28. The walk over a schedule returns and finds the latest due activation. For every schedule that
  keeps the contract of the cron library, \<^verbatim>\<open>latestOccurrence\<close> terminates; it answers with the last
  activation in the window from \<open>now - lookback\<close>, exclusive, to \<open>now\<close>, inclusive, and finds nothing
  only when the window has none.
\<close>

theorem latestOccurrence_finds_the_last_activation:
  assumes "activates Next A" and "0 \<le> lookback"
  shows "\<exists>r. latestOccurrence Next now lookback = Some r \<and>
    (case r of
       None \<Rightarrow> \<forall>a \<in> A. \<not> (now - lookback < a \<and> a \<le> now)
     | Some occ \<Rightarrow> occ \<in> A \<and> now - lookback < occ \<and> occ \<le> now \<and>
         (\<forall>a \<in> A. a \<le> now \<longrightarrow> now - lookback < a \<longrightarrow> a \<le> occ))"
  by (rule latestOccurrence_spec [OF assms])

definition demo_minutely :: schedule where
  "demo_minutely t = Some ((t div Minute + 1) * Minute)"

lemma demo_minutely_activates: "activates demo_minutely {m. m mod Minute = 0}"
proof -
  have pos: "(0::int) < Minute" by (simp add: Minute_def Second_def)
  have after: "t < (t div Minute + 1) * Minute" for t
    using pos by (metis (no_types, lifting) add.commute mult.commute div_mult_mod_eq pos_mod_bound
        add_strict_left_mono distrib_left mult.right_neutral)
  have first: "(t div Minute + 1) * Minute \<le> a" if "a mod Minute = 0" "t < a" for a t
  proof -
    from that(1) obtain q where q: "a = q * Minute" by (metis mod_0_imp_dvd dvd_def mult.commute)
    have "t div Minute * Minute \<le> t"
      using div_mult_mod_eq [of t Minute] pos_mod_sign [OF pos, of t] by linarith
    with that(2) q have "t div Minute * Minute < q * Minute" by simp
    with pos have "t div Minute < q" by (simp add: mult_less_cancel_right)
    then show ?thesis unfolding q using pos by (intro mult_right_mono) auto
  qed
  show ?thesis by (simp add: activates_def demo_minutely_def after first)
qed

theorem latestOccurrence_finds_the_last_activation_witness:
  "\<exists>r. latestOccurrence demo_minutely (130 * Second) lookbackWindow = Some r \<and>
    (case r of
       None \<Rightarrow> \<forall>a \<in> {m. m mod Minute = 0}. \<not> (130 * Second - lookbackWindow < a \<and> a \<le> 130 * Second)
     | Some occ \<Rightarrow> occ \<in> {m. m mod Minute = 0} \<and> 130 * Second - lookbackWindow < occ \<and> occ \<le> 130 * Second \<and>
         (\<forall>a \<in> {m. m mod Minute = 0}. a \<le> 130 * Second \<longrightarrow> 130 * Second - lookbackWindow < a \<longrightarrow> a \<le> occ))"
  by (rule latestOccurrence_finds_the_last_activation [OF demo_minutely_activates])
    (simp add: lookbackWindow_def Second_def)

text \<open>
  C29. No activation is missed between two sweeps. When an activation falls between two consecutive
  sweeps that are less than the look-back window apart, and no two activations are closer together
  than the sweeps, the second sweep selects exactly that activation.
\<close>

theorem no_activation_is_missed:
  assumes act: "activates Next A" and a: "a \<in> A" "t0 < a" "a \<le> t1"
    and gap: "t1 - t0 \<le> gap" "t1 - t0 < lookback" and apart: "\<forall>b \<in> A. b \<noteq> a \<longrightarrow> gap \<le> \<bar>b - a\<bar>"
  shows "latestOccurrence Next t1 lookback = Some (Some a)"
proof -
  obtain r where r: "latestOccurrence Next t1 lookback = Some r"
    and spec: "case r of
       None \<Rightarrow> \<forall>a \<in> A. \<not> (t1 - lookback < a \<and> a \<le> t1)
     | Some o' \<Rightarrow> o' \<in> A \<and> t1 - lookback < o' \<and> o' \<le> t1 \<and> (\<forall>a \<in> A. a \<le> t1 \<longrightarrow> t1 - lookback < a \<longrightarrow> a \<le> o')"
    using latestOccurrence_spec [OF act, of lookback t1] a gap by auto
  have win: "t1 - lookback < a" using a(2) gap(2) by simp
  with spec a obtain o' where o: "r = Some o'" "o' \<in> A" "o' \<le> t1" "a \<le> o'" by (cases r) auto
  have "o' = a"
  proof (rule ccontr)
    assume "o' \<noteq> a"
    with apart o(2) have "gap \<le> \<bar>o' - a\<bar>" by blast
    with o a gap show False by linarith
  qed
  with r o show ?thesis by simp
qed

theorem no_activation_is_missed_witness:
  "latestOccurrence demo_minutely (75 * Second) lookbackWindow = Some (Some Minute)"
proof (rule no_activation_is_missed [OF demo_minutely_activates])
  show "Minute \<in> {m. m mod Minute = 0}" by simp
  show "45 * Second < Minute" "Minute \<le> 75 * Second" "75 * Second - 45 * Second < lookbackWindow"
    by (simp_all add: Minute_def Second_def lookbackWindow_def)
  show "75 * Second - 45 * Second \<le> 30 * Second" by simp
  show "\<forall>b \<in> {m. m mod Minute = 0}. b \<noteq> Minute \<longrightarrow> 30 * Second \<le> \<bar>b - Minute\<bar>"
  proof (intro ballI impI)
    fix b :: int assume "b \<in> {m. m mod Minute = 0}" "b \<noteq> Minute"
    then obtain q where q: "b = Minute * q" using mod_0_imp_dvd [of b Minute] by (auto elim: dvdE)
    with \<open>b \<noteq> Minute\<close> have "q \<le> 0 \<or> 2 \<le> q" by (cases "q = 1") auto
    with q show "30 * Second \<le> \<bar>b - Minute\<bar>" unfolding Minute_def Second_def by linarith
  qed
qed

text \<open>
  An occurrence starts one run. Once a sweep has fired an occurrence of a trigger, every later
  sweep, on any replica and at any time, that fires the same occurrence leaves the store as it is.
\<close>

lemma scheduled_occurrence_fires_once:
  assumes fire: "fireSchedule X C now st occ db = Inr db1" and later: "lifecycle db1 db2" "wf_store db2"
    and ready: "select_version db2 (sc_workspaceID st) (sc_workflowID st) = Inr v"
      "Marshal (JObj [(''scheduled_for'', JStr (format_RFC3339 C occ))]) = Inr s" "jsonb_ok X s"
  shows "fireSchedule X C now' st occ db2 = Inr db2"
proof -
  let ?opts = "\<lparr>ro_TriggerID = Some (sc_id st), ro_IdempotencyKey = schedule_key X (sc_id st) occ\<rparr>"
  from fire obtain rid created where
    first: "StartRunOpts X now (sc_workspaceID st) (sc_workflowID st)
      (JObj [(''scheduled_for'', JStr (format_RFC3339 C occ))]) ?opts db = Inr (rid, created, db1)"
    by (auto simp: fireSchedule_def rbind_Inr_iff)
  have key: "ro_IdempotencyKey ?opts \<noteq> []" by (simp add: schedule_key_def)
  show ?thesis
    using StartRunOpts_replay [OF first key refl later ready] by (simp add: fireSchedule_def)
qed

definition demo_cron :: cron_env where
  "demo_cron = \<lparr>cron_ParseStandard = (\<lambda>_. Inr demo_minutely), config_cron = (\<lambda>_. Some ''* * * * *''),
     format_RFC3339 = (\<lambda>t. ''1970-01-01T00:01:00Z'')\<rparr>"

text \<open>
  Interval schedules longer than the look-back window never fire. The library parses
  \<^verbatim>\<open>@every <duration>\<close> to a schedule whose next activation is the duration after the time it is asked
  for, rounded down to the second; when the duration exceeds the ninety-second window by at least a
  second, no sweep at any time selects an occurrence.
\<close>

lemma long_interval_schedules_never_fire:
  assumes "\<forall>t. Next t = Some (t + delay - t mod Second)" and "lookbackWindow + Second \<le> delay"
  shows "latestOccurrence Next now lookbackWindow = Some None"
proof -
  let ?t = "now - lookbackWindow"
  have "?t mod Second < Second" by (simp add: Second_def)
  with assms(2) have "now < ?t + delay - ?t mod Second" by linarith
  with assms(1) show ?thesis by (simp add: latestOccurrence_def occurrence_walk.simps)
qed

end
