(* ===== verification/Expressions.thy ===== *)
theory Expressions
  imports Store Go_Json
begin

text \<open>
  Expressions: the calls into the JavaScript engine (\<^verbatim>\<open>runJS\<close>, \<^verbatim>\<open>EvalExpression\<close> of
  \<^verbatim>\<open>internal/steps/native.go\<close>), the frozen context they see (\<^verbatim>\<open>buildRunContext\<close>) and the
  \<^verbatim>\<open>{{ }}\<close> interpolation of step configurations (\<^verbatim>\<open>internal/engine/execute.go\<close>). The engine
  itself is \<open>goja_RunString\<close>; its time limit and cancellation surface as an error result.
\<close>

section \<open>Evaluation\<close>

definition newline :: string where
  "newline = [CHR 0x0A]"

definition runJS :: "externals \<Rightarrow> string \<Rightarrow> (string \<times> json) list \<Rightarrow> json result" where
  "runJS X script runContext =
     goja_RunString X runContext (''(function(){'' @ newline @ script @ newline @ ''})()'')"

definition EvalExpression :: "externals \<Rightarrow> string \<Rightarrow> (string \<times> json) list \<Rightarrow> json result" where
  "EvalExpression X expr runContext = runJS X (''return ('' @ expr @ '')'') runContext"

section \<open>The frozen context\<close>

text \<open>\<^verbatim>\<open>_ = json.Unmarshal(raw, &out)\<close>: an empty or malformed text leaves nil.\<close>

definition decoded :: "externals \<Rightarrow> string \<Rightarrow> json" where
  "decoded X raw = (if raw = [] then JNull else (case json_Unmarshal X raw of Inr v \<Rightarrow> v | Inl _ \<Rightarrow> JNull))"

definition context_rows :: "db \<Rightarrow> uuid \<Rightarrow> string set \<Rightarrow> task_row list" where
  "context_rows db rid allowed =
     distinct_on_step
       (filter (\<lambda>t. t_status t = TSucceeded \<and> t_step_key t \<in> allowed) (run_tasks db rid))"

definition buildRunContext ::
  "externals \<Rightarrow> db \<Rightarrow> uuid \<Rightarrow> string \<Rightarrow> string set \<Rightarrow> (string \<times> json) list" where
  "buildRunContext X db rid runInputRaw allowed =
     [(''input'', decoded X runInputRaw),
      (''steps'', JObj (map (\<lambda>t. (t_step_key t, decoded X (case t_output t of Some o' \<Rightarrow> o' | None \<Rightarrow> [])))
         (context_rows db rid allowed)))]"

section \<open>Interpolation\<close>

text \<open>
  The pattern \<^verbatim>\<open>\{\{(.+?)\}\}\<close>: \<open>expr_body\<close> reads, after the opening braces, the shortest
  non-empty run of bytes without a newline that is followed by the closing braces.
\<close>

fun expr_body :: "string \<Rightarrow> (string \<times> string) option" where
  "expr_body [] = None"
| "expr_body (c # s) =
     (if c = CHR 0x0A then None
      else if HasPrefix s [CHR 0x7D, CHR 0x7D] then Some ([c], drop 2 s)
      else case expr_body s of None \<Rightarrow> None | Some (i, r) \<Rightarrow> Some (c # i, r))"

lemma expr_body_length: "expr_body s = Some (i, r) \<Longrightarrow> length r < length s"
  by (induction s arbitrary: i r) (auto split: if_splits option.splits prod.splits)

datatype segment = Lit char | Expr string

function (sequential) segments :: "string \<Rightarrow> segment list" where
  "segments [] = []"
| "segments (c # s) =
     (case (if HasPrefix (c # s) [CHR 0x7B, CHR 0x7B] then expr_body (drop 2 (c # s)) else None) of
        Some (i, r) \<Rightarrow> Expr i # segments r
      | None \<Rightarrow> Lit c # segments s)"
  by pat_completeness auto
termination
  by (relation "measure length") (auto split: if_splits dest!: expr_body_length)

fun is_expr :: "segment \<Rightarrow> bool" where
  "is_expr (Expr i) = True"
| "is_expr (Lit c) = False"

definition stringify :: "json \<Rightarrow> string" where
  "stringify v = (case v of JStr s \<Rightarrow> s | JNull \<Rightarrow> [] | _ \<Rightarrow> marshalJSON v)"

text \<open>
  The callback of \<^verbatim>\<open>ReplaceAllStringFunc\<close> runs on every match even after a failure and keeps
  the last error.
\<close>

fun render_segments ::
  "externals \<Rightarrow> (string \<times> json) list \<Rightarrow> go_error option \<Rightarrow> segment list \<Rightarrow> go_error option \<times> string" where
  "render_segments X ctx failure [] = (failure, [])"
| "render_segments X ctx failure (Lit c # ss) =
     (let (f, out) = render_segments X ctx failure ss in (f, c # out))"
| "render_segments X ctx failure (Expr i # ss) =
     (case EvalExpression X (TrimSpace i) ctx of
        Inl e \<Rightarrow> render_segments X ctx (Some e) ss
      | Inr v \<Rightarrow> (let (f, out) = render_segments X ctx failure ss in (f, stringify v @ out)))"

definition config_error :: "string \<Rightarrow> go_error \<Rightarrow> go_error" where
  "config_error k e = Wrapf (''config '' @ quote k) e"

definition interpolate_value ::
  "externals \<Rightarrow> (string \<times> json) list \<Rightarrow> string \<Rightarrow> json \<Rightarrow> json result" where
  "interpolate_value X ctx k v =
     (case v of
        JStr s \<Rightarrow>
          (let segs = segments s in
           if \<not> list_ex is_expr segs then Inr v
           else (case segs of
               [Expr i] \<Rightarrow>
                 (case EvalExpression X (TrimSpace i) ctx of
                    Inl e \<Rightarrow> Inl (config_error k e)
                  | Inr r \<Rightarrow> Inr r)
             | _ \<Rightarrow>
                 (case render_segments X ctx None segs of
                    (Some e, _) \<Rightarrow> Inl (config_error k e)
                  | (None, out) \<Rightarrow> Inr (JStr out))))
      | _ \<Rightarrow> Inr v)"

definition interpolateConfig ::
  "externals \<Rightarrow> (string \<times> json) list \<Rightarrow> (string \<times> json) list \<Rightarrow> (string \<times> json) list result" where
  "interpolateConfig X config runContext =
     rmap (\<lambda>(k, v). rbind (interpolate_value X runContext k v) (\<lambda>r. Inr (k, r))) config"

end
