(* ===== verification/Redact.thy ===== *)
theory Redact
  imports Go_Json
begin

text \<open>
  The redactor (\<^verbatim>\<open>internal/engine/redact.go\<close>): secret values of at least four bytes, and their
  JSON-escaped forms, are replaced in everything the engine persists or logs. The secrets are a
  list because Go ranges over a map in an arbitrary order; the theorems hold for every order.
\<close>

section \<open>Model\<close>

record redactor =
  rd_values :: "string list"

definition redactedMark :: string where
  "redactedMark = ''[redacted]''"

definition redactor_entries :: "string \<Rightarrow> string list" where
  "redactor_entries v =
     (if 4 \<le> length v
      then v # (if escape v \<noteq> v then [escape v] else [])
      else [])"

definition newRedactor :: "(string \<times> string) list \<Rightarrow> redactor" where
  "newRedactor secrets =
     \<lparr>rd_values = sort_key (\<lambda>v. - int (length v)) (concat (map (redactor_entries \<circ> snd) secrets))\<rparr>"

text \<open>A nil redactor is \<open>None\<close>.\<close>

definition redact_String :: "redactor option \<Rightarrow> string \<Rightarrow> string" where
  "redact_String r s =
     (case r of
        None \<Rightarrow> s
      | Some r' \<Rightarrow> foldl (\<lambda>s v. ReplaceAll s v redactedMark) s (rd_values r'))"

definition redact_JSON :: "redactor option \<Rightarrow> string \<Rightarrow> string" where
  "redact_JSON r b = (if r = None \<or> b = [] then b else redact_String r b)"

section \<open>What replacement leaves behind\<close>

text \<open>
  \<open>hidden v\<close>: the value has no bracket and is no part of the mark itself, so an occurrence of it in
  a redacted text would have to lie in the original text.
\<close>

definition hidden :: "string \<Rightarrow> bool" where
  "hidden v \<longleftrightarrow> v \<noteq> [] \<and> CHR ''['' \<notin> set v \<and> CHR '']'' \<notin> set v \<and> \<not> Contains ''redacted'' v"

lemma hidden_not_in_mark:
  assumes "hidden v"
  shows "\<not> Contains redactedMark v"
proof
  assume "Contains redactedMark v"
  then obtain a b where ab: "CHR ''['' # ''redacted'' @ [CHR '']''] = a @ v @ b"
    by (auto simp: Contains_iff redactedMark_def)
  have v: "v \<noteq> []" "CHR ''['' \<notin> set v" "CHR '']'' \<notin> set v"
    using assms by (auto simp: hidden_def)
  obtain a' where a': "a = CHR ''['' # a'"
    using ab v by (cases a; cases v) auto
  with ab have ab': "''redacted'' @ [CHR '']''] = (a' @ v) @ b" by simp
  obtain b' where "b = b' @ [CHR '']'']"
    using ab' v by (cases b rule: rev_cases) (auto simp: append_eq_append_conv2 Cons_eq_append_conv)
  with ab' have "''redacted'' = a' @ v @ b'" by simp
  with assms show False by (auto simp: hidden_def Contains_iff)
qed

text \<open>
  An occurrence of a bracket-free \<open>v\<close> in a concatenation around the mark lies on one side of it or
  inside it.
\<close>

lemma Contains_cut:
  assumes "c \<notin> set v" and "v \<noteq> []" and "Contains (a @ c # b) v"
  shows "Contains a v \<or> Contains b v"
proof -
  from assms(3) obtain p q where pq: "a @ c # b = p @ v @ q"
    by (auto simp: Contains_iff)
  have "c \<notin> set v" by fact
  from pq consider u where "p = a @ c # u" "b = u @ v @ q" | w where "a = p @ v @ w"
    using \<open>c \<notin> set v\<close>
    by (auto simp: append_eq_append_conv2 Cons_eq_append_conv)
  then show ?thesis by cases (auto simp: Contains_iff)
qed


lemma Contains_around_mark:
  assumes "hidden v" and "Contains (a @ redactedMark @ b) v"
  shows "Contains a v \<or> Contains b v"
proof -
  have v: "CHR ''['' \<notin> set v" "CHR '']'' \<notin> set v" "v \<noteq> []"
    using assms(1) by (auto simp: hidden_def)
  have "Contains (a @ CHR ''['' # (''redacted'' @ CHR '']'' # b)) v"
    using assms(2) by (simp add: redactedMark_def)
  then have "Contains a v \<or> Contains (''redacted'' @ CHR '']'' # b) v"
    by (rule Contains_cut [OF v(1,3)])
  moreover have "Contains (''redacted'' @ CHR '']'' # b) v \<Longrightarrow> Contains ''redacted'' v \<or> Contains b v"
    by (rule Contains_cut [OF v(2,3)])
  ultimately show ?thesis using assms(1) by (auto simp: hidden_def)
qed

text \<open>Replacing some other value never creates an occurrence of \<open>v\<close>.\<close>

lemma ReplaceAll_no_new:
  assumes "hidden v"
  shows "Contains (p @ ReplaceAll s w redactedMark) v \<Longrightarrow> Contains (p @ s) v"
proof (induction s w redactedMark arbitrary: p rule: ReplaceAll.induct)
  case (2 c s w)
  show ?case
  proof (cases "w \<noteq> [] \<and> HasPrefix (c # s) w")
    case True
    then obtain t where t: "c # s = w @ t" by (auto simp: HasPrefix_iff)
    with True "2.prems" have "Contains (p @ redactedMark @ ReplaceAll t w redactedMark) v"
      by (simp add: ReplaceAll_prefix)
    then have "Contains p v \<or> Contains (ReplaceAll t w redactedMark) v"
      by (rule Contains_around_mark [OF assms])
    moreover have "Contains t v" if "Contains (ReplaceAll t w redactedMark) v"
      using "2.hyps"(1) [OF True, of "[]"] that t by simp
    ultimately show ?thesis
      using t by (auto intro: Contains_append_left Contains_append_right)
  next
    case False
    with "2.prems" have "Contains ((p @ [c]) @ ReplaceAll s w redactedMark) v" by auto
    from "2.hyps"(2) [OF False this] show ?thesis by simp
  qed
qed simp

text \<open>Replacing \<open>v\<close> itself leaves no occurrence of it.\<close>

lemma ReplaceAll_removes:
  assumes "hidden v" and "\<And>a b. p @ s = a @ v @ b \<Longrightarrow> length p \<le> length a"
  shows "\<not> Contains (p @ ReplaceAll s v redactedMark) v"
  using assms
proof (induction s v redactedMark arbitrary: p rule: ReplaceAll.induct)
  case (1 v)
  show ?case
  proof
    assume "Contains (p @ ReplaceAll [] v redactedMark) v"
    then obtain a b where ab: "p = a @ v @ b" by (auto simp: Contains_iff)
    with "1"(2) [of a b] have "length p \<le> length a" by simp
    moreover have "v \<noteq> []" using "1"(1) by (simp add: hidden_def)
    ultimately show False using ab by simp
  qed
next
  case (2 c s v)
  note hv = "2.prems"(1)
  have v: "v \<noteq> []" using hv by (simp add: hidden_def)
  have p: "\<not> Contains p v"
  proof
    assume "Contains p v"
    then obtain a b where ab: "p = a @ v @ b" by (auto simp: Contains_iff)
    with "2.prems"(2) [of a "b @ c # s"] v show False by simp
  qed
  show ?case
  proof (cases "v \<noteq> [] \<and> HasPrefix (c # s) v")
    case True
    then obtain t where t: "c # s = v @ t" by (auto simp: HasPrefix_iff)
    have "\<not> Contains (ReplaceAll t v redactedMark) v"
      using "2.hyps"(1) [OF True hv, of "[]"] t by simp
    with p Contains_around_mark [OF hv] True t show ?thesis by (auto simp: ReplaceAll_prefix)
  next
    case False
    have "length (p @ [c]) \<le> length a" if "(p @ [c]) @ s = a @ v @ b" for a b
    proof (rule ccontr)
      assume "\<not> length (p @ [c]) \<le> length a"
      with "2.prems"(2) [of a b] that have "length a = length p" by simp
      with that have "c # s = v @ b" by (simp add: append_eq_append_conv)
      with False v show False by (simp add: HasPrefix_iff)
    qed
    then have "\<not> Contains ((p @ [c]) @ ReplaceAll s v redactedMark) v"
      using "2.hyps"(2) [OF False hv] by blast
    with False show ?thesis by auto
  qed
qed

lemma redact_fold_keeps_out:
  assumes "hidden v" and "\<not> Contains s v"
  shows "\<not> Contains (foldl (\<lambda>s w. ReplaceAll s w redactedMark) s vs) v"
  using assms(2)
proof (induction vs arbitrary: s)
  case (Cons w vs)
  have "\<not> Contains (ReplaceAll s w redactedMark) v"
    using ReplaceAll_no_new [OF assms(1), of "[]" s w] Cons.prems by auto
  with Cons.IH show ?case by simp
qed simp

lemma redact_fold_removes:
  assumes "hidden v" and "v \<in> set vs"
  shows "\<not> Contains (foldl (\<lambda>s w. ReplaceAll s w redactedMark) s vs) v"
  using assms(2)
proof (induction vs arbitrary: s)
  case (Cons w vs)
  show ?case
  proof (cases "w = v")
    case True
    have "\<not> Contains (ReplaceAll s v redactedMark) v"
      using ReplaceAll_removes [OF assms(1), of "[]" s] by simp
    with True redact_fold_keeps_out [OF assms(1)] show ?thesis by simp
  next
    case False
    with Cons show ?thesis by simp
  qed
qed simp

lemma set_newRedactor:
  "set (rd_values (newRedactor secrets)) =
     {x. \<exists>v \<in> snd ` set secrets. 4 \<le> length v \<and> (x = v \<or> x = escape v)}"
  by (auto simp: newRedactor_def redactor_entries_def split: if_splits)

lemma redact_fold_id:
  "\<forall>v \<in> set vs. \<not> Contains s v \<Longrightarrow> foldl (\<lambda>s w. ReplaceAll s w redactedMark) s vs = s"
  by (induction vs) (simp_all add: ReplaceAll_id)

lemma redact_JSON_hides:
  assumes "(name, v) \<in> set secrets" "4 \<le> length v" "hidden v"
  shows "\<not> Contains (redact_JSON (Some (newRedactor secrets)) s) v"
proof -
  have "v \<in> set (rd_values (newRedactor secrets))" using assms(1,2) by (force simp: set_newRedactor)
  with assms(3) have "\<not> Contains (redact_String (Some (newRedactor secrets)) s) v"
    by (simp add: redact_String_def redact_fold_removes)
  moreover have "\<not> Contains [] v" using assms(3) by (simp add: hidden_def)
  ultimately show ?thesis by (simp add: redact_JSON_def)
qed

text \<open>
  After redaction no secret of the workspace of at least four bytes occurs in the text, neither
  verbatim nor in its JSON-escaped form, whatever the order of the secrets and whatever the text.
  The side condition excludes values that contain a bracket or are a part of the word the mark
  consists of, which the mark itself would show.
\<close>

lemma redaction_removes_secrets:
  assumes "(name, v) \<in> set secrets" and "4 \<le> length v" and "hidden v" and "hidden (escape v)"
  shows "\<not> Contains (redact_String (Some (newRedactor secrets)) s) v \<and>
    \<not> Contains (redact_String (Some (newRedactor secrets)) s) (escape v)"
proof -
  have "v \<in> set (rd_values (newRedactor secrets))" "escape v \<in> set (rd_values (newRedactor secrets))"
    using assms(1,2) by (force simp: set_newRedactor)+
  with assms(3,4) show ?thesis
    by (simp add: redact_String_def redact_fold_removes)
qed

text \<open>
  Redaction is the identity on a text that contains none of the stored values, so it never
  alters data that holds no secret.
\<close>

lemma redaction_keeps_clean_text:
  assumes "\<forall>v \<in> set (rd_values (newRedactor secrets)). \<not> Contains s v"
  shows "redact_String (Some (newRedactor secrets)) s = s \<and> redact_JSON (Some (newRedactor secrets)) s = s"
  using assms by (simp add: redact_String_def redact_JSON_def redact_fold_id)

end
