(* ===== verification/Execute.thy ===== *)
theory Execute
  imports Runs Expressions Redact
begin

text \<open>
  \<^verbatim>\<open>executeTaskWorker\<close> (\<^verbatim>\<open>internal/engine/execute.go\<close>). \<^verbatim>\<open>Work\<close> is not one transaction but four
  database phases with arbitrary time between them, each a function of the store it runs on:
  \<open>work_prepare\<close> reads the task and its context and interpolates the configuration, \<open>work_start\<close> is
  the guarded transition to \<^verbatim>\<open>running\<close>, the executor runs outside the database, and \<open>work_end\<close>
  records its outcome through \<open>finishTask\<close> or \<open>suspendTask\<close>. Secrets and executors are parameters
  (\<open>engine\<close>).
\<close>

section \<open>Model\<close>

record suspend =
  Kind :: string
  ResumeAt :: "timestamp option"
  Output :: json

datatype exec_error = Suspend suspend | ExecErr go_error

record task_input =
  ti_WorkspaceID :: uuid
  ti_RunID :: uuid
  ti_TaskID :: uuid
  ti_StepKey :: string
  ti_Config :: "(string \<times> json) list"
  ti_Context :: "(string \<times> json) list"

type_synonym executor = "task_input \<Rightarrow> json \<times> exec_error option"

record engine =
  Secrets :: "(uuid \<Rightarrow> (string \<times> string) list result) option"
  Registry :: "string \<Rightarrow> executor option"

record task_ref =
  tf_id :: uuid
  tf_runID :: uuid
  tf_workspaceID :: uuid
  tf_stepKey :: string
  tf_attempt :: int
  tf_retries :: int
  tf_redact :: "redactor option"

text \<open>\<^verbatim>\<open>time.Duration(1<<t.attempt) * time.Second\<close> in 64-bit arithmetic.\<close>

definition backoff :: "int \<Rightarrow> int" where
  "backoff attempt = sint (push_bit (nat attempt) 1 * word_of_int Second :: 64 word)"

definition finish_row :: "timestamp \<Rightarrow> task_status \<Rightarrow> string \<Rightarrow> string option \<Rightarrow> task_row \<Rightarrow> task_row" where
  "finish_row now st out err t =
     t\<lparr>t_status := st, t_output := Some out, t_error := err, t_finished_at := Some now\<rparr>"

definition finishTask ::
  "externals \<Rightarrow> timestamp \<Rightarrow> task_ref \<Rightarrow> task_status \<Rightarrow> json \<Rightarrow> go_error option \<Rightarrow> db \<Rightarrow> db result" where
  "finishTask X now t status output taskErr db =
     (let errJSON = map_option (\<lambda>e. message_json (redact_String (tf_redact t) (error_text e))) taskErr;
          outJSON = redact_JSON (tf_redact t) (marshalJSON output);
          guard = (\<lambda>r. t_id r = tf_id t \<and> t_status r \<in> {TQueued, TRunning}) in
      if \<not> jsonb_ok X outJSON \<or> (case errJSON of None \<Rightarrow> False | Some e \<Rightarrow> \<not> jsonb_ok X e)
      then Inl InvalidTextRepresentation
      else if tasks_affected guard db = 0 then Inr db
      else
        rbind
          (let db1 = update_tasks guard (finish_row now status outJSON errJSON) db in
           if status = TFailed \<and> tf_attempt t \<le> tf_retries t
           then insert_attempt X now (tf_runID t) (tf_workspaceID t) (tf_stepKey t) (tf_attempt t + 1)
             (Some (now + backoff (tf_attempt t))) db1
           else Inr db1)
          (\<lambda>db2. Inr (InsertTx (AdvanceRunArgs (tf_runID t)) None db2)))"

text \<open>\<^verbatim>\<open>generateResumeToken\<close> from 24 random bytes.\<close>

definition generateResumeToken :: "externals \<Rightarrow> string \<Rightarrow> string \<times> string" where
  "generateResumeToken X b =
     (let raw = ''rsm_'' @ hex_EncodeToString b in (raw, hex_EncodeToString (sha256_Sum256 X raw)))"

definition suspended_output :: "string \<Rightarrow> suspend \<Rightarrow> json" where
  "suspended_output rawToken susp =
     (if Kind susp = ''callback'' then
        JObj (foldl (\<lambda>merged p. AList.update (fst p) (snd p) merged)
          [(''resume_url'', JStr (''/resume/'' @ rawToken))]
          (case Output susp of JObj m \<Rightarrow> m | _ \<Rightarrow> []))
      else Output susp)"

definition suspendTask :: "externals \<Rightarrow> string \<Rightarrow> task_ref \<Rightarrow> suspend \<Rightarrow> db \<Rightarrow> db result" where
  "suspendTask X rnd t susp db =
     (let (rawToken, hashedToken) = generateResumeToken X rnd;
          outJSON = redact_JSON (tf_redact t) (marshalJSON (suspended_output rawToken susp));
          guard = (\<lambda>r. t_id r = tf_id t \<and> t_status r = TRunning) in
      if \<not> jsonb_ok X outJSON then Inl InvalidTextRepresentation
      else if tasks_affected guard db = 0 then Inr db
      else rbind
        (insert_suspension
          \<lparr>su_task_id = tf_id t, su_workspace_id = tf_workspaceID t, su_kind = Kind susp,
           su_resume_token = hashedToken, su_resume_at = ResumeAt susp, su_payload = outJSON\<rparr>
          (update_tasks guard (\<lambda>r. r\<lparr>t_status := TSuspended, t_output := Some outJSON\<rparr>) db))
        (\<lambda>db1. case ResumeAt susp of
           None \<Rightarrow> Inr db1
         | Some at \<Rightarrow> Inr (InsertTx (ResumeTaskArgs (tf_id t)) (Some at) db1)))"

section \<open>The phases of \<^verbatim>\<open>Work\<close>\<close>

definition load_task :: "db \<Rightarrow> uuid \<Rightarrow> (task_row \<times> run_row \<times> json) result" where
  "load_task db tid =
     (case find_task db tid of
        None \<Rightarrow> Inl ErrNoRows
      | Some t \<Rightarrow>
          (case find_run db (t_run_id t) of
             None \<Rightarrow> Inl ErrNoRows
           | Some r \<Rightarrow>
               (case find_version db (r_version_id r) of
                  None \<Rightarrow> Inl ErrNoRows
                | Some v \<Rightarrow> Inr (t, r, v_definition v))))"

text \<open>
  The outcome of a phase: \<open>Returned db\<close> ends \<^verbatim>\<open>Work\<close> with a nil error, \<open>Ready\<close> goes on with the
  task reference, the step, its executor, configuration and context.
\<close>

datatype phase =
    Returned db
  | Ready task_ref step executor "(string \<times> json) list" "(string \<times> json) list"

definition fail_task :: "externals \<Rightarrow> timestamp \<Rightarrow> task_ref \<Rightarrow> go_error \<Rightarrow> db \<Rightarrow> phase result" where
  "fail_task X now t e db = rbind (finishTask X now t TFailed JNull (Some e) db) (\<lambda>db'. Inr (Returned db'))"

definition load_secrets :: "engine \<Rightarrow> uuid \<Rightarrow> (string \<times> string) list result" where
  "load_secrets E ws = (case Secrets E of None \<Rightarrow> Inr [] | Some f \<Rightarrow> f ws)"

definition bind_secrets :: "(string \<times> string) list \<Rightarrow> (string \<times> json) list \<Rightarrow> (string \<times> json) list" where
  "bind_secrets secrets ctx = AList.update ''secrets'' (JObj (map (\<lambda>(k, v). (k, JStr v)) secrets)) ctx"

definition work_prepare :: "externals \<Rightarrow> engine \<Rightarrow> timestamp \<Rightarrow> uuid \<Rightarrow> db \<Rightarrow> phase result" where
  "work_prepare X E now taskID db =
     (case load_task db taskID of
        Inl e \<Rightarrow> Inl (Wrapf (''load task '' @ uuid_String X taskID) e)
      | Inr (row, run, definitionRaw) \<Rightarrow>
          if t_status row \<noteq> TQueued then Inr (Returned db)
          else
            let t0 = \<lparr>tf_id = taskID, tf_runID = t_run_id row, tf_workspaceID = t_workspace_id row,
                   tf_stepKey = t_step_key row, tf_attempt = t_attempt row, tf_retries = 0, tf_redact = None\<rparr> in
            (case load_secrets E (t_workspace_id row) of
               Inl e \<Rightarrow> fail_task X now t0 (Wrapf ''load secrets'' e) db
             | Inr secrets \<Rightarrow>
                 let t1 = t0\<lparr>tf_redact := Some (newRedactor secrets)\<rparr> in
                 (case Parse definitionRaw of
                    Inl e \<Rightarrow> fail_task X now t1 e db
                  | Inr def \<Rightarrow>
                      (case Step def (t_step_key row) of
                         None \<Rightarrow> fail_task X now t1 (Errorf (''step '' @ quote (t_step_key row) @ '' not in definition'')) db
                       | Some s \<Rightarrow>
                           let t = t1\<lparr>tf_retries := st_retries s\<rparr> in
                           (case Registry E (st_type s) of
                              None \<Rightarrow> fail_task X now t (Errorf (''unknown step type '' @ quote (st_type s))) db
                            | Some ex \<Rightarrow>
                                let ctx = bind_secrets secrets
                                  (buildRunContext X db (r_id run) (r_input run) (TransitiveNeeds def (t_step_key row))) in
                                (case interpolateConfig X (st_config s) ctx of
                                   Inl e \<Rightarrow> fail_task X now t (Wrapf ''interpolation'' e) db
                                 | Inr config \<Rightarrow> Inr (Ready t s ex config ctx)))))))"

text \<open>The guarded transition: \<open>None\<close> when no row was queued any more.\<close>

definition work_start :: "externals \<Rightarrow> timestamp \<Rightarrow> task_ref \<Rightarrow> (string \<times> json) list \<Rightarrow> db \<Rightarrow> db option result" where
  "work_start X now t config db =
     (let input = redact_JSON (tf_redact t) (marshalJSON (JObj config));
          guard = (\<lambda>r. t_id r = tf_id t \<and> t_status r = TQueued) in
      if \<not> jsonb_ok X input then Inl InvalidTextRepresentation
      else if tasks_affected guard db = 0 then Inr None
      else Inr (Some (update_tasks guard
        (\<lambda>r. r\<lparr>t_status := TRunning, t_started_at := Some now, t_input := Some input\<rparr>) db)))"

definition exec_input :: "task_ref \<Rightarrow> (string \<times> json) list \<Rightarrow> (string \<times> json) list \<Rightarrow> task_input" where
  "exec_input t config ctx =
     \<lparr>ti_WorkspaceID = tf_workspaceID t, ti_RunID = tf_runID t, ti_TaskID = tf_id t,
      ti_StepKey = tf_stepKey t, ti_Config = config, ti_Context = ctx\<rparr>"

definition work_end ::
  "externals \<Rightarrow> timestamp \<Rightarrow> string \<Rightarrow> task_ref \<Rightarrow> json \<times> exec_error option \<Rightarrow> db \<Rightarrow> db result" where
  "work_end X now rnd t outcome db =
     (case outcome of
        (out, Some (Suspend susp)) \<Rightarrow> suspendTask X rnd t susp db
      | (out, Some (ExecErr e)) \<Rightarrow> finishTask X now t TFailed out (Some e) db
      | (out, None) \<Rightarrow> finishTask X now t TSucceeded out None db)"

text \<open>\<^verbatim>\<open>Work\<close> when nothing else touches the store in between.\<close>

definition Work_ExecuteTask :: "externals \<Rightarrow> engine \<Rightarrow> timestamp \<Rightarrow> string \<Rightarrow> uuid \<Rightarrow> db \<Rightarrow> db result" where
  "Work_ExecuteTask X E now rnd taskID db =
     rbind (work_prepare X E now taskID db) (\<lambda>p. case p of
       Returned db' \<Rightarrow> Inr db'
     | Ready t s ex config ctx \<Rightarrow>
         rbind (work_start X now t config db) (\<lambda>started. case started of
           None \<Rightarrow> Inr db
         | Some db1 \<Rightarrow> work_end X now rnd t (ex (exec_input t config ctx)) db1))"

section \<open>References to task rows\<close>

text \<open>
  A worker keeps a task reference while other transactions run. \<open>ref_ok\<close> says that the row it was
  read from is still there with the same slot; every transaction keeps it.
\<close>

definition ref_ok :: "task_ref \<Rightarrow> db \<Rightarrow> bool" where
  "ref_ok t db \<longleftrightarrow>
     (\<exists>row \<in> set (tasks db). t_id row = tf_id t \<and> task_slot row = (tf_runID t, tf_stepKey t, tf_attempt t))"

lemma ref_ok_lifecycle: "lifecycle db db' \<Longrightarrow> ref_ok t db \<Longrightarrow> ref_ok t db'"
  unfolding ref_ok_def using lifecycleD(2) unfolding row_evolves_def by metis

lemma find_task_SomeD: "find_task db i = Some t \<Longrightarrow> t \<in> set (tasks db) \<and> t_id t = i"
  by (auto simp: find_task_def dest: find_SomeD)

lemma tasks_affected_pos: "tasks_affected P db \<noteq> 0 \<longleftrightarrow> (\<exists>t \<in> set (tasks db). P t)"
  by (auto simp: tasks_affected_def filter_empty_conv)

lemma keeps_slot_finish [simp]: "st \<noteq> TSkipped \<Longrightarrow> st \<noteq> TQueued \<Longrightarrow> keeps_slot (finish_row now st out err)"
  by (simp add: keeps_slot_def finish_row_def)

text \<open>
  Failing an active task and inserting its next attempt, which \<open>finishTask\<close> and the reaper do in
  the same way: \<open>g\<close> is the update of the row.
\<close>

lemma failed_may_redo:
  assumes wf: "wf_store db" and row: "row \<in> set (tasks db)" "P row"
    and g: "keeps_slot g" "t_status (g row) = TFailed" and act: "\<And>u. P u \<Longrightarrow> task_active (t_status u)"
  shows "may_redo (update_tasks P g db) (t_run_id row) (t_step_key row) (t_attempt row)"
proof -
  have "step_task db (t_run_id row) (t_step_key row) = Some row"
    using active_step_task [OF wf row(1) act [OF row(2)]] .
  then have "step_task (update_tasks P g db) (t_run_id row) (t_step_key row) = Some (g row)"
    using row(2) by (simp add: step_task_update_tasks [OF g(1)])
  with g show ?thesis by (auto simp: may_redo_def task_bad_def keeps_slot_def)
qed

lemma finishTask_cases:
  assumes "finishTask X now t st out e db = Inr db'"
  obtains (dropped) "db' = db" "\<forall>row \<in> set (tasks db). \<not> (t_id row = tf_id t \<and> t_status row \<in> {TQueued, TRunning})"
  | (finished) outJSON errJSON db1 where
      "\<exists>row \<in> set (tasks db). t_id row = tf_id t \<and> t_status row \<in> {TQueued, TRunning}"
      "db1 = update_tasks (\<lambda>r. t_id r = tf_id t \<and> t_status r \<in> {TQueued, TRunning}) (finish_row now st outJSON errJSON) db"
      "\<not> (st = TFailed \<and> tf_attempt t \<le> tf_retries t)" "db' = InsertTx (AdvanceRunArgs (tf_runID t)) None db1"
      "outJSON = redact_JSON (tf_redact t) (marshalJSON out)"
  | (retried) outJSON errJSON db1 db2 where
      "\<exists>row \<in> set (tasks db). t_id row = tf_id t \<and> t_status row \<in> {TQueued, TRunning}"
      "db1 = update_tasks (\<lambda>r. t_id r = tf_id t \<and> t_status r \<in> {TQueued, TRunning}) (finish_row now st outJSON errJSON) db"
      "st = TFailed" "tf_attempt t \<le> tf_retries t"
      "insert_attempt X now (tf_runID t) (tf_workspaceID t) (tf_stepKey t) (tf_attempt t + 1)
         (Some (now + backoff (tf_attempt t))) db1 = Inr db2"
      "db' = InsertTx (AdvanceRunArgs (tf_runID t)) None db2"
      "outJSON = redact_JSON (tf_redact t) (marshalJSON out)"
proof -
  let ?P = "\<lambda>r. t_id r = tf_id t \<and> t_status r \<in> {TQueued, TRunning}"
  consider "tasks_affected ?P db = 0" | "tasks_affected ?P db \<noteq> 0" by blast
  then show thesis
  proof cases
    case 1
    then have "\<forall>row \<in> set (tasks db). \<not> ?P row" using tasks_affected_pos [of ?P db] by blast
    moreover have "db' = db" using assms 1 by (simp add: finishTask_def Let_def split: if_splits)
    ultimately show ?thesis by (intro dropped)
  next
    case 2
    then have ex: "\<exists>row \<in> set (tasks db). ?P row" using tasks_affected_pos [of ?P db] by blast
    show ?thesis
    proof (cases "st = TFailed \<and> tf_attempt t \<le> tf_retries t")
      case True
      with assms 2 show ?thesis
        by (auto simp: finishTask_def Let_def rbind_Inr_iff split: if_splits intro: retried [OF ex refl])
    next
      case False
      with assms 2 show ?thesis
        by (auto simp: finishTask_def Let_def rbind_Inr_iff split: if_splits intro: finished [OF ex refl])
    qed
  qed
qed

lemma finishTask_lifecycle:
  assumes fin: "finishTask X now t st out e db = Inr db'" and st: "st \<noteq> TSkipped" "st \<noteq> TQueued"
    and ref: "ref_ok t db" and wf: "wf_store db"
  shows "lifecycle db db'"
  using fin
proof (cases rule: finishTask_cases)
  case dropped
  then show ?thesis by simp
next
  case (finished outJSON errJSON db1)
  have "lifecycle db db1" unfolding finished(2)
    by (rule lifecycle_update_tasks) (use st in \<open>auto simp: task_active_def\<close>)
  with finished(4) show ?thesis using lifecycle_trans [OF _ lifecycle_InsertTx] by blast
next
  case (retried outJSON errJSON db1 db2)
  let ?P = "\<lambda>r. t_id r = tf_id t \<and> t_status r \<in> {TQueued, TRunning}"
  have first: "lifecycle db db1" unfolding retried(2)
    by (rule lifecycle_update_tasks) (use st in \<open>auto simp: task_active_def\<close>)
  from ref obtain row where row: "row \<in> set (tasks db)" "t_id row = tf_id t"
    "task_slot row = (tf_runID t, tf_stepKey t, tf_attempt t)" by (auto simp: ref_ok_def)
  from retried(1) obtain row' where row': "row' \<in> set (tasks db)" "?P row'" by blast
  have "row' = row"
    using wf row row' distinct_map_inj_on_set [of t_id "tasks db"] by (auto simp: wf_store_def task_row_ids_def)
  with row' have "?P row" by simp
  then have "may_redo db1 (t_run_id row) (t_step_key row) (t_attempt row)"
    unfolding retried(2) by (intro failed_may_redo [OF wf row(1)])
      (use st retried(3) in \<open>auto simp: finish_row_def keeps_slot_def task_active_def\<close>)
  with row(3) have "may_redo db1 (tf_runID t) (tf_stepKey t) (tf_attempt t)" by (simp add: task_slot_def)
  then have "lifecycle db1 db2" by (intro insert_attempt_lifecycle [OF retried(5)])
  with first retried(6) show ?thesis using lifecycle_trans lifecycle_InsertTx by blast
qed

lemma insert_suspension_Inr:
  "insert_suspension s db = Inr db' \<Longrightarrow> db' = db\<lparr>suspensions := suspensions db @ [s]\<rparr>"
  by (auto simp: insert_suspension_def split: if_splits)

lemma suspendTask_cases:
  assumes "suspendTask X rnd t susp db = Inr db'"
  obtains (dropped) "db' = db" "\<forall>row \<in> set (tasks db). \<not> (t_id row = tf_id t \<and> t_status row = TRunning)"
  | (suspended) outJSON db1 db2 s where
      "\<exists>row \<in> set (tasks db). t_id row = tf_id t \<and> t_status row = TRunning"
      "db1 = update_tasks (\<lambda>r. t_id r = tf_id t \<and> t_status r = TRunning)
         (\<lambda>r. r\<lparr>t_status := TSuspended, t_output := Some outJSON\<rparr>) db"
      "outJSON = redact_JSON (tf_redact t) (marshalJSON (suspended_output (fst (generateResumeToken X rnd)) susp))"
      "su_task_id s = tf_id t" "su_resume_token s = snd (generateResumeToken X rnd)" "su_resume_at s = ResumeAt susp"
      "su_kind s = Kind susp" "insert_suspension s db1 = Inr db2"
      "db' = (case ResumeAt susp of None \<Rightarrow> db2 | Some at \<Rightarrow> InsertTx (ResumeTaskArgs (tf_id t)) (Some at) db2)"
proof -
  let ?P = "\<lambda>r. t_id r = tf_id t \<and> t_status r = TRunning"
  consider "tasks_affected ?P db = 0" | "tasks_affected ?P db \<noteq> 0" by blast
  then show thesis
  proof cases
    case 1
    then have "\<forall>row \<in> set (tasks db). \<not> ?P row" using tasks_affected_pos [of ?P db] by blast
    moreover have "db' = db" using assms 1 by (simp add: suspendTask_def split_beta Let_def split: if_splits)
    ultimately show ?thesis by (intro dropped)
  next
    case 2
    then have ex: "\<exists>row \<in> set (tasks db). ?P row" using tasks_affected_pos [of ?P db] by blast
    let ?out = "redact_JSON (tf_redact t) (marshalJSON (suspended_output (fst (generateResumeToken X rnd)) susp))"
    from assms 2 obtain db2 where ins: "insert_suspension
        \<lparr>su_task_id = tf_id t, su_workspace_id = tf_workspaceID t, su_kind = Kind susp,
         su_resume_token = snd (generateResumeToken X rnd), su_resume_at = ResumeAt susp, su_payload = ?out\<rparr>
        (update_tasks ?P (\<lambda>r. r\<lparr>t_status := TSuspended, t_output := Some ?out\<rparr>) db) = Inr db2"
      and r: "(case ResumeAt susp of None \<Rightarrow> Inr db2
         | Some at \<Rightarrow> Inr (InsertTx (ResumeTaskArgs (tf_id t)) (Some at) db2)) = (Inr db' :: db result)"
      by (auto simp: suspendTask_def split_beta Let_def rbind_Inr_iff split: if_splits)
    have "db' = (case ResumeAt susp of None \<Rightarrow> db2 | Some at \<Rightarrow> InsertTx (ResumeTaskArgs (tf_id t)) (Some at) db2)"
      using r by (cases "ResumeAt susp") auto
    then show ?thesis by (rule suspended [OF ex refl refl _ _ _ _ ins, rotated 4]) simp_all
  qed
qed

lemma lifecycle_same_but_suspensions: "insert_suspension s db = Inr db' \<Longrightarrow> lifecycle db db'"
  by (rule lifecycle_same_tables) (auto dest: insert_suspension_Inr)

lemma suspendTask_lifecycle:
  assumes "suspendTask X rnd t susp db = Inr db'"
  shows "lifecycle db db'"
  using assms
proof (cases rule: suspendTask_cases)
  case dropped
  then show ?thesis by simp
next
  case (suspended outJSON db1 db2 s)
  have "lifecycle db db1" unfolding suspended(2)
    by (rule lifecycle_update_tasks) (auto simp: keeps_slot_def task_active_def)
  moreover have "lifecycle db1 db2" by (rule lifecycle_same_but_suspensions [OF suspended(8)])
  moreover have "lifecycle db2 db'" unfolding suspended(9)
    by (cases "ResumeAt susp") (auto simp: lifecycle_InsertTx)
  ultimately show ?thesis by (blast intro: lifecycle_trans)
qed

lemma work_start_Some:
  assumes "work_start X now t config db = Inr (Some db')"
  shows "\<exists>row \<in> set (tasks db). t_id row = tf_id t \<and> t_status row = TQueued"
    and "db' = update_tasks (\<lambda>r. t_id r = tf_id t \<and> t_status r = TQueued)
      (\<lambda>r. r\<lparr>t_status := TRunning, t_started_at := Some now,
         t_input := Some (redact_JSON (tf_redact t) (marshalJSON (JObj config)))\<rparr>) db"
  using assms tasks_affected_pos [of "\<lambda>r. t_id r = tf_id t \<and> t_status r = TQueued" db]
  by (auto simp: work_start_def Let_def split: if_splits)

lemma work_start_lifecycle:
  "work_start X now t config db = Inr (Some db') \<Longrightarrow> lifecycle db db'"
  by (drule work_start_Some(2)) (auto intro!: lifecycle_update_tasks simp: keeps_slot_def task_active_def)

lemma work_end_lifecycle:
  assumes "work_end X now rnd t outcome db = Inr db'" "ref_ok t db" "wf_store db"
  shows "lifecycle db db'"
  using assms
  by (auto simp: work_end_def split: prod.splits option.splits exec_error.splits
      intro: suspendTask_lifecycle finishTask_lifecycle)

lemma load_task_ref:
  assumes "load_task db tid = Inr (row, run, j)"
  shows "row \<in> set (tasks db)" "t_id row = tid" "find_run db (t_run_id row) = Some run" "run_json db (t_run_id row) = Some j"
  using assms by (auto simp: load_task_def run_json_def split: option.splits dest!: find_task_SomeD)

text \<open>How preparation ends: a no-op, a recorded failure, or a prepared execution.\<close>

lemma work_prepare_cases:
  assumes "work_prepare X E now tid db = Inr p"
  obtains (skipped) row where "p = Returned db" "find_task db tid = Some row" "t_status row \<noteq> TQueued"
  | (failed) t e db' where "p = Returned db'" "finishTask X now t TFailed JNull (Some e) db = Inr db'" "ref_ok t db" "tf_id t = tid"
  | (ready) t s ex config ctx row run j d secrets where "p = Ready t s ex config ctx" "ref_ok t db" "tf_id t = tid"
      "row \<in> set (tasks db)" "t_id row = tid" "t_status row = TQueued"
      "find_run db (t_run_id row) = Some run" "run_json db (t_run_id row) = Some j" "Parse j = Inr d"
      "tf_runID t = t_run_id row" "tf_stepKey t = t_step_key row"
      "Step d (t_step_key row) = Some s" "tf_retries t = st_retries s"
      "load_secrets E (t_workspace_id row) = Inr secrets" "tf_redact t = Some (newRedactor secrets)"
      "ctx = bind_secrets secrets (buildRunContext X db (t_run_id row) (r_input run) (TransitiveNeeds d (t_step_key row)))"
      "interpolateConfig X (st_config s) ctx = Inr config"
proof -
  from assms obtain row run j where load: "load_task db tid = Inr (row, run, j)"
    by (auto simp: work_prepare_def split: sum.splits)
  note row = load_task_ref [OF load]
  have run_id: "r_id run = t_run_id row" using row(3) by (auto simp: find_run_def dest: find_SomeD)
  show thesis
  proof (cases "t_status row = TQueued")
    case False
    moreover have "find_task db tid = Some row" using load by (auto simp: load_task_def split: option.splits)
    ultimately show ?thesis using assms load by (intro skipped) (auto simp: work_prepare_def)
  next
    case True
    have ref: "ref_ok t db" if "tf_id t = tid" "tf_runID t = t_run_id row" "tf_stepKey t = t_step_key row"
      "tf_attempt t = t_attempt row" for t
      using row that by (auto simp: ref_ok_def task_slot_def)
    from assms load True show ?thesis
      unfolding work_prepare_def Let_def fail_task_def
      by (auto simp: rbind_Inr_iff ref run_id split: sum.splits option.splits
          intro: failed ready [OF _ _ _ row(1,2) True row(3,4)])
  qed
qed

lemma work_prepare_lifecycle:
  assumes "work_prepare X E now tid db = Inr (Returned db')" "wf_store db"
  shows "lifecycle db db'"
  using assms(1)
proof (cases rule: work_prepare_cases)
  case (failed t e db'')
  then show ?thesis using finishTask_lifecycle [OF failed(2) _ _ failed(3) assms(2)] by simp
qed auto

lemma Work_ExecuteTask_lifecycle:
  assumes "Work_ExecuteTask X E now rnd tid db = Inr db'" "wf_store db"
  shows "lifecycle db db'"
proof -
  from assms(1) obtain p where p: "work_prepare X E now tid db = Inr p"
    by (auto simp: Work_ExecuteTask_def rbind_Inr_iff)
  show ?thesis
  proof (cases p)
    case (Returned db1)
    with assms p work_prepare_lifecycle show ?thesis by (simp add: Work_ExecuteTask_def)
  next
    case (Ready t s ex config ctx)
    from p [unfolded Ready] have ref: "ref_ok t db" by (cases rule: work_prepare_cases) auto
    from assms(1) p Ready obtain started where st: "work_start X now t config db = Inr started"
      by (auto simp: Work_ExecuteTask_def rbind_Inr_iff)
    show ?thesis
    proof (cases started)
      case None
      with assms p Ready st show ?thesis by (simp add: Work_ExecuteTask_def)
    next
      case (Some db1)
      then have life: "lifecycle db db1" using st by (auto intro: work_start_lifecycle)
      have "work_end X now rnd t (ex (exec_input t config ctx)) db1 = Inr db'"
        using assms(1) p Ready st Some by (simp add: Work_ExecuteTask_def)
      then have "lifecycle db1 db'"
        by (rule work_end_lifecycle) (use life ref assms(2) in \<open>auto intro: ref_ok_lifecycle lifecycleD(1)\<close>)
      with life show ?thesis by (rule lifecycle_trans)
    qed
  qed
qed

interpretation execute: task_lifecycle
  "\<lambda>db db'. wf_store db \<and>
     ((\<exists>X E now tid. work_prepare X E now tid db = Inr (Returned db')) \<or>
      (\<exists>X now t config. work_start X now t config db = Inr (Some db')) \<or>
      (\<exists>X now rnd t outcome. ref_ok t db \<and> work_end X now rnd t outcome db = Inr db'))"
  by unfold_locales (auto intro: work_prepare_lifecycle work_start_lifecycle work_end_lifecycle)

section \<open>Properties\<close>

lemma row_unique:
  "wf_store db \<Longrightarrow> a \<in> set (tasks db) \<Longrightarrow> b \<in> set (tasks db) \<Longrightarrow> t_id a = t_id b \<Longrightarrow> a = b"
  by (auto simp: wf_store_def task_row_ids_def intro: distinct_map_inj_on_set)

text \<open>Once the row of a reference is finished, every later phase of its worker is a no-op.\<close>

lemma finished_ref_is_inert:
  assumes wf: "wf_store db" and row: "row \<in> set (tasks db)" "t_id row = tf_id t" "\<not> task_active (t_status row)"
  shows "work_end X now rnd t outcome db = Inr db' \<Longrightarrow> db' = db"
    and "work_start X now t config db \<noteq> Inr (Some db')"
proof -
  have inactive: "\<not> task_active (t_status u)" if "u \<in> set (tasks db)" "t_id u = tf_id t" for u
    using row_unique [OF wf that(1) row(1)] that(2) row(2,3) by auto
  have fin: "db'' = db" if "finishTask X now t st out e db = Inr db''" for st out e db''
    using that by (cases rule: finishTask_cases) (use inactive in \<open>auto simp: task_active_def\<close>)
  have susp: "db'' = db" if "suspendTask X rnd t sp db = Inr db''" for sp db''
    using that by (cases rule: suspendTask_cases) (use inactive in \<open>auto simp: task_active_def\<close>)
  show "db' = db" if "work_end X now rnd t outcome db = Inr db'"
    using that fin susp by (auto simp: work_end_def split: prod.splits option.splits exec_error.splits)
  show "work_start X now t config db \<noteq> Inr (Some db')"
    using work_start_Some(1) [of X now t config db db'] inactive by (auto simp: task_active_def)
qed

text \<open>
  C6. Cancel wins. When a run has been canceled while a worker of it was under way, then at any later
  moment, whatever other transactions have committed, the worker neither starts its task nor
  records a result: its success, failure or suspension changes nothing in the store.
\<close>

theorem cancel_wins_over_in_flight_work:
  assumes wf: "wf_store db" and ref: "ref_ok t db" and cancel: "CancelRun now ws (tf_runID t) db = Inr db1"
    and later: "lifecycle db1 db2"
  shows "work_start X now' t config db2 \<noteq> Inr (Some db3) \<and> (work_end X now' rnd t outcome db2 = Inr db3 \<longrightarrow> db3 = db2)"
proof -
  from ref obtain u where u: "u \<in> set (tasks db)" "t_id u = tf_id t" "t_run_id u = tf_runID t"
    by (auto simp: ref_ok_def task_slot_def)
  define u1 where "u1 = (if t_run_id u = tf_runID t \<and> task_active (t_status u) then cancel_task now u else u)"
  have u1: "u1 \<in> set (tasks db1)" "t_id u1 = tf_id t" "\<not> task_active (t_status u1)"
    unfolding CancelRun_tasks [OF cancel] set_map u1_def using u
    by (blast, simp_all add: cancel_task_def task_active_def)
  have wf2: "wf_store db2"
    using lifecycleD(1) [OF later] lifecycleD(1) [OF CancelRun_lifecycle [OF cancel]] wf by blast
  from lifecycleD(2) [OF later u1(1)] u1(3) have "u1 \<in> set (tasks db2)" by (auto simp: row_evolves_def)
  note this u1(2,3)
  from finished_ref_is_inert [OF wf2 this] show ?thesis by blast
qed

definition demo_ref :: task_ref where
  "demo_ref = \<lparr>tf_id = 1, tf_runID = 1, tf_workspaceID = 7, tf_stepKey = ''a'', tf_attempt = 1, tf_retries = 0,
     tf_redact = Some (newRedactor [])\<rparr>"

theorem cancel_wins_over_in_flight_work_witness:
  "work_end demo_X 20 [] demo_ref (JNum ''1'', None)
     (ok_or demo_db (CancelRun 9 7 1 (demo_with RRunning [demo_task 1 ''a'' 1 TRunning]))) =
   Inr (ok_or demo_db (CancelRun 9 7 1 (demo_with RRunning [demo_task 1 ''a'' 1 TRunning])))"
proof -
  let ?db = "demo_with RRunning [demo_task 1 ''a'' 1 TRunning]"
  let ?db1 = "ok_or demo_db (CancelRun 9 7 1 ?db)"
  have "wf_store ?db" "ref_ok demo_ref ?db" "CancelRun 9 7 (tf_runID demo_ref) ?db = Inr ?db1" by code_simp+
  note wins = cancel_wins_over_in_flight_work [OF this lifecycle_refl]
  have "work_end demo_X 20 [] demo_ref (JNum ''1'', None) ?db1 =
      Inr (ok_or ?db (work_end demo_X 20 [] demo_ref (JNum ''1'', None) ?db1))" by code_simp
  with wins show ?thesis by metis
qed

text \<open>
  C7. A task is started at most once. After one worker has made the transition to \<^verbatim>\<open>running\<close>, no
  other worker of the same task, however often its job is replayed and whatever happened in
  between, makes it again, so no executor runs twice for one attempt.
\<close>

theorem a_task_starts_at_most_once:
  assumes wf: "wf_store db" and first: "work_start X now t config db = Inr (Some db1)"
    and later: "lifecycle db1 db2" and same: "tf_id t' = tf_id t"
  shows "work_start X' now' t' config' db2 \<noteq> Inr (Some db3)"
proof
  assume "work_start X' now' t' config' db2 = Inr (Some db3)"
  then obtain v where v: "v \<in> set (tasks db2)" "t_id v = tf_id t" "t_status v = TQueued"
    using work_start_Some(1) same by metis
  obtain u where u: "u \<in> set (tasks db)" "t_id u = tf_id t" "t_status u = TQueued"
    using work_start_Some(1) [OF first] by blast
  from mem_update_tasks [OF u(1)] u(2,3)
  have "\<exists>u1 \<in> set (tasks db1). t_id u1 = tf_id t \<and> t_status u1 = TRunning"
    unfolding work_start_Some(2) [OF first] by (rule_tac bexI [rotated]) auto
  then obtain u2 where u2: "u2 \<in> set (tasks db2)" "t_id u2 = tf_id t" "t_status u2 \<noteq> TQueued"
    using lifecycleD(2) [OF later] unfolding row_evolves_def by (metis task_status.distinct(1))
  have "wf_store db2"
    using lifecycleD(1) [OF later] lifecycleD(1) [OF work_start_lifecycle [OF first]] wf by blast
  from row_unique [OF this u2(1) v(1)] u2 v show False by auto
qed

theorem a_task_starts_at_most_once_witness:
  "\<not> (\<exists>db3. work_start demo_X 20 demo_ref [] (demo_with RRunning [(demo_task 1 ''a'' 1 TRunning)
     \<lparr>t_started_at := Some 9, t_input := Some ''{}''\<rparr>]) = Inr (Some db3))"
proof -
  let ?db = "demo_with RRunning [demo_task 1 ''a'' 1 TQueued]"
  have "wf_store ?db"
    "work_start demo_X 9 demo_ref [] ?db = Inr (Some (demo_with RRunning [(demo_task 1 ''a'' 1 TRunning)
       \<lparr>t_started_at := Some 9, t_input := Some ''{}''\<rparr>]))" by code_simp+
  from a_task_starts_at_most_once [OF this lifecycle_refl refl] show ?thesis by blast
qed

text \<open>What each phase leaves in the row of its task.\<close>

lemma find_active_row:
  assumes "wf_store db" "\<exists>row \<in> set (tasks db). t_id row = i \<and> P row"
  obtains u where "find_task db i = Some u" "P u"
  using assms find_task_iff by blast

lemma work_start_row:
  assumes wf: "wf_store db" and start: "work_start X now t config db = Inr (Some db')"
  shows "\<exists>u. find_task db (tf_id t) = Some u \<and> t_status u = TQueued \<and>
    find_task db' (tf_id t) = Some (u\<lparr>t_status := TRunning, t_started_at := Some now,
      t_input := Some (redact_JSON (tf_redact t) (marshalJSON (JObj config)))\<rparr>)"
proof -
  obtain u where u: "find_task db (tf_id t) = Some u" "t_status u = TQueued"
    by (rule find_active_row [OF wf work_start_Some(1) [OF start]])
  with find_task_SomeD [OF u(1)] show ?thesis
    unfolding work_start_Some(2) [OF start] by (subst find_task_update_tasks) (auto simp: keeps_slot_def)
qed

lemma find_task_insert_attempt:
  assumes "insert_attempt X now rid ws k a at db = Inr db'" "find_task db i = Some u"
  shows "find_task db' i = Some u"
  using assms(1)
proof (rule insert_attempt_Inr)
  fix t db1 assume "insert_task t db = Inr db1" "db' = InsertTx (ExecuteTaskArgs (t_id t)) at db1"
  with assms(2) show ?thesis by (simp add: insert_task_Inr find_task_def store_simps find_append_Some)
qed

lemma finishTask_row:
  assumes wf: "wf_store db" and fin: "finishTask X now t st out e db = Inr db'" and st: "st \<noteq> TSkipped" "st \<noteq> TQueued"
  shows "db' = db \<or> (\<exists>u err. find_task db (tf_id t) = Some u \<and> t_status u \<in> {TQueued, TRunning} \<and>
    find_task db' (tf_id t) = Some (finish_row now st (redact_JSON (tf_redact t) (marshalJSON out)) err u) \<and>
    AdvanceRunArgs (tf_runID t) \<in> job_set db')"
proof -
  have upd: "\<exists>u. find_task db (tf_id t) = Some u \<and> t_status u \<in> {TQueued, TRunning} \<and>
      find_task (update_tasks (\<lambda>r. t_id r = tf_id t \<and> t_status r \<in> {TQueued, TRunning}) (finish_row now st o' err) db)
        (tf_id t) = Some (finish_row now st o' err u)"
    if ex: "\<exists>row \<in> set (tasks db). t_id row = tf_id t \<and> t_status row \<in> {TQueued, TRunning}" for o' err
  proof -
    obtain u where u: "find_task db (tf_id t) = Some u" "t_status u \<in> {TQueued, TRunning}"
      by (rule find_active_row [OF wf ex])
    with find_task_SomeD [OF u(1)] show ?thesis by (simp add: find_task_update_tasks st)
  qed
  from fin show ?thesis
  proof (cases rule: finishTask_cases)
    case (finished outJSON errJSON db1)
    obtain u where "find_task db (tf_id t) = Some u" "t_status u \<in> {TQueued, TRunning}"
      "find_task db1 (tf_id t) = Some (finish_row now st outJSON errJSON u)"
      using upd [OF finished(1)] finished(2) by metis
    moreover have "find_task db' (tf_id t) = find_task db1 (tf_id t)" "AdvanceRunArgs (tf_runID t) \<in> job_set db'"
      unfolding finished(4) by (simp_all add: find_task_def store_simps)
    ultimately show ?thesis using finished(5) by auto
  next
    case (retried outJSON errJSON db1 db2)
    obtain u where "find_task db (tf_id t) = Some u" "t_status u \<in> {TQueued, TRunning}"
      and "find_task db1 (tf_id t) = Some (finish_row now st outJSON errJSON u)"
      using upd [OF retried(1)] retried(2) by metis
    moreover from find_task_insert_attempt [OF retried(5) this(3)]
    have "find_task db' (tf_id t) = Some (finish_row now st outJSON errJSON u)" "AdvanceRunArgs (tf_runID t) \<in> job_set db'"
      unfolding retried(6) by (simp_all add: find_task_def store_simps)
    ultimately show ?thesis using retried(7) by auto
  qed simp
qed

lemma suspendTask_row:
  assumes wf: "wf_store db" and susp: "suspendTask X rnd t sp db = Inr db'"
  shows "db' = db \<or> (\<exists>u text. find_task db (tf_id t) = Some u \<and> t_status u = TRunning \<and>
    find_task db' (tf_id t) = Some (u\<lparr>t_status := TSuspended, t_output := Some (redact_JSON (tf_redact t) text)\<rparr>))"
  using susp
proof (cases rule: suspendTask_cases)
  case (suspended outJSON db1 db2 s)
  obtain u where u: "find_task db (tf_id t) = Some u" "t_status u = TRunning"
    by (rule find_active_row [OF wf suspended(1)])
  with find_task_SomeD [OF u(1)]
  have "find_task db1 (tf_id t) = Some (u\<lparr>t_status := TSuspended, t_output := Some outJSON\<rparr>)"
    unfolding suspended(2) by (subst find_task_update_tasks) (auto simp: keeps_slot_def)
  moreover have "find_task db' (tf_id t) = find_task db1 (tf_id t)"
    using insert_suspension_Inr [OF suspended(8)] unfolding suspended(9)
    by (auto simp: find_task_def store_simps split: option.splits)
  ultimately show ?thesis using u suspended(3) by auto
qed simp


definition demo_engine :: engine where
  "demo_engine = \<lparr>Secrets = Some (\<lambda>_. Inr [(''db'', ''hunter22'')]),
     Registry = (\<lambda>_. Some (\<lambda>_. (JStr ''hunter22'', None)))\<rparr>"

definition demo_secret_ref :: task_ref where
  "demo_secret_ref = demo_ref\<lparr>tf_redact := Some (newRedactor [(''db'', ''hunter22'')])\<rparr>"

definition demo_finished :: db where
  "demo_finished = ok_or demo_db (work_end demo_X 5 [] demo_secret_ref (JStr ''hunter22'', None)
     (demo_with RRunning [demo_task 1 ''a'' 1 TRunning]))"


lemma backoff_exact:
  assumes "0 \<le> a" "a \<le> 33"
  shows "backoff a = 2 ^ nat a * Second"
proof -
  have "(2::int) ^ nat a \<le> 2 ^ 33" using assms by (intro power_increasing) auto
  then have "2 ^ nat a * Second < 2 ^ 63" by (simp add: Second_def)
  moreover have "- (2 ^ 63) \<le> 2 ^ nat a * Second"
    by (rule order_trans [of _ 0]) (simp_all add: Second_def)
  ultimately have "signed_take_bit 63 (2 ^ nat a * Second) = 2 ^ nat a * Second"
    by (intro signed_take_bit_int_eq_self)
  then have "sint (word_of_int (2 ^ nat a * Second) :: 64 word) = 2 ^ nat a * Second"
    by (simp add: sint_sbintrunc' del: of_int_mult of_int_power)
  then show ?thesis by (simp add: backoff_def push_bit_eq_mult)
qed

text \<open>
  The retry delay does not overflow. For every step that passes validation, an attempt that is
  retried waits exactly two to the power of its number in seconds, at least 2 and at most 1024:
  the 64-bit shift and product stay in range.
\<close>

lemma retry_backoff_is_bounded:
  assumes "step_ok known s" and "1 \<le> attempt" and "attempt \<le> st_retries s"
  shows "backoff attempt = 2 ^ nat attempt * Second \<and> 2 * Second \<le> backoff attempt \<and> backoff attempt \<le> 1024 * Second"
proof -
  have a: "1 \<le> attempt" "attempt \<le> 10" using assms by (auto simp: step_ok_def)
  then have "(2::int) ^ 1 \<le> 2 ^ nat attempt" "(2::int) ^ nat attempt \<le> 2 ^ 10"
    by (intro power_increasing; simp)+
  with a show ?thesis by (simp add: backoff_exact Second_def)
qed



end
