(* ===== verification/Resume.thy ===== *)
theory Resume
  imports Execute
begin

text \<open>
  Resuming suspended tasks (\<^verbatim>\<open>internal/engine/resume.go\<close>): the scheduled worker for timed delays
  and the endpoint's call for callbacks, both through the guarded transaction \<open>resumeSuspended\<close>.
\<close>

section \<open>Model\<close>

definition resume_row :: "timestamp \<Rightarrow> string \<Rightarrow> task_row \<Rightarrow> task_row" where
  "resume_row now out t = t\<lparr>t_status := TSucceeded, t_output := Some out, t_finished_at := Some now\<rparr>"

definition resumeSuspended ::
  "externals \<Rightarrow> timestamp \<Rightarrow> uuid \<Rightarrow> json \<Rightarrow> redactor option \<Rightarrow> db \<Rightarrow> (uuid \<times> bool \<times> db) result" where
  "resumeSuspended X now taskID output redact db =
     (case find_task db taskID of
        None \<Rightarrow> Inl ErrNoRows
      | Some row \<Rightarrow>
          (let out = redact_JSON redact (marshalJSON output);
               guard = (\<lambda>r. t_id r = taskID \<and> t_status r = TSuspended);
               resumed = (0 < tasks_affected guard db) in
           if \<not> jsonb_ok X out then Inl InvalidTextRepresentation
           else
             let db1 = delete_suspensions taskID (update_tasks guard (resume_row now out) db);
                 db2 = (if resumed then InsertTx (AdvanceRunArgs (t_run_id row)) None db1 else db1) in
             Inr (t_run_id row, resumed, db2)))"

definition Work_ResumeTask :: "externals \<Rightarrow> timestamp \<Rightarrow> uuid \<Rightarrow> db \<Rightarrow> db result" where
  "Work_ResumeTask X now taskID db =
     (case find (\<lambda>s. su_task_id s = taskID) (suspensions db) of
        None \<Rightarrow> Inr db
      | Some s \<Rightarrow>
          rbind (resumeSuspended X now taskID (decoded X (su_payload s)) None db) (\<lambda>(_, _, db'). Inr db'))"

text \<open>
  \<^verbatim>\<open>ResumeSuspendedTask\<close>. A lost race is an error of the call, yet the transaction that cleared the
  stale suspension has committed; the model returns both.
\<close>

definition ResumeSuspendedTask ::
  "externals \<Rightarrow> engine \<Rightarrow> timestamp \<Rightarrow> string \<Rightarrow> json \<Rightarrow> db \<Rightarrow> uuid result \<times> db" where
  "ResumeSuspendedTask X E now hashedToken payload db =
     (case find (\<lambda>s. su_resume_token s = hashedToken) (suspensions db) of
        None \<Rightarrow> (Inl ErrSuspensionNotFound, db)
      | Some s \<Rightarrow>
          (case (case Secrets E of None \<Rightarrow> Inr None
                 | Some f \<Rightarrow> rbind (f (su_workspace_id s)) (\<lambda>sec. Inr (Some (newRedactor sec)))) of
             Inl e \<Rightarrow> (Inl e, db)
           | Inr redact \<Rightarrow>
               (case resumeSuspended X now (su_task_id s)
                   (JObj [(''resumed'', JBool True), (''payload'', payload)]) redact db of
                  Inl e \<Rightarrow> (Inl e, db)
                | Inr (runID, resumed, db') \<Rightarrow> (if resumed then Inr runID else Inl ErrNotWaiting, db'))))"

section \<open>The contract\<close>

lemma delete_suspensions_fields [store_simps]:
  "tasks (delete_suspensions tid db) = tasks db" "runs (delete_suspensions tid db) = runs db"
  "versions (delete_suspensions tid db) = versions db" "job_set (delete_suspensions tid db) = job_set db"
  "suspensions (delete_suspensions tid db) = filter (\<lambda>s. su_task_id s \<noteq> tid) (suspensions db)"
  by (simp_all add: delete_suspensions_def job_set_def)

lemma resumeSuspended_Inr:
  assumes "resumeSuspended X now tid output redact db = Inr (rid, resumed, db')"
  obtains row out where "find_task db tid = Some row" "rid = t_run_id row"
    "resumed = (\<exists>r \<in> set (tasks db). t_id r = tid \<and> t_status r = TSuspended)"
    "out = redact_JSON redact (marshalJSON output)"
    "tasks db' = map (\<lambda>r. if t_id r = tid \<and> t_status r = TSuspended then resume_row now out r else r) (tasks db)"
    "runs db' = runs db" "versions db' = versions db"
    "suspensions db' = filter (\<lambda>s. su_task_id s \<noteq> tid) (suspensions db)"
    "job_set db' = job_set db \<union> (if resumed then {AdvanceRunArgs rid} else {})" "lifecycle db db'"
proof -
  let ?P = "\<lambda>r. t_id r = tid \<and> t_status r = TSuspended"
  let ?out = "redact_JSON redact (marshalJSON output)"
  let ?u = "update_tasks ?P (resume_row now ?out) db"
  from assms obtain row where row: "find_task db tid = Some row" "rid = t_run_id row"
    and resumed: "resumed = (0 < tasks_affected ?P db)"
    and db': "db' = (if resumed then InsertTx (AdvanceRunArgs rid) None (delete_suspensions tid ?u) else delete_suspensions tid ?u)"
    by (auto simp: resumeSuspended_def Let_def split: option.splits if_splits)
  have "lifecycle db ?u"
    by (rule lifecycle_update_tasks) (auto simp: keeps_slot_def resume_row_def task_active_def)
  moreover have "lifecycle ?u (delete_suspensions tid ?u)"
    by (rule lifecycle_same_tables) (simp_all add: store_simps)
  ultimately have "lifecycle db db'"
    unfolding db' using lifecycle_trans [OF _ lifecycle_InsertTx] lifecycle_trans [of db ?u "delete_suspensions tid ?u"] by simp
  moreover have "resumed = (\<exists>r \<in> set (tasks db). ?P r)"
    using tasks_affected_pos [of ?P db] unfolding resumed by blast
  moreover have "job_set db' = job_set db \<union> (if resumed then {AdvanceRunArgs rid} else {})"
    "tasks db' = tasks ?u" "runs db' = runs db" "versions db' = versions db"
    "suspensions db' = filter (\<lambda>s. su_task_id s \<noteq> tid) (suspensions db)"
    by (simp_all add: db' store_simps)
  ultimately show thesis
    using row by (intro that [of row ?out]) (simp_all only: update_tasks_fields)
qed

lemma Work_ResumeTask_lifecycle:
  "Work_ResumeTask X now tid db = Inr db' \<Longrightarrow> lifecycle db db'"
  by (auto simp: Work_ResumeTask_def rbind_Inr_iff split: option.splits elim!: resumeSuspended_Inr)

lemma ResumeSuspendedTask_lifecycle:
  "ResumeSuspendedTask X E now h payload db = (res, db') \<Longrightarrow> lifecycle db db'"
  by (auto simp: ResumeSuspendedTask_def split: option.splits sum.splits prod.splits elim!: resumeSuspended_Inr)

interpretation resume: task_lifecycle
  "\<lambda>db db'. (\<exists>X now tid. Work_ResumeTask X now tid db = Inr db') \<or>
     (\<exists>X E now h payload res. ResumeSuspendedTask X E now h payload db = (res, db'))"
  by unfold_locales (auto intro: Work_ResumeTask_lifecycle ResumeSuspendedTask_lifecycle)

section \<open>Properties\<close>

lemma ResumeSuspendedTask_found:
  assumes "ResumeSuspendedTask X E now h payload db = (res, db')" "res \<noteq> Inl ErrSuspensionNotFound"
  obtains s where "s \<in> set (suspensions db)" "su_resume_token s = h"
  using assms by (auto simp: ResumeSuspendedTask_def split: option.splits dest!: find_SomeD)

lemma ResumeSuspendedTask_resumed:
  assumes "ResumeSuspendedTask X E now h payload db = (Inr rid, db')"
  obtains s redact where "find (\<lambda>s. su_resume_token s = h) (suspensions db) = Some s"
    "resumeSuspended X now (su_task_id s) (JObj [(''resumed'', JBool True), (''payload'', payload)]) redact db = Inr (rid, True, db')"
  using assms by (auto simp: ResumeSuspendedTask_def split: option.splits sum.splits prod.splits if_splits)

text \<open>
  C16. A resume token works once. When a callback has resumed a task, the task was suspended and is now
  succeeded, an advance of its run is enqueued, and the same token presented again finds nothing and
  changes nothing. Tokens are unique by the constraint of the table.
\<close>

theorem resume_token_is_single_use:
  assumes wf: "wf_store db" and unique: "distinct (map su_resume_token (suspensions db))"
    and resume: "ResumeSuspendedTask X E now h payload db = (Inr rid, db')"
  shows "ResumeSuspendedTask X E' now' h payload' db' = (Inl ErrSuspensionNotFound, db') \<and>
    AdvanceRunArgs rid \<in> job_set db' \<and>
    (\<exists>s t t'. s \<in> set (suspensions db) \<and> su_resume_token s = h \<and> find_task db (su_task_id s) = Some t \<and>
       t_status t = TSuspended \<and> t_run_id t = rid \<and> find_task db' (su_task_id s) = Some t' \<and> t_status t' = TSucceeded)"
  using resume
proof (rule ResumeSuspendedTask_resumed)
  fix s redact
  assume found: "find (\<lambda>s. su_resume_token s = h) (suspensions db) = Some s"
    and r: "resumeSuspended X now (su_task_id s) (JObj [(''resumed'', JBool True), (''payload'', payload)]) redact db = Inr (rid, True, db')"
  have s: "s \<in> set (suspensions db)" "su_resume_token s = h" using find_SomeD [OF found] by auto
  from r show ?thesis
  proof (rule resumeSuspended_Inr)
    fix row out
    assume row: "find_task db (su_task_id s) = Some row" "rid = t_run_id row"
      and susp: "True = (\<exists>r \<in> set (tasks db). t_id r = su_task_id s \<and> t_status r = TSuspended)"
      and tasks: "tasks db' = map (\<lambda>r. if t_id r = su_task_id s \<and> t_status r = TSuspended then resume_row now out r else r) (tasks db)"
      and rest: "suspensions db' = filter (\<lambda>q. su_task_id q \<noteq> su_task_id s) (suspensions db)"
        "job_set db' = job_set db \<union> (if True then {AdvanceRunArgs rid} else {})"
    have "su_resume_token q \<noteq> h" if "q \<in> set (suspensions db')" for q
      using that rest(1) s distinct_map_inj_on_set [OF unique, of q s] by auto
    then have gone: "find (\<lambda>s. su_resume_token s = h) (suspensions db') = None" by (simp add: find_None_iff_ball)
    from susp have "\<exists>r \<in> set (tasks db). t_id r = su_task_id s \<and> t_status r = TSuspended" by simp
    then obtain u where "find_task db (su_task_id s) = Some u" "t_status u = TSuspended"
      by (rule find_active_row [OF wf])
    with row have u: "t_status row = TSuspended" by simp
    have "find_task db' (su_task_id s) = find_task (update_tasks (\<lambda>r. t_id r = su_task_id s \<and> t_status r = TSuspended) (resume_row now out) db) (su_task_id s)"
      by (simp only: find_task_def tasks update_tasks_fields)
    also have "\<dots> = Some (resume_row now out row)"
      using row u find_task_SomeD [OF row(1)] by (subst find_task_update_tasks) (auto simp: keeps_slot_def resume_row_def)
    finally have "find_task db' (su_task_id s) = Some (resume_row now out row)" .
    moreover have "ResumeSuspendedTask X E' now' h payload' db' = (Inl ErrSuspensionNotFound, db')"
      using gone by (simp add: ResumeSuspendedTask_def)
    ultimately show ?thesis
      using row u s rest(2) by (auto simp: resume_row_def)
  qed
qed

definition demo_suspended :: db where
  "demo_suspended = (demo_with RRunning [demo_task 1 ''a'' 1 TSuspended])\<lparr>suspensions :=
     [\<lparr>su_task_id = 1, su_workspace_id = 7, su_kind = ''callback'', su_resume_token = ''tok'', su_resume_at = None,
       su_payload = ''{}''\<rparr>]\<rparr>"

theorem resume_token_is_single_use_witness:
  "ResumeSuspendedTask demo_X demo_engine 9 ''tok'' JNull (snd (ResumeSuspendedTask demo_X demo_engine 5 ''tok'' JNull demo_suspended)) =
     (Inl ErrSuspensionNotFound, snd (ResumeSuspendedTask demo_X demo_engine 5 ''tok'' JNull demo_suspended))"
proof -
  have "wf_store demo_suspended" "distinct (map su_resume_token (suspensions demo_suspended))"
    "ResumeSuspendedTask demo_X demo_engine 5 ''tok'' JNull demo_suspended =
       (Inr 1, snd (ResumeSuspendedTask demo_X demo_engine 5 ''tok'' JNull demo_suspended))" by code_simp+
  from resume_token_is_single_use [OF this] show ?thesis by blast
qed



text \<open>
  A resume never revives a finished task. Whatever the token or the timer, a resume leaves every
  task that is not suspended exactly as it is; of a canceled one it only clears the stale suspension.
\<close>

lemma resume_leaves_other_tasks_alone:
  assumes "Work_ResumeTask X now tid db = Inr db' \<or> ResumeSuspendedTask X E now h payload db = (res, db')"
    and "t \<in> set (tasks db)" and "t_status t \<noteq> TSuspended"
  shows "t \<in> set (tasks db')"
proof -
  have keep: "t \<in> set (tasks db'')" if "resumeSuspended X now i out rd db = Inr (r, b, db'')" for i out rd r b db''
    using that
  proof (rule resumeSuspended_Inr)
    fix o' assume "tasks db'' = map (\<lambda>r. if t_id r = i \<and> t_status r = TSuspended then resume_row now o' r else r) (tasks db)"
    then show ?thesis using assms(2,3) by (auto simp: image_iff intro!: bexI [of _ t])
  qed
  show ?thesis
    using assms(1,2)
    by (auto simp: Work_ResumeTask_def ResumeSuspendedTask_def rbind_Inr_iff
        split: option.splits sum.splits prod.splits elim: keep)
qed

end
