(* ===== verification/Triggers_Api.thy ===== *)
theory Triggers_Api
  imports Accounts Scheduler Resume
begin

text \<open>
  Triggers and the two open endpoints that fire them or resume a task
  (\<^verbatim>\<open>internal/api/triggers.go\<close>, \<^verbatim>\<open>hooks.go\<close>, \<^verbatim>\<open>resume.go\<close>). A handler is a function from a request
  and the store to a response and the new store. HMAC-SHA256 is built from the digest as
  \<^verbatim>\<open>crypto/hmac\<close> does; the cron parser is the one of \<open>cron_env\<close>.
\<close>

section \<open>Managing triggers\<close>

definition isUniqueViolation :: "go_error \<Rightarrow> bool" where
  "isUniqueViolation e = errors_Is e UniqueViolation"

fun matches_webhook_path :: "string \<Rightarrow> bool" where
  "matches_webhook_path [] = False"
| "matches_webhook_path (c # s) = (slug_char c \<and> list_all (\<lambda>x. slug_char x \<or> x = CHR ''-'') s)"

text \<open>\<^verbatim>\<open>json.Unmarshal\<close> of a raw message into a struct of strings; an absent message is malformed.\<close>

fun raw_members :: "json option \<Rightarrow> (string \<times> json) list option" where
  "raw_members (Some (JObj ms)) = Some ms"
| "raw_members (Some JNull) = Some []"
| "raw_members _ = None"

definition raw_strings :: "json option \<Rightarrow> string list \<Rightarrow> (string \<Rightarrow> string) option" where
  "raw_strings raw ks =
     (case raw_members raw of
        None \<Rightarrow> None
      | Some ms \<Rightarrow>
          if list_all (\<lambda>k. field_ok dec_string [] k ms) ks then Some (\<lambda>k. field dec_string [] k ms) else None)"

definition validateTriggerConfig :: "cron_env \<Rightarrow> string \<Rightarrow> json option \<Rightarrow> (string \<times> json) list result" where
  "validateTriggerConfig C typ raw =
     (if typ = ''schedule'' then
        (case raw_strings raw [''cron''] of
           None \<Rightarrow> Inl (Wrapf ''invalid schedule config'' type_error)
         | Some cfg \<Rightarrow>
             let expr = TrimSpace (cfg ''cron'') in
             if expr = [] then Inl (Errorf ''schedule config requires a cron expression'')
             else case cron_ParseStandard C expr of
               Inl e \<Rightarrow> Inl (Wrapf ''invalid cron expression'' e)
             | Inr _ \<Rightarrow> Inr [(''cron'', JStr expr)])
      else if typ = ''webhook'' then
        (case raw_strings raw [''path'', ''secret''] of
           None \<Rightarrow> Inl (Wrapf ''invalid webhook config'' type_error)
         | Some cfg \<Rightarrow>
             let path = TrimSpace (cfg ''path'') in
             if \<not> matches_webhook_path path then Inl (Errorf ''webhook path must match ^[a-z0-9][a-z0-9-]*$'')
             else Inr ((''path'', JStr path) # (if cfg ''secret'' \<noteq> [] then [(''secret'', JStr (cfg ''secret''))] else [])))
      else Inl (Errorf ''type must be schedule or webhook''))"

fun err_text :: "go_error \<Rightarrow> string" where
  "err_text (Errorf m) = m"
| "err_text (Wrapf m e) = m @ '': '' @ err_text e"
| "err_text ErrNoRows = ''no rows in result set''"
| "err_text ErrSuspensionNotFound = ''suspension not found''"
| "err_text ErrNotWaiting = ''task is not waiting''"
| "err_text UniqueViolation = ''duplicate key value violates unique constraint (SQLSTATE 23505)''"
| "err_text ForeignKeyViolation = ''violates foreign key constraint (SQLSTATE 23503)''"
| "err_text InvalidTextRepresentation = ''invalid input syntax for type json (SQLSTATE 22P02)''"

text \<open>
  The SQL operator \<^verbatim>\<open>->>\<close> on a member of a configuration. Every configuration the API stores has
  string members only; the text of any other JSON value is not needed.
\<close>

definition config_text :: "string \<Rightarrow> (string \<times> json) list \<Rightarrow> string option" where
  "config_text k cfg = (case map_of cfg k of Some (JStr s) \<Rightarrow> Some s | _ \<Rightarrow> None)"

text \<open>The index \<^verbatim>\<open>triggers_webhook_path_unique\<close>: null paths never conflict.\<close>

definition path_taken :: "trigger_row \<Rightarrow> trigger_row list \<Rightarrow> bool" where
  "path_taken t ts \<longleftrightarrow>
     tr_type t = ''webhook'' \<and> config_text ''path'' (tr_config t) \<noteq> None \<and>
     (\<exists>t' \<in> set ts. tr_id t' \<noteq> tr_id t \<and> tr_type t' = ''webhook'' \<and> tr_workspace_id t' = tr_workspace_id t \<and>
        config_text ''path'' (tr_config t') = config_text ''path'' (tr_config t))"

definition insert_trigger :: "trigger_row \<Rightarrow> db \<Rightarrow> db result" where
  "insert_trigger t db =
     (if tr_id t \<in> tr_id ` set (triggers db) \<or> path_taken t (triggers db) then Inl UniqueViolation
      else if tr_workflow_id t \<notin> w_id ` set (workflows db) then Inl ForeignKeyViolation
      else Inr (db\<lparr>triggers := triggers db @ [t]\<rparr>))"

type_synonym db_handler = "request \<Rightarrow> db \<Rightarrow> response \<times> db"

definition path_exists :: string where
  "path_exists = ''a webhook with that path already exists in this workspace''"

text \<open>
  The creation times of triggers are not kept in the model: a table lists its rows in the order of
  creation, and the response leaves \<^verbatim>\<open>created_at\<close> out.
\<close>

definition listTriggers :: "externals \<Rightarrow> api_env \<Rightarrow> db_handler" where
  "listTriggers X A r db =
     (case ae_uuid_Parse A (PathValue r ''id'') of
        None \<Rightarrow> (s_error 400 ''invalid workflow id'', db)
      | Some i \<Rightarrow>
          (s_json 200 (JArr (map (\<lambda>t. JObj
             [(''id'', JStr (uuid_String X (tr_id t))), (''type'', JStr (tr_type t)), (''config'', JObj (tr_config t)),
              (''is_enabled'', JBool (tr_is_enabled t))])
             (filter (\<lambda>t. tr_workflow_id t = i \<and>
                (\<exists>w \<in> set (workflows db). w_id w = i \<and> w_workspace_id w = workspace r)) (triggers db)))), db))"

definition createTrigger :: "externals \<Rightarrow> api_env \<Rightarrow> cron_env \<Rightarrow> db_handler" where
  "createTrigger X A C r db =
     (case ae_uuid_Parse A (PathValue r ''id'') of
        None \<Rightarrow> (s_error 400 ''invalid workflow id'', db)
      | Some i \<Rightarrow>
          if \<not> strings_ok r [''type''] \<or> \<not> opt_bools_ok r [''is_enabled''] then (s_error 400 ''invalid body'', db)
          else case validateTriggerConfig C (string_field r ''type'') (raw_field r ''config'') of
            Inl e \<Rightarrow> (s_error 422 (err_text e), db)
          | Inr config \<Rightarrow>
              let enabled = (case opt_bool_field r ''is_enabled'' of None \<Rightarrow> True | Some b \<Rightarrow> b) in
              case find (\<lambda>w. w_id w = i \<and> w_workspace_id w = workspace r) (workflows db) of
                None \<Rightarrow> (s_error 404 ''workflow not found'', db)
              | Some w \<Rightarrow>
                  let t = \<lparr>tr_id = gen_random_uuid X (map tr_id (triggers db)), tr_workspace_id = w_workspace_id w,
                           tr_workflow_id = i, tr_type = string_field r ''type'', tr_config = config,
                           tr_is_enabled = enabled\<rparr> in
                  (case insert_trigger t db of
                     Inl e \<Rightarrow> (if isUniqueViolation e then s_error 409 path_exists else s_error 500 [], db)
                   | Inr db' \<Rightarrow> (s_json 201 (JObj [(''id'', JStr (uuid_String X (tr_id t)))]), db')))"

definition patch_trigger :: "(string \<times> json) list option \<Rightarrow> bool option \<Rightarrow> trigger_row \<Rightarrow> trigger_row" where
  "patch_trigger config enabled t =
     t\<lparr>tr_config := (case config of None \<Rightarrow> tr_config t | Some c \<Rightarrow> c),
       tr_is_enabled := (case enabled of None \<Rightarrow> tr_is_enabled t | Some b \<Rightarrow> b)\<rparr>"

definition update_trigger :: "uuid \<Rightarrow> uuid \<Rightarrow> (trigger_row \<Rightarrow> trigger_row) \<Rightarrow> db \<Rightarrow> db result" where
  "update_trigger i ws f db =
     (let ts = map (\<lambda>t. if tr_id t = i \<and> tr_workspace_id t = ws then f t else t) (triggers db) in
      if list_ex (\<lambda>t. tr_id t = i \<and> tr_workspace_id t = ws \<and> path_taken t ts) ts then Inl UniqueViolation
      else Inr (db\<lparr>triggers := ts\<rparr>))"

definition apply_patch ::
  "externals \<Rightarrow> request \<Rightarrow> uuid \<Rightarrow> (string \<times> json) list option \<Rightarrow> db \<Rightarrow> response \<times> db" where
  "apply_patch X r i config db =
     (case update_trigger i (workspace r) (patch_trigger config (opt_bool_field r ''is_enabled'')) db of
        Inl e \<Rightarrow> (if isUniqueViolation e then s_error 409 path_exists else s_error 500 [], db)
      | Inr db' \<Rightarrow> (s_json 200 (JObj [(''id'', JStr (uuid_String X i))]), db'))"

definition updateTrigger :: "externals \<Rightarrow> api_env \<Rightarrow> cron_env \<Rightarrow> db_handler" where
  "updateTrigger X A C r db =
     (case ae_uuid_Parse A (PathValue r ''id'') of
        None \<Rightarrow> (s_error 400 ''invalid trigger id'', db)
      | Some i \<Rightarrow>
          if \<not> opt_bools_ok r [''is_enabled''] then (s_error 400 ''invalid body'', db)
          else case find (\<lambda>t. tr_id t = i \<and> tr_workspace_id t = workspace r) (triggers db) of
            None \<Rightarrow> (s_error 404 ''trigger not found'', db)
          | Some t \<Rightarrow>
              (case raw_field r ''config'' of
                 None \<Rightarrow> apply_patch X r i None db
               | Some cfg \<Rightarrow>
                   if cfg = JNull then apply_patch X r i None db
                   else case validateTriggerConfig C (tr_type t) (Some cfg) of
                     Inl e \<Rightarrow> (s_error 422 (err_text e), db)
                   | Inr config \<Rightarrow> apply_patch X r i (Some config) db))"

text \<open>
  \<^verbatim>\<open>delete from triggers\<close>: \<^verbatim>\<open>runs.trigger_id references triggers(id)\<close> has no action on delete, so a
  trigger some run refers to cannot go.
\<close>

definition delete_trigger :: "uuid \<Rightarrow> uuid \<Rightarrow> db \<Rightarrow> (nat \<times> db) result" where
  "delete_trigger i ws db =
     (let mine = (\<lambda>t. tr_id t = i \<and> tr_workspace_id t = ws) in
      if list_ex mine (triggers db) \<and> list_ex (\<lambda>r. r_trigger_id r = Some i) (runs db) then Inl ForeignKeyViolation
      else Inr (length (filter mine (triggers db)), db\<lparr>triggers := filter (\<lambda>t. \<not> mine t) (triggers db)\<rparr>))"

definition deleteTrigger :: "api_env \<Rightarrow> db_handler" where
  "deleteTrigger A r db =
     (case ae_uuid_Parse A (PathValue r ''id'') of
        None \<Rightarrow> (s_error 400 ''invalid trigger id'', db)
      | Some i \<Rightarrow>
          (case delete_trigger i (workspace r) db of
             Inl e \<Rightarrow> (s_error 500 [], db)
           | Inr (n, db') \<Rightarrow>
               if n = 0 then (s_error 404 ''trigger not found'', db) else (WriteHeader 204, db')))"

section \<open>Webhook ingress\<close>

definition engineRunOpts :: "externals \<Rightarrow> uuid \<Rightarrow> string \<Rightarrow> run_opts" where
  "engineRunOpts X triggerID idempotencyKey =
     \<lparr>ro_TriggerID = Some triggerID,
      ro_IdempotencyKey = (if idempotencyKey \<noteq> [] then ''hook:'' @ uuid_String X triggerID @ '':'' @ idempotencyKey else [])\<rparr>"

definition xor_pad :: "nat \<Rightarrow> string \<Rightarrow> string" where
  "xor_pad p key = map (\<lambda>c. char_of (Bit_Operations.xor (of_char c) p)) key"

definition hmac_Sum :: "externals \<Rightarrow> string \<Rightarrow> string \<Rightarrow> string" where
  "hmac_Sum X key body =
     (let k = (if length key > 64 then sha256_Sum256 X key else key);
          k' = k @ replicate (64 - length k) (CHR 0x00) in
      sha256_Sum256 X (xor_pad 0x5C k' @ sha256_Sum256 X (xor_pad 0x36 k' @ body)))"

definition verifyHMAC :: "externals \<Rightarrow> string \<Rightarrow> string \<Rightarrow> string \<Rightarrow> bool" where
  "verifyHMAC X secret body signature = (hex_EncodeToString (hmac_Sum X secret body) = signature)"

text \<open>
  The query that resolves a webhook: workspace by slug, trigger by path, workflow by the trigger.
\<close>

definition resolve_webhook ::
  "workspace_row list \<Rightarrow> db \<Rightarrow> string \<Rightarrow> string \<Rightarrow> (workspace_row \<times> trigger_row \<times> workflow_row) list" where
  "resolve_webhook wss db slug path =
     [(ws, t, wfl). ws \<leftarrow> wss, ws_slug ws = slug, t \<leftarrow> triggers db,
        tr_workspace_id t = ws_id ws \<and> tr_type t = ''webhook'' \<and> config_text ''path'' (tr_config t) = Some path,
        wfl \<leftarrow> workflows db, w_id wfl = tr_workflow_id t]"

definition webhook_input :: "externals \<Rightarrow> request \<Rightarrow> json" where
  "webhook_input X r =
     JObj [(''body'', case json_Unmarshal X (rq_raw r) of Inr j \<Rightarrow> j | Inl _ \<Rightarrow> JStr (rq_raw r)),
           (''query'', JObj (List.map_filter (\<lambda>(k, v). case v of [] \<Rightarrow> None | x # _ \<Rightarrow> Some (k, JStr x)) (rq_query r)))]"

definition webhook :: "externals \<Rightarrow> workspace_row list \<Rightarrow> db_handler" where
  "webhook X wss r db =
     (case resolve_webhook wss db (PathValue r ''ws'') (PathValue r ''path'') of
        [] \<Rightarrow> (s_error 404 ''not found'', db)
      | (ws, t, wfl) # _ \<Rightarrow>
          let secret = (case config_text ''secret'' (tr_config t) of None \<Rightarrow> [] | Some s \<Rightarrow> s) in
          if \<not> tr_is_enabled t \<or> \<not> w_is_enabled wfl \<or> w_current_version_id wfl = None
          then (s_error 403 ''webhook is disabled'', db)
          else if secret \<noteq> [] \<and> \<not> verifyHMAC X secret (rq_raw r) (Header_Get r ''X-Oarlock-Signature'')
          then (s_error 403 ''invalid signature'', db)
          else case StartRunOpts X (rq_now r) (ws_id ws) (tr_workflow_id t) (webhook_input X r)
              (engineRunOpts X (tr_id t) (Header_Get r ''X-Idempotency-Key'')) db of
            Inl e \<Rightarrow> (if errors_Is e ErrNoRows then s_error 403 ''webhook is disabled'' else s_error 500 [], db)
          | Inr (runID, created, db') \<Rightarrow>
              (s_json (if created then 202 else 200) (JObj [(''run_id'', JStr (uuid_String X runID))]), db'))"

section \<open>Callback resume\<close>

definition resume_handler :: "externals \<Rightarrow> engine \<Rightarrow> db_handler" where
  "resume_handler X E r db =
     (let token = PathValue r ''token'' in
      if token = [] then (s_error 404 ''not found'', db)
      else case (if rq_raw r \<noteq> [] then json_Unmarshal X (rq_raw r) else Inr JNull) of
        Inl _ \<Rightarrow> (s_error 400 ''body must be JSON'', db)
      | Inr payload \<Rightarrow>
          (case ResumeSuspendedTask X E (rq_now r) (hashToken X token) payload db of
             (Inr runID, db') \<Rightarrow> (s_json 200 (JObj [(''run_id'', JStr (uuid_String X runID))]), db')
           | (Inl e, db') \<Rightarrow>
               (if errors_Is e ErrSuspensionNotFound then s_error 404 ''not found''
                else if errors_Is e ErrNotWaiting then s_error 409 ''not waiting''
                else s_error 500 [], db')))"

end
