(* ===== verification/Advance.thy ===== *)
theory Advance
  imports Store_Facts Expressions Sample
begin

text \<open>
  \<^verbatim>\<open>advanceRunWorker\<close> (\<^verbatim>\<open>internal/engine/advance.go\<close>): one transaction recomputes a run from its
  rows, resolves the \<^verbatim>\<open>if\<close> guards of the steps that became ready, and inserts their tasks and
  jobs. \<open>advanceRun\<close> is the transaction: \<open>Inr db'\<close> is a commit, \<open>Inl e\<close> a rollback. The guards read
  through the pool, hence the committed state \<open>db\<close> and not the rows the transaction has inserted.
\<close>

section \<open>Model\<close>

record scan =
  anyFailed :: bool
  allSucceeded :: bool
  ready :: "string list"

definition depsOK :: "(string \<Rightarrow> task_status option) \<Rightarrow> string list \<Rightarrow> bool" where
  "depsOK stepStatus needs =
     list_all (\<lambda>n. stepStatus n = Some TSucceeded \<or> stepStatus n = Some TSkipped) needs"

definition scan_step :: "(string \<Rightarrow> task_status option) \<Rightarrow> scan \<Rightarrow> step \<Rightarrow> scan" where
  "scan_step stepStatus sc s =
     (case stepStatus (st_key s) of
        Some st \<Rightarrow>
          (case st of
             TFailed \<Rightarrow> sc\<lparr>anyFailed := True, allSucceeded := False\<rparr>
           | TCanceled \<Rightarrow> sc\<lparr>anyFailed := True, allSucceeded := False\<rparr>
           | TSucceeded \<Rightarrow> sc
           | TSkipped \<Rightarrow> sc
           | _ \<Rightarrow> sc\<lparr>allSucceeded := False\<rparr>)
      | None \<Rightarrow>
          (if depsOK stepStatus (st_needs s) \<and> \<not> anyFailed sc
           then sc\<lparr>allSucceeded := False, ready := ready sc @ [st_key s]\<rparr>
           else sc\<lparr>allSucceeded := False\<rparr>))"

definition scan_steps :: "(string \<Rightarrow> task_status option) \<Rightarrow> step list \<Rightarrow> scan" where
  "scan_steps stepStatus ss =
     foldl (scan_step stepStatus) \<lparr>anyFailed = False, allSucceeded = True, ready = []\<rparr> ss"

text \<open>The map built from \<^verbatim>\<open>select distinct on (step_key) step_key, status\<close>.\<close>

definition stepStatus_of :: "db \<Rightarrow> uuid \<Rightarrow> string \<Rightarrow> task_status option" where
  "stepStatus_of db rid =
     map_of (map (\<lambda>t. (t_step_key t, t_status t)) (distinct_on_step (run_tasks db rid)))"

text \<open>\<open>Inl e\<close>: the expression itself errors; \<open>Inr skip\<close> otherwise.\<close>

definition evalGuard :: "externals \<Rightarrow> db \<Rightarrow> wf_definition \<Rightarrow> uuid \<Rightarrow> string \<Rightarrow> step \<Rightarrow> bool result" where
  "evalGuard X db def runID runInputRaw s =
     (case EvalExpression X (''!!('' @ st_if s @ '')'')
         (buildRunContext X db runID runInputRaw (TransitiveNeeds def (st_key s))) of
        Inl guardErr \<Rightarrow> Inl guardErr
      | Inr val \<Rightarrow> Inr (case val of JBool truthy \<Rightarrow> \<not> truthy | _ \<Rightarrow> True))"

definition insert_guard_row ::
  "externals \<Rightarrow> timestamp \<Rightarrow> run_row \<Rightarrow> string \<Rightarrow> task_status \<Rightarrow> string option \<Rightarrow> db \<times> bool \<Rightarrow> (db \<times> bool) result" where
  "insert_guard_row X now r key st err acc =
     (let db = fst acc in
      if (case err of None \<Rightarrow> False | Some e \<Rightarrow> \<not> jsonb_ok X e) then Inl InvalidTextRepresentation
      else rbind
        (insert_task_or_nothing
          ((new_task X now (r_id r) (r_workspace_id r) key 1 st db)
             \<lparr>t_error := err, t_finished_at := Some now\<rparr>) db)
        (\<lambda>ins. case ins of None \<Rightarrow> Inr acc | Some db' \<Rightarrow> Inr (db', True)))"

definition insert_ready_row :: "externals \<Rightarrow> timestamp \<Rightarrow> run_row \<Rightarrow> string \<Rightarrow> db \<times> bool \<Rightarrow> (db \<times> bool) result" where
  "insert_ready_row X now r key acc =
     (let t = new_task X now (r_id r) (r_workspace_id r) key 1 TQueued (fst acc) in
      rbind (insert_task_or_nothing t (fst acc))
        (\<lambda>ins. case ins of
           None \<Rightarrow> Inr acc
         | Some db' \<Rightarrow> Inr (InsertTx (ExecuteTaskArgs (t_id t)) None db', snd acc)))"

text \<open>The body of the loop over \<^verbatim>\<open>ready\<close>; the accumulator is the transaction's state and \<^verbatim>\<open>guardResolved\<close>.\<close>

definition advance_step ::
  "externals \<Rightarrow> timestamp \<Rightarrow> db \<Rightarrow> wf_definition \<Rightarrow> run_row \<Rightarrow> db \<times> bool \<Rightarrow> string \<Rightarrow> (db \<times> bool) result" where
  "advance_step X now committed def r acc key =
     (case Step def key of
        None \<Rightarrow> Inl (Errorf ''nil pointer dereference'')
      | Some s \<Rightarrow>
          if st_if s = [] then insert_ready_row X now r key acc
          else (case evalGuard X committed def (r_id r) (r_input r) s of
              Inl guardErr \<Rightarrow>
                insert_guard_row X now r key TFailed
                  (Some (message_json (''if condition: '' @ error_text guardErr))) acc
            | Inr True \<Rightarrow> insert_guard_row X now r key TSkipped None acc
            | Inr False \<Rightarrow> insert_ready_row X now r key acc))"

definition mark_failed :: "timestamp \<Rightarrow> run_row \<Rightarrow> run_row" where
  "mark_failed now r =
     r\<lparr>r_status := RFailed, r_finished_at := (case r_finished_at r of None \<Rightarrow> Some now | t \<Rightarrow> t)\<rparr>"

definition mark_succeeded :: "timestamp \<Rightarrow> run_row \<Rightarrow> run_row" where
  "mark_succeeded now r = r\<lparr>r_status := RSucceeded, r_finished_at := Some now\<rparr>"

definition mark_running :: "timestamp \<Rightarrow> run_row \<Rightarrow> run_row" where
  "mark_running now r =
     r\<lparr>r_status := RRunning, r_started_at := (case r_started_at r of None \<Rightarrow> Some now | t \<Rightarrow> t)\<rparr>"

definition set_run_failed :: "timestamp \<Rightarrow> uuid \<Rightarrow> db \<Rightarrow> db" where
  "set_run_failed now rid =
     update_runs (\<lambda>r. r_id r = rid \<and> r_status r \<noteq> RFailed \<and> r_status r \<noteq> RCanceled) (mark_failed now)"

definition set_run_succeeded :: "timestamp \<Rightarrow> uuid \<Rightarrow> db \<Rightarrow> db" where
  "set_run_succeeded now rid = update_runs (\<lambda>r. r_id r = rid) (mark_succeeded now)"

definition set_run_running :: "timestamp \<Rightarrow> uuid \<Rightarrow> db \<Rightarrow> db" where
  "set_run_running now rid = update_runs (\<lambda>r. r_id r = rid \<and> r_status r = RQueued) (mark_running now)"

definition load_run :: "db \<Rightarrow> uuid \<Rightarrow> (run_row \<times> json) result" where
  "load_run db rid =
     (case find_run db rid of
        None \<Rightarrow> Inl ErrNoRows
      | Some r \<Rightarrow>
          (case find_version db (r_version_id r) of
             None \<Rightarrow> Inl ErrNoRows
           | Some v \<Rightarrow> Inr (r, v_definition v)))"

definition advance_ready ::
  "externals \<Rightarrow> timestamp \<Rightarrow> wf_definition \<Rightarrow> run_row \<Rightarrow> string list \<Rightarrow> db \<Rightarrow> db result" where
  "advance_ready X now def r ks db =
     rbind (rfold (advance_step X now db def r) (db, False) ks)
       (\<lambda>(db1, guardResolved).
          let db2 = (if guardResolved then InsertTx (AdvanceRunArgs (r_id r)) None db1 else db1) in
          Inr (set_run_running now (r_id r) db2))"

definition advanceRun :: "externals \<Rightarrow> timestamp \<Rightarrow> uuid \<Rightarrow> db \<Rightarrow> db result" where
  "advanceRun X now runID db =
     (case load_run db runID of
        Inl e \<Rightarrow> Inl (Wrapf (''load run '' @ uuid_String X runID) e)
      | Inr (r, definitionRaw) \<Rightarrow>
          if run_terminal (r_status r) then Inr db
          else rbind (Parse definitionRaw)
            (\<lambda>def.
               let sc = scan_steps (stepStatus_of db runID) (d_steps def) in
               if anyFailed sc then Inr (set_run_failed now runID db)
               else if allSucceeded sc then Inr (set_run_succeeded now runID db)
               else advance_ready X now def r (ready sc) db))"

section \<open>The scan\<close>

lemma stepStatus_of_eq: "stepStatus_of db rid = step_status db rid"
  by (rule ext) (simp add: stepStatus_of_def map_of_distinct_on_step step_status_def)

lemma depsOK_iff: "depsOK (step_status db rid) ns \<longleftrightarrow> (\<forall>n \<in> set ns. step_done db rid n)"
  by (auto simp: depsOK_def list_all_iff step_done_def task_done_def split: option.splits)

lemma scan_fold:
  fixes sc :: scan and ss :: "step list" and m :: "string \<Rightarrow> task_status option"
  defines "sc' \<equiv> foldl (scan_step m) sc ss"
  shows "anyFailed sc' \<longleftrightarrow> anyFailed sc \<or> (\<exists>s \<in> set ss. \<exists>st. m (st_key s) = Some st \<and> task_bad st)"
    and "allSucceeded sc' \<longleftrightarrow> allSucceeded sc \<and> (\<forall>s \<in> set ss. \<exists>st. m (st_key s) = Some st \<and> task_done st)"
    and "\<not> anyFailed sc' \<Longrightarrow>
      ready sc' = ready sc @ map st_key (filter (\<lambda>s. m (st_key s) = None \<and> depsOK m (st_needs s)) ss)"
  unfolding sc'_def
proof (induction ss arbitrary: sc)
  case (Cons s ss)
  {
    case 1
    show ?case using Cons.IH(1) [of "scan_step m sc s"]
      by (auto simp: scan_step_def task_bad_def split: option.splits task_status.splits)
  next
    case 2
    show ?case using Cons.IH(2) [of "scan_step m sc s"]
      by (auto simp: scan_step_def task_done_def split: option.splits task_status.splits)
  next
    case 3
    then have "\<not> anyFailed (scan_step m sc s)" using Cons.IH(1) [of "scan_step m sc s"] by simp
    with 3 Cons.IH(3) [of "scan_step m sc s"] show ?case
      by (auto simp: scan_step_def split: option.splits task_status.splits if_splits)
  }
qed auto

text \<open>The summary the scan computes, read off the rows.\<close>

definition step_failed :: "db \<Rightarrow> uuid \<Rightarrow> string \<Rightarrow> bool" where
  "step_failed db rid k = (case step_status db rid k of None \<Rightarrow> False | Some s \<Rightarrow> task_bad s)"

definition step_ready :: "db \<Rightarrow> uuid \<Rightarrow> step \<Rightarrow> bool" where
  "step_ready db rid s \<longleftrightarrow>
     step_task db rid (st_key s) = None \<and> (\<forall>n \<in> set (st_needs s). step_done db rid n)"

text \<open>The steps whose tasks an advance inserts.\<close>

definition ready_keys :: "db \<Rightarrow> uuid \<Rightarrow> wf_definition \<Rightarrow> string list" where
  "ready_keys db rid d = map st_key (filter (step_ready db rid) (d_steps d))"

lemma scan_steps_spec:
  fixes db rid d
  defines "sc \<equiv> scan_steps (stepStatus_of db rid) (d_steps d)"
  shows "anyFailed sc \<longleftrightarrow> (\<exists>s \<in> set (d_steps d). step_failed db rid (st_key s))"
    and "allSucceeded sc \<longleftrightarrow> (\<forall>s \<in> set (d_steps d). step_done db rid (st_key s))"
    and "\<not> anyFailed sc \<Longrightarrow> ready sc = ready_keys db rid d"
proof -
  have failed: "(\<exists>st. step_status db rid k = Some st \<and> task_bad st) \<longleftrightarrow> step_failed db rid k" for k
    by (auto simp: step_failed_def split: option.splits)
  show "anyFailed sc \<longleftrightarrow> (\<exists>s \<in> set (d_steps d). step_failed db rid (st_key s))"
    "allSucceeded sc \<longleftrightarrow> (\<forall>s \<in> set (d_steps d). step_done db rid (st_key s))"
    by (simp_all add: sc_def scan_steps_def stepStatus_of_eq scan_fold failed step_done_iff)
  assume "\<not> anyFailed sc"
  then show "ready sc = ready_keys db rid d"
    by (simp add: ready_keys_def sc_def scan_steps_def stepStatus_of_eq scan_fold(3) depsOK_iff step_status_None_iff
        step_ready_def [abs_def])
qed

section \<open>The loop over the ready steps\<close>

lemma new_task_fields [simp]:
  "t_run_id (new_task X now rid ws k att st db) = rid" "t_workspace_id (new_task X now rid ws k att st db) = ws"
  "t_step_key (new_task X now rid ws k att st db) = k" "t_attempt (new_task X now rid ws k att st db) = att"
  "t_status (new_task X now rid ws k att st db) = st" "t_output (new_task X now rid ws k att st db) = None"
  by (simp_all add: new_task_def)

lemma insert_or_nothing_fresh:
  assumes "insert_task_or_nothing t db = Inr ins" "step_task db (t_run_id t) (t_step_key t) = None"
  shows "\<exists>db'. ins = Some db' \<and> insert_task t db = Inr db'"
  using assms
  by (auto simp: insert_task_or_nothing_def insert_task_def step_task_None_iff task_slot_def split: if_splits)

text \<open>The status a ready step starts with, by its guard.\<close>

definition guard_status :: "externals \<Rightarrow> db \<Rightarrow> wf_definition \<Rightarrow> run_row \<Rightarrow> string \<Rightarrow> task_status" where
  "guard_status X db d r key =
     (case Step d key of
        None \<Rightarrow> TFailed
      | Some s \<Rightarrow>
          if st_if s = [] then TQueued
          else (case evalGuard X db d (r_id r) (r_input r) s of
              Inl _ \<Rightarrow> TFailed | Inr skip \<Rightarrow> if skip then TSkipped else TQueued))"

text \<open>What one round inserts: a queued task with its job, or a resolved guard row.\<close>

definition round_inserts ::
  "(string \<Rightarrow> task_status) \<Rightarrow> run_row \<Rightarrow> string \<Rightarrow> db \<times> bool \<Rightarrow> db \<times> bool \<Rightarrow> task_row \<Rightarrow> bool" where
  "round_inserts gs r key acc acc' t \<longleftrightarrow>
     t_run_id t = r_id r \<and> t_workspace_id t = r_workspace_id r \<and> t_step_key t = key \<and> t_attempt t = 1 \<and>
     t_status t = gs key \<and>
     (\<exists>db'. insert_task t (fst acc) = Inr db' \<and>
        (t_status t = TQueued \<and> acc' = (InsertTx (ExecuteTaskArgs (t_id t)) None db', snd acc) \<or>
         t_status t \<in> {TFailed, TSkipped} \<and> acc' = (db', True)))"

lemma insert_ready_row_inserts:
  assumes ins: "insert_ready_row X now r key acc = Inr acc'"
    and fresh: "step_task (fst acc) (r_id r) key = None" and gs: "gs key = TQueued"
  shows "\<exists>t. round_inserts gs r key acc acc' t"
proof -
  let ?t = "new_task X now (r_id r) (r_workspace_id r) key 1 TQueued (fst acc)"
  obtain i where i: "insert_task_or_nothing ?t (fst acc) = Inr i"
    using ins by (auto simp: insert_ready_row_def rbind_Inr_iff Let_def)
  with insert_or_nothing_fresh [OF i] fresh ins gs have "round_inserts gs r key acc acc' ?t"
    by (auto simp: insert_ready_row_def round_inserts_def Let_def)
  then show ?thesis ..
qed

lemma insert_guard_row_inserts:
  assumes ins: "insert_guard_row X now r key st err acc = Inr acc'" and st: "st \<in> {TFailed, TSkipped}"
    and fresh: "step_task (fst acc) (r_id r) key = None" and gs: "gs key = st"
  shows "\<exists>t. round_inserts gs r key acc acc' t"
proof -
  let ?t = "(new_task X now (r_id r) (r_workspace_id r) key 1 st (fst acc))\<lparr>t_error := err, t_finished_at := Some now\<rparr>"
  obtain i where i: "insert_task_or_nothing ?t (fst acc) = Inr i"
    using ins by (auto simp: insert_guard_row_def rbind_Inr_iff Let_def split: if_splits)
  with insert_or_nothing_fresh [OF i] fresh ins st gs have "round_inserts gs r key acc acc' ?t"
    by (auto simp: insert_guard_row_def round_inserts_def Let_def split: if_splits)
  then show ?thesis ..
qed

lemma advance_step_inserts:
  assumes step: "advance_step X now committed def r acc key = Inr acc'"
    and fresh: "step_task (fst acc) (r_id r) key = None"
  shows "\<exists>t. round_inserts (guard_status X committed def r) r key acc acc' t"
  using step fresh
  by (auto simp: advance_step_def guard_status_def
      elim!: insert_ready_row_inserts insert_guard_row_inserts
      split: option.splits if_splits sum.splits bool.splits)

lemma round_next_attempt:
  assumes "step_task db (t_run_id t) (t_step_key t) = None" "t_attempt t = 1" "t_run_id t \<in> r_id ` set (runs db)"
  shows "next_attempt db t"
  using assms by (auto simp: next_attempt_def step_task_None_iff)

text \<open>What the whole loop does to the store.\<close>

definition loop_inserts ::
  "(string \<Rightarrow> task_status) \<Rightarrow> run_row \<Rightarrow> string list \<Rightarrow> db \<times> bool \<Rightarrow> db \<times> bool \<Rightarrow> task_row list \<Rightarrow> bool" where
  "loop_inserts gs r ks acc acc' news \<longleftrightarrow>
     tasks (fst acc') = tasks (fst acc) @ news \<and> map t_step_key news = ks \<and> map t_status news = map gs ks \<and>
     (\<forall>t \<in> set news. t_run_id t = r_id r \<and> t_workspace_id t = r_workspace_id r \<and> t_attempt t = 1 \<and>
        t_status t \<in> {TQueued, TFailed, TSkipped}) \<and>
     snd acc' = (snd acc \<or> (\<exists>t \<in> set news. t_status t \<noteq> TQueued)) \<and>
     job_set (fst acc') =
       job_set (fst acc) \<union> ExecuteTaskArgs ` t_id ` {t \<in> set news. t_status t = TQueued} \<and>
     runs (fst acc') = runs (fst acc) \<and> versions (fst acc') = versions (fst acc) \<and>
     suspensions (fst acc') = suspensions (fst acc) \<and> lifecycle (fst acc) (fst acc')"

lemma round_loop_inserts:
  assumes "round_inserts gs r key acc acc' t" "step_task (fst acc) (r_id r) key = None"
    "r_id r \<in> r_id ` set (runs (fst acc))"
  shows "loop_inserts gs r [key] acc acc' [t]"
proof -
  from assms(1) obtain db' where t: "t_run_id t = r_id r" "t_step_key t = key" "t_attempt t = 1"
    and ins: "insert_task t (fst acc) = Inr db'"
    and acc': "fst acc' = db' \<or> fst acc' = InsertTx (ExecuteTaskArgs (t_id t)) None db'"
    by (auto simp: round_inserts_def)
  have "next_attempt (fst acc) t"
    by (rule round_next_attempt) (use assms t in auto)
  moreover have "\<not> step_done (fst acc) (t_run_id t) (t_step_key t)"
    using assms(2) t by (simp add: step_done_def step_status_def)
  ultimately have "lifecycle (fst acc) db'"
    by (intro lifecycle_insert_task [OF ins])
  with acc' have "lifecycle (fst acc) (fst acc')"
    using lifecycle_trans [OF _ lifecycle_InsertTx] by auto
  with assms(1) show ?thesis
    by (auto simp: loop_inserts_def round_inserts_def insert_task_Inr store_simps)
qed

lemma loop_inserts_Cons:
  assumes "loop_inserts gs r [k] acc acc1 [t]" "loop_inserts gs r ks acc1 acc' news"
  shows "loop_inserts gs r (k # ks) acc acc' (t # news)"
proof -
  have "{u \<in> set (t # news). t_status u = TQueued} =
      {u \<in> set [t]. t_status u = TQueued} \<union> {u \<in> set news. t_status u = TQueued}" by auto
  moreover have "lifecycle (fst acc) (fst acc')"
    using assms lifecycle_trans [of "fst acc" "fst acc1" "fst acc'"] by (simp add: loop_inserts_def)
  ultimately show ?thesis
    using assms unfolding loop_inserts_def by (simp add: image_Un Un_assoc) metis
qed

lemma advance_loop:
  assumes "rfold (advance_step X now committed def r) acc ks = Inr acc'"
    and "distinct ks" "\<forall>k \<in> set ks. step_task (fst acc) (r_id r) k = None"
    and "r_id r \<in> r_id ` set (runs (fst acc))"
  shows "\<exists>news. loop_inserts (guard_status X committed def r) r ks acc acc' news"
  using assms
proof (induction ks arbitrary: acc)
  case Nil
  then have "loop_inserts (guard_status X committed def r) r [] acc acc' []" by (simp add: loop_inserts_def)
  then show ?case ..
next
  case (Cons k ks)
  then obtain acc1 where acc1: "advance_step X now committed def r acc k = Inr acc1"
    "rfold (advance_step X now committed def r) acc1 ks = Inr acc'"
    by (auto simp: rbind_Inr_iff)
  obtain t where t: "round_inserts (guard_status X committed def r) r k acc acc1 t"
    using advance_step_inserts [OF acc1(1)] Cons.prems by auto
  then have one: "loop_inserts (guard_status X committed def r) r [k] acc acc1 [t]"
    using Cons.prems by (intro round_loop_inserts) auto
  have "step_task (fst acc1) (r_id r) k' = None" if "k' \<in> set ks" for k'
    using one that Cons.prems(2,3) unfolding loop_inserts_def step_task_None_iff by auto
  with Cons.IH [OF acc1(2)] Cons.prems one obtain news where "loop_inserts (guard_status X committed def r) r ks acc1 acc' news"
    by (auto simp: loop_inserts_def)
  with one show ?case by (blast intro: loop_inserts_Cons)
qed

text \<open>A definition with a repeated key is harmless: the second insert conflicts and is dropped.\<close>

lemma advance_step_conflict:
  assumes "advance_step X now committed def r acc key = Inr acc'"
    and "(r_id r, key, 1) \<in> task_slot ` set (tasks (fst acc))"
  shows "acc' = acc"
  using assms
  by (auto simp: advance_step_def insert_ready_row_def insert_guard_row_def insert_task_or_nothing_def
      task_slot_def Let_def split: option.splits if_splits sum.splits bool.splits)

lemma advance_loop_lifecycle:
  assumes "rfold (advance_step X now committed def r) acc ks = Inr acc'"
    and "\<forall>k \<in> set ks. step_task (fst acc) (r_id r) k = None \<or> (r_id r, k, 1) \<in> task_slot ` set (tasks (fst acc))"
    and "r_id r \<in> r_id ` set (runs (fst acc))"
  shows "lifecycle (fst acc) (fst acc')"
  using assms
proof (induction ks arbitrary: acc)
  case (Cons k ks)
  then obtain acc1 where acc1: "advance_step X now committed def r acc k = Inr acc1"
    "rfold (advance_step X now committed def r) acc1 ks = Inr acc'"
    by (auto simp: rbind_Inr_iff)
  show ?case
  proof (cases "(r_id r, k, 1) \<in> task_slot ` set (tasks (fst acc))")
    case True
    then have "acc1 = acc" by (rule advance_step_conflict [OF acc1(1)])
    with Cons acc1 show ?thesis by auto
  next
    case False
    with Cons.prems(2) have fresh: "step_task (fst acc) (r_id r) k = None" by simp
    then obtain t where t: "round_inserts (guard_status X committed def r) r k acc acc1 t"
      using advance_step_inserts [OF acc1(1)] by auto
    then have one: "loop_inserts (guard_status X committed def r) r [k] acc acc1 [t]"
      using fresh Cons.prems(3) by (rule round_loop_inserts)
    then have tasks1: "tasks (fst acc1) = tasks (fst acc) @ [t]" "task_slot t = (r_id r, k, 1)"
      using t by (auto simp: loop_inserts_def round_inserts_def task_slot_def)
    have "step_task (fst acc1) (r_id r) k' = None \<or> (r_id r, k', 1) \<in> task_slot ` set (tasks (fst acc1))"
      if "k' \<in> set ks" for k'
      using Cons.prems(2) that tasks1 by (cases "k' = k") (auto simp: step_task_None_iff task_slot_def)
    with Cons.IH [OF acc1(2)] Cons.prems(3) one have "lifecycle (fst acc1) (fst acc')"
      by (auto simp: loop_inserts_def)
    with one show ?thesis by (auto simp: loop_inserts_def intro: lifecycle_trans)
  qed
qed simp

section \<open>The transaction\<close>

lemma mark_keeps_key [simp]:
  "keeps_run_key (mark_failed now)" "keeps_run_key (mark_succeeded now)" "keeps_run_key (mark_running now)"
  by (simp_all add: keeps_run_key_def same_run_def mark_failed_def mark_succeeded_def mark_running_def)

lemma load_run_Inr:
  "load_run db rid = Inr (r, j) \<longleftrightarrow> find_run db rid = Some r \<and> run_json db rid = Some j"
  by (auto simp: load_run_def run_json_def split: option.splits)

lemma find_run_SomeD: "find_run db rid = Some r \<Longrightarrow> r \<in> set (runs db) \<and> r_id r = rid"
  by (auto simp: find_run_def dest: find_SomeD)

text \<open>How the three status updates change the run they name.\<close>

lemma find_run_set_status:
  assumes "find_run db rid = Some r" "\<not> run_terminal (r_status r)"
  shows "find_run (set_run_failed now rid db) rid = Some (mark_failed now r)"
    and "find_run (set_run_succeeded now rid db) rid = Some (mark_succeeded now r)"
    and "find_run (set_run_running now rid db) rid = Some (if r_status r = RQueued then mark_running now r else r)"
  using assms find_run_SomeD [OF assms(1)]
  by (auto simp: set_run_failed_def set_run_succeeded_def set_run_running_def find_run_update_runs)

definition enqueued :: "timestamp \<Rightarrow> uuid \<Rightarrow> db \<times> bool \<Rightarrow> db" where
  "enqueued now rid acc =
     set_run_running now rid (if snd acc then InsertTx (AdvanceRunArgs rid) None (fst acc) else fst acc)"

lemma advanceRun_cases [consumes 1, case_names terminal failed succeeded enqueued]:
  assumes "advanceRun X now rid db = Inr db'"
  obtains r where "find_run db rid = Some r" "run_terminal (r_status r)" "db' = db"
  | r j d where "find_run db rid = Some r" "\<not> run_terminal (r_status r)"
      "run_json db rid = Some j" "Parse j = Inr d"
      "\<exists>s \<in> set (d_steps d). step_failed db rid (st_key s)" "db' = set_run_failed now rid db"
  | r j d where "find_run db rid = Some r" "\<not> run_terminal (r_status r)"
      "run_json db rid = Some j" "Parse j = Inr d"
      "\<forall>s \<in> set (d_steps d). step_done db rid (st_key s)" "db' = set_run_succeeded now rid db"
  | r j d acc where "find_run db rid = Some r" "\<not> run_terminal (r_status r)"
      "run_json db rid = Some j" "Parse j = Inr d"
      "\<forall>s \<in> set (d_steps d). \<not> step_failed db rid (st_key s)"
      "\<exists>s \<in> set (d_steps d). \<not> step_done db rid (st_key s)"
      "rfold (advance_step X now db d r) (db, False) (ready_keys db rid d) = Inr acc"
      "db' = enqueued now rid acc"
proof -
  from assms obtain r j where load: "load_run db rid = Inr (r, j)"
    by (auto simp: advanceRun_def split: sum.splits prod.splits)
  then have r: "find_run db rid = Some r" "run_json db rid = Some j" "r_id r = rid"
    by (auto simp: load_run_Inr dest: find_run_SomeD)
  show thesis
  proof (cases "run_terminal (r_status r)")
    case True
    with assms load r show ?thesis by (intro that(1)) (auto simp: advanceRun_def)
  next
    case False
    with assms load obtain d where d: "Parse j = Inr d" by (auto simp: advanceRun_def rbind_Inr_iff)
    define sc where "sc = scan_steps (stepStatus_of db rid) (d_steps d)"
    have adv: "(if anyFailed sc then Inr (set_run_failed now rid db)
        else if allSucceeded sc then Inr (set_run_succeeded now rid db)
        else advance_ready X now d r (ready sc) db) = Inr db'"
      using assms load False d
      by (simp add: advanceRun_def sc_def Let_def split: if_split_asm)
    consider "anyFailed sc" | "\<not> anyFailed sc" "allSucceeded sc" | "\<not> anyFailed sc" "\<not> allSucceeded sc" by blast
    then show ?thesis
    proof cases
      case 1
      with adv False r d show ?thesis by (intro that(2)) (auto simp: sc_def scan_steps_spec)
    next
      case 2
      with adv False r d show ?thesis by (intro that(3)) (auto simp: sc_def scan_steps_spec)
    next
      case 3
      note ready = scan_steps_spec(3) [OF 3(1) [unfolded sc_def], folded sc_def]
      from adv 3 obtain acc where "rfold (advance_step X now db d r) (db, False) (ready sc) = Inr acc"
        "db' = enqueued now rid acc"
        by (auto simp: advance_ready_def rbind_Inr_iff enqueued_def r(3) Let_def)
      with 3 False r d show ?thesis
        by (intro that(4)) (auto simp: sc_def scan_steps_spec ready [unfolded sc_def])
    qed
  qed
qed

lemma lifecycle_enqueued: "lifecycle (fst acc) (enqueued now rid acc)"
  unfolding enqueued_def set_run_running_def
  by (cases "snd acc")
    (simp_all add: lifecycle_update_runs lifecycle_trans [OF lifecycle_InsertTx lifecycle_update_runs])

lemma advanceRun_lifecycle:
  assumes "advanceRun X now rid db = Inr db'"
  shows "lifecycle db db'"
  using assms
proof (cases rule: advanceRun_cases)
  case (enqueued r j d acc)
  have "lifecycle (fst (db, False)) (fst acc)"
    using advance_loop_lifecycle [OF enqueued(7)] find_run_SomeD [OF enqueued(1)]
    by (auto simp: ready_keys_def step_ready_def)
  with enqueued(8) show ?thesis
    using lifecycle_trans [OF _ lifecycle_enqueued] by simp
qed (auto simp: set_run_failed_def set_run_succeeded_def intro: lifecycle_update_runs)

interpretation advance: task_lifecycle "\<lambda>db db'. \<exists>X now rid. advanceRun X now rid db = Inr db'"
  by unfold_locales (auto intro: advanceRun_lifecycle)

section \<open>What a commit leaves behind\<close>

lemma filter_key_singleton:
  assumes "distinct (map h xs)" "x \<in> set xs"
  shows "filter (\<lambda>y. h y = h x) xs = [x]"
  using assms by (induction xs) (auto simp: filter_empty_conv image_iff)

lemma step_task_append:
  assumes "tasks db' = tasks db @ news" "distinct (map t_step_key news)"
    and "\<And>t. t \<in> set news \<Longrightarrow> t_run_id t = rid \<and> step_task db rid (t_step_key t) = None"
  shows "t \<in> set news \<Longrightarrow> step_task db' rid (t_step_key t) = Some t"
    and "k \<notin> t_step_key ` set news \<Longrightarrow> step_task db' rid k = step_task db rid k"
    and "rid' \<noteq> rid \<Longrightarrow> step_task db' rid' k = step_task db rid' k"
proof -
  have news: "filter (\<lambda>t. t_run_id t = rid) news = news"
    using assms(3) by (simp add: filter_id_conv)
  have split: "step_tasks k (run_tasks db' rid) = step_tasks k (run_tasks db rid) @ filter (\<lambda>t. t_step_key t = k) news" for k
    unfolding step_tasks_def run_tasks_def assms(1) filter_append news ..
  {
    assume t: "t \<in> set news"
    then have "step_tasks (t_step_key t) (run_tasks db rid) = []"
      using assms(3) by (simp add: step_task_def latest_None_iff)
    with t show "step_task db' rid (t_step_key t) = Some t"
      using filter_key_singleton [OF assms(2) t] by (simp add: step_task_def split)
  next
    assume "k \<notin> t_step_key ` set news"
    then have "filter (\<lambda>t. t_step_key t = k) news = []" by (auto simp: filter_empty_conv)
    then show "step_task db' rid k = step_task db rid k" by (simp add: step_task_def split)
  next
    assume "rid' \<noteq> rid"
    then have "filter (\<lambda>t. t_run_id t = rid') news = []" using assms(3) by (auto simp: filter_empty_conv)
    then show "step_task db' rid' k = step_task db rid' k"
      by (simp add: step_task_def run_tasks_def assms(1))
  }
qed

lemma enqueued_fields [store_simps]:
  "tasks (enqueued now rid acc) = tasks (fst acc)" "versions (enqueued now rid acc) = versions (fst acc)"
  "suspensions (enqueued now rid acc) = suspensions (fst acc)"
  "job_set (enqueued now rid acc) = job_set (fst acc) \<union> (if snd acc then {AdvanceRunArgs rid} else {})"
  "runs (enqueued now rid acc) =
     map (\<lambda>r. if r_id r = rid \<and> r_status r = RQueued then mark_running now r else r) (runs (fst acc))"
  by (simp_all add: enqueued_def set_run_running_def store_simps)

lemma distinct_ready_keys: "distinct (map st_key (d_steps d)) \<Longrightarrow> distinct (ready_keys db rid d)"
  by (simp add: ready_keys_def distinct_map_filter)

lemma ready_keys_fresh: "k \<in> set (ready_keys db rid d) \<Longrightarrow> step_task db rid k = None"
  by (auto simp: ready_keys_def step_ready_def)

lemma advance_news:
  assumes "rfold (advance_step X now db d r) (db, False) (ready_keys db rid d) = Inr acc"
    and "find_run db rid = Some r" "distinct (map st_key (d_steps d))"
  obtains news where "loop_inserts (guard_status X db d r) r (ready_keys db rid d) (db, False) acc news"
    "\<forall>t \<in> set news. step_task (fst acc) rid (t_step_key t) = Some t"
    "\<forall>k. k \<notin> set (ready_keys db rid d) \<longrightarrow> step_task (fst acc) rid k = step_task db rid k"
proof -
  have r: "r_id r = rid" "r_id r \<in> r_id ` set (runs db)" using find_run_SomeD [OF assms(2)] by auto
  from advance_loop [OF assms(1) distinct_ready_keys [OF assms(3)]] r ready_keys_fresh [of _ db rid d]
  obtain news where news: "loop_inserts (guard_status X db d r) r (ready_keys db rid d) (db, False) acc news"
    by auto
  then have keys: "map t_step_key news = ready_keys db rid d" and tasks: "tasks (fst acc) = tasks db @ news"
    by (auto simp: loop_inserts_def)
  then have ks: "set (ready_keys db rid d) = t_step_key ` set news" by (metis list.set_map)
  have dist: "distinct (map t_step_key news)" unfolding keys by (rule distinct_ready_keys [OF assms(3)])
  have fresh: "t_run_id t = rid \<and> step_task db rid (t_step_key t) = None" if "t \<in> set news" for t
    using that news r(1) ready_keys_fresh [of "t_step_key t" db rid d] ks by (auto simp: loop_inserts_def)
  show thesis
  proof (rule that [OF news])
    show "\<forall>t \<in> set news. step_task (fst acc) rid (t_step_key t) = Some t"
      using step_task_append(1) [OF tasks dist fresh] by blast
    show "\<forall>k. k \<notin> set (ready_keys db rid d) \<longrightarrow> step_task (fst acc) rid k = step_task db rid k"
      using step_task_append(2) [OF tasks dist fresh] ks by simp
  qed
qed

lemma not_ready_has_active:
  assumes v: "valid_definition d known" and none: "ready_keys db rid d = []"
    and nofail: "\<forall>s \<in> set (d_steps d). \<not> step_failed db rid (st_key s)"
    and undone: "\<exists>s \<in> set (d_steps d). \<not> step_done db rid (st_key s)"
  shows "has_active_task db rid"
proof -
  from undone obtain s where "s \<in> set (d_steps d)" "st_key s \<notin> {k. step_done db rid k}" by auto
  from valid_definition_progress [OF v this] obtain t
    where t: "t \<in> set (d_steps d)" "\<not> step_done db rid (st_key t)" "\<forall>n \<in> set (st_needs t). step_done db rid n"
    by auto
  with none have "step_task db rid (st_key t) \<noteq> None"
    by (auto simp: ready_keys_def step_ready_def filter_empty_conv)
  then obtain u where u: "step_task db rid (st_key t) = Some u" by auto
  with t nofail have "task_active (t_status u)"
    by (cases "t_status u")
      (auto simp: step_done_def step_failed_def step_status_def task_done_def task_bad_def task_active_def)
  with step_task_SomeD [OF u] show ?thesis by (auto simp: has_active_task_def)
qed

lemma advance_enqueued_live:
  assumes v: "valid_definition d known" and r: "find_run db rid = Some r"
    and nofail: "\<forall>s \<in> set (d_steps d). \<not> step_failed db rid (st_key s)"
    and undone: "\<exists>s \<in> set (d_steps d). \<not> step_done db rid (st_key s)"
    and loop: "rfold (advance_step X now db d r) (db, False) (ready_keys db rid d) = Inr acc"
  shows "run_live (enqueued now rid acc) rid"
proof -
  obtain news where news: "loop_inserts (guard_status X db d r) r (ready_keys db rid d) (db, False) acc news"
    by (rule advance_news [OF loop r valid_definition_distinct [OF v]])
  show ?thesis
  proof (cases "ready_keys db rid d = []")
    case True
    with news not_ready_has_active [OF v True nofail undone] show ?thesis
      by (auto simp: run_live_def has_active_task_def loop_inserts_def store_simps)
  next
    case False
    with news obtain t where t: "t \<in> set news" "t_run_id t = rid" "t \<in> set (tasks (fst acc))"
      using find_run_SomeD [OF r] by (cases news) (auto simp: loop_inserts_def)
    show ?thesis
    proof (cases "t_status t = TQueued")
      case True
      with t show ?thesis by (auto simp: run_live_def has_active_task_def store_simps task_active_def)
    next
      case False
      with news t(1) have "snd acc" by (auto simp: loop_inserts_def)
      then show ?thesis by (simp add: run_live_def store_simps)
    qed
  qed
qed

lemma advanceRun_live:
  assumes adv: "advanceRun X now rid db = Inr db'"
    and def: "run_json db rid = Some j" "Parse j = Inr d" "valid_definition d known"
  shows "run_live db' rid"
  using adv
proof (cases rule: advanceRun_cases)
  case (terminal r)
  then show ?thesis by (simp add: run_live_def)
next
  case (failed r j' d')
  then show ?thesis
    by (simp add: run_live_def find_run_set_status mark_failed_def)
next
  case (succeeded r j' d')
  then show ?thesis
    by (simp add: run_live_def find_run_set_status mark_succeeded_def)
next
  case (enqueued r j' d' acc)
  with def have "d' = d" by simp
  with enqueued(5-8) show ?thesis
    using advance_enqueued_live [OF def(3) enqueued(1)] by simp
qed

section \<open>Properties\<close>

text \<open>
  An advance never strands a run. Whatever the rows of a run are, when its definition passes
  \<^verbatim>\<open>Validate\<close> and an advance of it commits, the run is then finished, or another advance of it is
  queued, or one of its tasks is still active and will report back.
\<close>

lemma advance_never_strands_a_run:
  assumes "advanceRun X now rid db = Inr db'"
    and "run_json db rid = Some j" and "Parse j = Inr d" and "Validate d known = None"
  shows "run_live db' rid"
  using assms(4) by (intro advanceRun_live [OF assms(1-3)]) (simp add: Validate_None_iff)

lemma loop_inserts_rows:
  assumes news: "loop_inserts gs r ks acc acc' news"
  shows "map (\<lambda>t. (t_run_id t, t_step_key t, t_attempt t, t_status t)) news = map (\<lambda>k. (r_id r, k, 1, gs k)) ks"
proof -
  have "t_run_id t = r_id r \<and> t_attempt t = 1" if "t \<in> set news" for t
    using news that by (simp add: loop_inserts_def)
  then have "map (\<lambda>t. (t_run_id t, t_step_key t, t_attempt t, t_status t)) news =
      map (\<lambda>(k, s). (r_id r, k, 1, s)) (zip (map t_step_key news) (map t_status news))"
    by (induction news) auto
  also have "\<dots> = map (\<lambda>(k, s). (r_id r, k, 1, s)) (zip ks (map gs ks))"
    using news by (simp add: loop_inserts_def)
  also have "\<dots> = map (\<lambda>k. (r_id r, k, 1, gs k)) ks" by (induction ks) auto
  finally show ?thesis .
qed

lemma find_run_enqueued:
  assumes "find_run db rid = Some r" "\<not> run_terminal (r_status r)" "runs (fst acc) = runs db"
  shows "find_run (enqueued now rid acc) rid = Some (if r_status r = RQueued then mark_running now r else r)"
proof -
  have "find_run (if snd acc then InsertTx (AdvanceRunArgs rid) None (fst acc) else fst acc) rid = Some r"
    using assms(1,3) by (simp add: find_run_def store_simps)
  from find_run_set_status(3) [OF this assms(2)] show ?thesis by (simp add: enqueued_def)
qed

text \<open>
  C4. What an advance decides. For a run that is not finished, a committing advance fails the run
  exactly when the latest attempt of some step failed or was canceled, succeeds it exactly when
  every step is done, and otherwise leaves it running; and it adds tasks only in the last case:
  one first attempt for each step that has no task and whose needs are all done, in the order of
  the definition, with the status its guard gives it.
\<close>

theorem advance_outcome:
  assumes adv: "advanceRun X now rid db = Inr db'" and r: "find_run db rid = Some r"
    and live: "\<not> run_terminal (r_status r)"
    and def: "run_json db rid = Some j" "Parse j = Inr d" and valid: "Validate d known = None"
  shows "\<exists>r' news. find_run db' rid = Some r' \<and> tasks db' = tasks db @ news \<and>
    (let failed = (\<exists>s \<in> set (d_steps d). step_failed db rid (st_key s));
         finished = (\<forall>s \<in> set (d_steps d). step_done db rid (st_key s)) in
     r_status r' = (if failed then RFailed else if finished then RSucceeded
       else if r_status r = RQueued then RRunning else r_status r) \<and>
     map (\<lambda>t. (t_run_id t, t_step_key t, t_attempt t, t_status t)) news =
       (if failed \<or> finished then []
        else map (\<lambda>k. (rid, k, 1, guard_status X db d r k)) (ready_keys db rid d)))"
  using adv
proof (cases rule: advanceRun_cases)
  case (terminal r')
  with r live show ?thesis by simp
next
  case (failed r' j' d')
  with r def have "find_run db' rid = Some (mark_failed now r)" "d' = d"
    by (auto simp: find_run_set_status)
  with failed show ?thesis
    by (intro exI [of _ "mark_failed now r"] exI [of _ "[]"])
      (simp add: set_run_failed_def store_simps mark_failed_def)
next
  case (succeeded r' j' d')
  with r def have "find_run db' rid = Some (mark_succeeded now r)" "d' = d"
    by (auto simp: find_run_set_status)
  moreover have "\<not> step_failed db rid (st_key s)" if "s \<in> set (d_steps d')" for s
    using succeeded(5) that
    by (auto simp: step_failed_def step_done_def task_bad_def task_done_def split: option.splits)
  ultimately show ?thesis using succeeded
    by (intro exI [of _ "mark_succeeded now r"] exI [of _ "[]"])
      (simp add: set_run_succeeded_def store_simps mark_succeeded_def)
next
  case (enqueued r' j' d' acc)
  with r def have eq: "r' = r" "d' = d" by auto
  obtain news where news: "loop_inserts (guard_status X db d r) r (ready_keys db rid d) (db, False) acc news"
    using valid by (auto intro: advance_news [OF enqueued(7) [unfolded eq] r] simp: Validate_None_iff valid_definition_distinct)
  have "map (\<lambda>t. (t_run_id t, t_step_key t, t_attempt t, t_status t)) news =
      map (\<lambda>k. (rid, k, 1, guard_status X db d r k)) (ready_keys db rid d)"
    using loop_inserts_rows [OF news] find_run_SomeD [OF r] by simp
  moreover have "find_run db' rid = Some (if r_status r = RQueued then mark_running now r else r)"
    using find_run_enqueued [OF r live] news enqueued(8) by (simp add: loop_inserts_def)
  ultimately show ?thesis
    using enqueued(5,6,8) news eq
    by (intro exI [of _ "if r_status r = RQueued then mark_running now r else r"] exI [of _ news])
      (auto simp: loop_inserts_def store_simps mark_running_def Let_def)
qed

theorem advance_outcome_witness:
  "\<exists>r' news. find_run (ok_or demo_db (advanceRun demo_X 5 1 demo_db)) 1 = Some r' \<and>
     tasks (ok_or demo_db (advanceRun demo_X 5 1 demo_db)) = news \<and>
     r_status r' = RRunning \<and>
     map (\<lambda>t. (t_run_id t, t_step_key t, t_attempt t, t_status t)) news = [(1, ''a'', 1, TQueued)]"
proof -
  have eqs: "tasks demo_db = []" "r_status demo_run = RQueued"
    "(\<exists>s \<in> set (d_steps demo_def). step_failed demo_db 1 (st_key s)) = False"
    "(\<forall>s \<in> set (d_steps demo_def). step_done demo_db 1 (st_key s)) = False"
    "map (\<lambda>k. (1::uuid, k, 1::int, guard_status demo_X demo_db demo_def demo_run k)) (ready_keys demo_db 1 demo_def) =
      [(1, ''a'', 1, TQueued)]" by code_simp+
  have "advanceRun demo_X 5 1 demo_db = Inr (ok_or demo_db (advanceRun demo_X 5 1 demo_db))"
    "find_run demo_db 1 = Some demo_run" "\<not> run_terminal (r_status demo_run)"
    "run_json demo_db 1 = Some demo_json" "Parse demo_json = Inr demo_def" "Validate demo_def None = None"
    by code_simp+
  from advance_outcome [OF this] show ?thesis
    unfolding Let_def eqs simp_thms if_True if_False append_Nil .
qed

lemma update_runs_id:
  assumes "\<And>r. r \<in> set (runs db) \<Longrightarrow> \<not> P r"
  shows "update_runs P f db = db"
proof -
  have "map (\<lambda>r. if P r then f r else r) (runs db) = runs db"
    using assms by (simp add: map_idI)
  then show ?thesis by (simp add: update_runs_def)
qed

text \<open>After an advance that resolved no guard, no step is ready any more and no verdict changed.\<close>

lemma advance_settles:
  assumes r: "find_run db rid = Some r" and valid: "valid_definition d known"
    and loop: "rfold (advance_step X now db d r) (db, False) (ready_keys db rid d) = Inr acc"
    and unresolved: "\<not> snd acc"
    and nofail: "\<forall>s \<in> set (d_steps d). \<not> step_failed db rid (st_key s)"
    and undone: "\<exists>s \<in> set (d_steps d). \<not> step_done db rid (st_key s)"
  defines "db' \<equiv> enqueued now rid acc"
  shows "\<forall>s \<in> set (d_steps d). \<not> step_failed db' rid (st_key s)"
    and "\<exists>s \<in> set (d_steps d). \<not> step_done db' rid (st_key s)"
    and "ready_keys db' rid d = []"
proof -
  obtain news where news: "loop_inserts (guard_status X db d r) r (ready_keys db rid d) (db, False) acc news"
    and new: "\<forall>t \<in> set news. step_task (fst acc) rid (t_step_key t) = Some t"
    and old: "\<forall>k. k \<notin> set (ready_keys db rid d) \<longrightarrow> step_task (fst acc) rid k = step_task db rid k"
    by (rule advance_news [OF loop r valid_definition_distinct [OF valid]])
  have same: "step_task db' rid k = step_task (fst acc) rid k" for k
    by (simp add: db'_def step_task_def run_tasks_def store_simps)
  have ks: "set (ready_keys db rid d) = t_step_key ` set news"
    using news by (metis loop_inserts_def list.set_map)
  have queued: "t_status t = TQueued" if "t \<in> set news" for t
    using news unresolved that by (auto simp: loop_inserts_def)
  have status: "step_status db' rid k = (if k \<in> set (ready_keys db rid d) then Some TQueued else step_status db rid k)" for k
    using new old queued ks by (auto simp: step_status_def same)
  have fresh: "step_status db rid k = None" if "k \<in> set (ready_keys db rid d)" for k
    using ready_keys_fresh [OF that] by (simp add: step_status_def)
  have dn: "step_done db' rid k \<longleftrightarrow> step_done db rid k" for k
    using fresh [of k] by (simp add: step_done_def status task_done_def)
  show "\<forall>s \<in> set (d_steps d). \<not> step_failed db' rid (st_key s)"
    using nofail by (auto simp: step_failed_def status task_bad_def)
  show "\<exists>s \<in> set (d_steps d). \<not> step_done db' rid (st_key s)"
    using undone by (simp add: dn)
  have "\<not> step_ready db' rid s" if "s \<in> set (d_steps d)" for s
  proof
    assume ready: "step_ready db' rid s"
    then have "st_key s \<notin> set (ready_keys db rid d)"
      using status [of "st_key s"] by (auto simp: step_ready_def step_status_def split: if_splits)
    with ready that show False
      using old same [of "st_key s"] dn
      by (auto simp: step_ready_def ready_keys_def)
  qed
  then show "ready_keys db' rid d = []" by (simp add: ready_keys_def filter_empty_conv)
qed

lemma run_json_enqueued:
  assumes "find_run db rid = Some r" "\<not> run_terminal (r_status r)" "runs (fst acc) = runs db"
    "versions (fst acc) = versions db"
  shows "run_json (enqueued now rid acc) rid = run_json db rid"
  using assms find_run_enqueued [OF assms(1-3)]
  by (simp add: run_json_def find_version_def store_simps mark_running_def)



end
