(* ===== verification/Workflows_Api.thy ===== *)
theory Workflows_Api
  imports Triggers_Api Advance "HOL-Library.Product_Lexorder"
begin

text \<open>
  Workflows, versions and runs over HTTP (\<^verbatim>\<open>internal/api/api.go\<close>) and the tools of the workspace's MCP
  server that start and inspect runs (\<^verbatim>\<open>mcpserver.go\<close>). Creation times of workflows and versions are
  not kept, a table lists its rows in the order of creation. What a jsonb column gives back for a
  document is the parameter \<open>jsonb_in\<close>: Postgres drops duplicate keys and reorders the members.
\<close>

section \<open>Workflows\<close>

text \<open>The messages of \<^verbatim>\<open>Validate\<close>; the ranges are written with an en dash.\<close>

definition en_dash :: string where
  "en_dash = [CHR 0xE2, CHR 0x80, CHR 0x93]"

fun def_error_text :: "def_error \<Rightarrow> string" where
  "def_error_text EmptyKey = ''step with empty key''"
| "def_error_text (DuplicateKey k) = ''duplicate step key '' @ quoted k"
| "def_error_text (NoType k) = ''step '' @ quoted k @ '' has no type''"
| "def_error_text (UnknownType k t) = ''step '' @ quoted k @ '' has unknown type '' @ quoted t"
| "def_error_text (RetriesRange k) = ''step '' @ quoted k @ '' retries must be 0'' @ en_dash @ ''10''"
| "def_error_text (TimeoutRange k) = ''step '' @ quoted k @ '' timeout must be 0'' @ en_dash @ ''600 seconds''"
| "def_error_text (NeedsUnknown k n) = ''step '' @ quoted k @ '' needs unknown step '' @ quoted n"
| "def_error_text (NeedsItself k) = ''step '' @ quoted k @ '' needs itself''"
| "def_error_text (CycleDetected k) = ''cycle detected involving step '' @ quoted k"
| "def_error_text NilDereference = ''invalid memory address or nil pointer dereference''"

definition validateDefinition :: "(string \<Rightarrow> bool) \<Rightarrow> json \<Rightarrow> string option" where
  "validateDefinition Has raw =
     (case Parse raw of
        Inl e \<Rightarrow> Some (err_text e)
      | Inr d \<Rightarrow> (case Validate d (Some Has) of None \<Rightarrow> None | Some e \<Rightarrow> Some (def_error_text e)))"

definition insert_workflow :: "workflow_row \<Rightarrow> db \<Rightarrow> db result" where
  "insert_workflow w db =
     (if w_id w \<in> w_id ` set (workflows db) \<or>
         (\<exists>w' \<in> set (workflows db). w_workspace_id w' = w_workspace_id w \<and> w_slug w' = w_slug w)
      then Inl UniqueViolation else Inr (db\<lparr>workflows := workflows db @ [w]\<rparr>))"

text \<open>\<^verbatim>\<open>insert into workflow_versions\<close>: refused by the keys \<^verbatim>\<open>id\<close> and \<^verbatim>\<open>(workflow_id, version)\<close>.\<close>

definition insert_version :: "version_row \<Rightarrow> db \<Rightarrow> db result" where
  "insert_version v db =
     (if v_id v \<in> v_id ` set (versions db) \<or>
         (\<exists>v' \<in> set (versions db). v_workflow_id v' = v_workflow_id v \<and> v_version v' = v_version v)
      then Inl UniqueViolation
      else if v_workflow_id v \<notin> w_id ` set (workflows db) then Inl ForeignKeyViolation
      else Inr (db\<lparr>versions := versions db @ [v]\<rparr>))"

definition update_workflows :: "(workflow_row \<Rightarrow> bool) \<Rightarrow> (workflow_row \<Rightarrow> workflow_row) \<Rightarrow> db \<Rightarrow> db" where
  "update_workflows P f db = db\<lparr>workflows := map (\<lambda>w. if P w then f w else w) (workflows db)\<rparr>"

definition set_current :: "uuid \<Rightarrow> uuid option \<Rightarrow> db \<Rightarrow> db" where
  "set_current i v db = update_workflows (\<lambda>w. w_id w = i) (\<lambda>w. w\<lparr>w_current_version_id := v\<rparr>) db"

definition empty_definition :: json where
  "empty_definition = JObj [(''steps'', JArr [])]"

definition createWorkflow :: "externals \<Rightarrow> (json \<Rightarrow> json) \<Rightarrow> (string \<Rightarrow> bool) \<Rightarrow> db_handler" where
  "createWorkflow X jsonb_in Has r db =
     (if \<not> strings_ok r [''name''] \<or> TrimSpace (string_field r ''name'') = [] then (s_error 400 ''name is required'', db)
      else let name = string_field r ''name'';
               defRaw = (case raw_field r ''definition'' of None \<Rightarrow> empty_definition | Some d \<Rightarrow> d) in
        case validateDefinition Has defRaw of
          Some e \<Rightarrow> (s_error 422 e, db)
        | None \<Rightarrow>
            let w = \<lparr>w_id = gen_random_uuid X (map w_id (workflows db)), w_workspace_id = workspace r, w_name = name,
                     w_slug = slugify name, w_is_enabled = False, w_current_version_id = None\<rparr>;
                v = \<lparr>v_id = gen_random_uuid X (map v_id (versions db)), v_workflow_id = w_id w, v_version = 1,
                     v_definition = jsonb_in defRaw\<rparr> in
            case insert_workflow w db of
              Inl e \<Rightarrow> (s_error 409 (''create workflow: '' @ err_text e), db)
            | Inr db1 \<Rightarrow>
                (case insert_version v db1 of
                   Inl _ \<Rightarrow> (s_error 500 [], db)
                 | Inr db2 \<Rightarrow>
                     (s_json 201 (JObj [(''id'', JStr (uuid_String X (w_id w))), (''version'', JNum ''1'')]),
                      set_current (w_id w) (Some (v_id v)) db2)))"

definition my_workflow :: "uuid \<Rightarrow> request \<Rightarrow> db \<Rightarrow> workflow_row option" where
  "my_workflow i r db = find (\<lambda>w. w_id w = i \<and> w_workspace_id w = workspace r) (workflows db)"

definition updateWorkflow :: "externals \<Rightarrow> api_env \<Rightarrow> db_handler" where
  "updateWorkflow X A r db =
     (case ae_uuid_Parse A (PathValue r ''id'') of
        None \<Rightarrow> (s_error 400 ''invalid workflow id'', db)
      | Some i \<Rightarrow>
          if \<not> opt_strings_ok r [''name''] \<or> \<not> opt_bools_ok r [''is_enabled''] then (s_error 400 ''invalid body'', db)
          else let name = map_option TrimSpace (opt_string_field r ''name''); enabled = opt_bool_field r ''is_enabled'';
                   f = (\<lambda>w. w\<lparr>w_name := (case name of None \<Rightarrow> w_name w | Some n \<Rightarrow> n),
                          w_is_enabled := (case enabled of None \<Rightarrow> w_is_enabled w | Some b \<Rightarrow> b)\<rparr>) in
            if name = Some [] then (s_error 400 ''name cannot be empty'', db)
            else case my_workflow i r db of
              None \<Rightarrow> (s_error 404 ''workflow not found'', db)
            | Some w \<Rightarrow>
                (s_json 200 (JObj [(''id'', JStr (uuid_String X i)), (''name'', JStr (w_name (f w))),
                   (''is_enabled'', JBool (w_is_enabled (f w)))]),
                 update_workflows (\<lambda>w. w_id w = i \<and> w_workspace_id w = workspace r) f db))"

text \<open>
  \<^verbatim>\<open>delete from workflows\<close> cascades to the versions, triggers and runs of the workflow, and on to the
  tasks of the runs and the suspensions of the tasks.
\<close>

definition delete_workflow :: "uuid \<Rightarrow> db \<Rightarrow> db" where
  "delete_workflow i db =
     (let gone_runs = r_id ` set (filter (\<lambda>r. r_workflow_id r = i) (runs db));
          gone_tasks = t_id ` set (filter (\<lambda>t. t_run_id t \<in> gone_runs) (tasks db)) in
      db\<lparr>workflows := filter (\<lambda>w. w_id w \<noteq> i) (workflows db),
         versions := filter (\<lambda>v. v_workflow_id v \<noteq> i) (versions db),
         triggers := filter (\<lambda>t. tr_workflow_id t \<noteq> i) (triggers db),
         runs := filter (\<lambda>r. r_workflow_id r \<noteq> i) (runs db),
         tasks := filter (\<lambda>t. t_run_id t \<notin> gone_runs) (tasks db),
         suspensions := filter (\<lambda>s. su_task_id s \<notin> gone_tasks) (suspensions db)\<rparr>)"

definition deleteWorkflow :: "api_env \<Rightarrow> db_handler" where
  "deleteWorkflow A r db =
     (case ae_uuid_Parse A (PathValue r ''id'') of
        None \<Rightarrow> (s_error 400 ''invalid workflow id'', db)
      | Some i \<Rightarrow>
          (case my_workflow i r db of
             None \<Rightarrow> (s_error 404 ''workflow not found'', db)
           | Some _ \<Rightarrow>
               let db' = delete_workflow i db in
               if list_all (\<lambda>r. run_references_ok r db') (runs db') then (WriteHeader 204, db')
               else (s_error 500 [], db)))"

definition next_version :: "uuid \<Rightarrow> db \<Rightarrow> int" where
  "next_version i db = foldl max 0 (map v_version (filter (\<lambda>v. v_workflow_id v = i) (versions db))) + 1"

text \<open>\<^verbatim>\<open>(select id from workflow_versions where workflow_id = $1 and version = $2)\<close>.\<close>

definition version_id :: "uuid \<Rightarrow> int \<Rightarrow> db \<Rightarrow> uuid option" where
  "version_id i n db = map_option v_id (find (\<lambda>v. v_workflow_id v = i \<and> v_version v = n) (versions db))"

definition putDefinition :: "externals \<Rightarrow> api_env \<Rightarrow> (json \<Rightarrow> json) \<Rightarrow> (string \<Rightarrow> bool) \<Rightarrow> db_handler" where
  "putDefinition X A jsonb_in Has r db =
     (case ae_uuid_Parse A (PathValue r ''id'') of
        None \<Rightarrow> (s_error 400 ''invalid workflow id'', db)
      | Some i \<Rightarrow>
          if \<not> body_is_struct (rq_body r) then (s_error 400 ''definition is required'', db)
          else case raw_field r ''definition'' of
            None \<Rightarrow> (s_error 400 ''definition is required'', db)
          | Some def \<Rightarrow>
              (case validateDefinition Has def of
                 Some e \<Rightarrow> (s_error 422 e, db)
               | None \<Rightarrow>
                   (case my_workflow i r db of
                      None \<Rightarrow> (s_error 404 ''workflow not found'', db)
                    | Some _ \<Rightarrow>
                        let n = next_version i db;
                            v = \<lparr>v_id = gen_random_uuid X (map v_id (versions db)), v_workflow_id = i, v_version = n,
                                 v_definition = jsonb_in def\<rparr> in
                        (case insert_version v db of
                           Inl _ \<Rightarrow> (s_error 500 [], db)
                         | Inr db1 \<Rightarrow>
                             (s_json 200 (JObj [(''id'', JStr (uuid_String X i)), (''version'', JNum (Itoa n))]),
                              set_current i (version_id i n db1) db1)))))"

section \<open>Reading workflows and versions\<close>

definition opt_int :: "int option \<Rightarrow> json" where
  "opt_int v = (case v of None \<Rightarrow> JNull | Some n \<Rightarrow> JNum (Itoa n))"

definition current_version :: "workflow_row \<Rightarrow> db \<Rightarrow> version_row option" where
  "current_version w db = Option.bind (w_current_version_id w) (find_version db)"

definition workflow_runs :: "uuid \<Rightarrow> db \<Rightarrow> run_row list" where
  "workflow_runs i db = filter (\<lambda>r. r_workflow_id r = i) (runs db)"

definition listWorkflows :: "externals \<Rightarrow> db_handler" where
  "listWorkflows X r db =
     (s_json 200 (JArr (map (\<lambda>w. JObj
        [(''id'', JStr (uuid_String X (w_id w))), (''name'', JStr (w_name w)), (''slug'', JStr (w_slug w)),
         (''is_enabled'', JBool (w_is_enabled w)), (''version'', opt_int (map_option v_version (current_version w db))),
         (''run_count'', JNum (Itoa (int (length (workflow_runs (w_id w) db))))),
         (''failed_count'', JNum (Itoa (int (length (filter (\<lambda>r. r_status r = RFailed) (workflow_runs (w_id w) db))))))])
        (rev (filter (\<lambda>w. w_workspace_id w = workspace r) (workflows db))))), db)"

definition getWorkflow :: "externals \<Rightarrow> api_env \<Rightarrow> db_handler" where
  "getWorkflow X A r db =
     (case ae_uuid_Parse A (PathValue r ''id'') of
        None \<Rightarrow> (s_error 400 ''invalid workflow id'', db)
      | Some i \<Rightarrow>
          (case my_workflow i r db of
             None \<Rightarrow> (s_error 404 ''workflow not found'', db)
           | Some w \<Rightarrow>
               (s_json 200 (JObj ([(''id'', JStr (uuid_String X i)), (''name'', JStr (w_name w)), (''slug'', JStr (w_slug w)),
                  (''is_enabled'', JBool (w_is_enabled w)), (''version'', opt_int (map_option v_version (current_version w db))),
                  (''run_count'', JNum ''0''), (''failed_count'', JNum ''0'')] @
                  (case current_version w db of None \<Rightarrow> [] | Some v \<Rightarrow> [(''definition'', v_definition v)]))), db)))"

definition step_count :: "json \<Rightarrow> int" where
  "step_count d = (case d of JObj ms \<Rightarrow> (case map_of ms ''steps'' of Some (JArr xs) \<Rightarrow> int (length xs) | _ \<Rightarrow> 0) | _ \<Rightarrow> 0)"

definition listVersions :: "api_env \<Rightarrow> db_handler" where
  "listVersions A r db =
     (case ae_uuid_Parse A (PathValue r ''id'') of
        None \<Rightarrow> (s_error 400 ''invalid workflow id'', db)
      | Some i \<Rightarrow>
          (s_json 200 (JArr (case my_workflow i r db of
             None \<Rightarrow> []
           | Some w \<Rightarrow> map (\<lambda>v. JObj
               [(''version'', JNum (Itoa (v_version v))), (''step_count'', JNum (Itoa (step_count (v_definition v)))),
                (''is_current'', JBool (w_current_version_id w = Some (v_id v)))])
               (rev (sort_key v_version (filter (\<lambda>v. v_workflow_id v = i) (versions db)))))), db))"

definition getVersion :: "api_env \<Rightarrow> db_handler" where
  "getVersion A r db =
     (case ae_uuid_Parse A (PathValue r ''id'') of
        None \<Rightarrow> (s_error 400 ''invalid workflow id'', db)
      | Some i \<Rightarrow>
          (case ParseInt (PathValue r ''version'') of
             None \<Rightarrow> (s_error 400 ''invalid version'', db)
           | Some n \<Rightarrow>
               (case (case my_workflow i r db of None \<Rightarrow> None
                      | Some _ \<Rightarrow> find (\<lambda>v. v_workflow_id v = i \<and> v_version v = n) (versions db)) of
                  None \<Rightarrow> (s_error 404 ''version not found'', db)
                | Some v \<Rightarrow>
                    (s_json 200 (JObj [(''version'', JNum (Itoa n)), (''definition'', v_definition v)]), db))))"

section \<open>Runs\<close>

text \<open>
  \<^verbatim>\<open>startRun\<close> ignores a body it cannot decode, and uses the fields decoded before the error.
\<close>

fun dec_input :: "json \<Rightarrow> json \<Rightarrow> json result" where
  "dec_input old (JObj m) = Inr (JObj (foldl (\<lambda>c p. AList.update (fst p) (snd p) c) (case old of JObj o' \<Rightarrow> o' | _ \<Rightarrow> []) m))"
| "dec_input old JNull = Inr JNull"
| "dec_input old _ = Inl type_error"

definition startRun :: "externals \<Rightarrow> api_env \<Rightarrow> db_handler" where
  "startRun X A r db =
     (case ae_uuid_Parse A (PathValue r ''id'') of
        None \<Rightarrow> (s_error 400 ''invalid workflow id'', db)
      | Some i \<Rightarrow>
          (case StartRunOpts X (rq_now r) (workspace r) i (field dec_input JNull ''input'' (body_members (rq_body r)))
              \<lparr>ro_TriggerID = None, ro_IdempotencyKey = string_field r ''idempotency_key''\<rparr> db of
             Inl e \<Rightarrow>
               (if errors_Is e ErrNoRows then s_error 404 ''workflow not found or has no version'' else s_error 500 [], db)
           | Inr (runID, created, db') \<Rightarrow>
               (s_json (if created then 201 else 200) (JObj [(''run_id'', JStr (uuid_String X runID))]), db')))"

definition cancelRun :: "api_env \<Rightarrow> db_handler" where
  "cancelRun A r db =
     (case ae_uuid_Parse A (PathValue r ''id'') of
        None \<Rightarrow> (s_error 400 ''invalid run id'', db)
      | Some i \<Rightarrow>
          (case CancelRun (rq_now r) (workspace r) i db of
             Inl e \<Rightarrow> (if errors_Is e ErrNoRows then s_error 404 ''run not found'' else s_error 409 (err_text e), db)
           | Inr db' \<Rightarrow> (s_json 200 (JObj [(''status'', JStr ''canceled'')]), db')))"

definition retryRun :: "externals \<Rightarrow> api_env \<Rightarrow> db_handler" where
  "retryRun X A r db =
     (case ae_uuid_Parse A (PathValue r ''id'') of
        None \<Rightarrow> (s_error 400 ''invalid run id'', db)
      | Some i \<Rightarrow>
          (case RetryRun X (rq_now r) (workspace r) i db of
             Inl e \<Rightarrow> (if errors_Is e ErrNoRows then s_error 404 ''run not found'' else s_error 409 (err_text e), db)
           | Inr db' \<Rightarrow> (s_json 200 (JObj [(''status'', JStr ''retrying'')]), db')))"

text \<open>
  Keyset pagination of \<^verbatim>\<open>listRuns\<close>: newest first, and after the cursor's \<open>(created_at, id)\<close>, pairs
  being compared lexicographically as SQL row values are.
\<close>

definition run_key :: "run_row \<Rightarrow> timestamp \<times> uuid" where
  "run_key r = (r_created_at r, r_id r)"

definition key_before :: "run_row \<Rightarrow> timestamp \<times> uuid \<Rightarrow> bool" where
  "key_before r k \<longleftrightarrow> run_key r < k"

definition newest_first :: "run_row list \<Rightarrow> run_row list" where
  "newest_first rs = rev (sort_key run_key rs)"

definition page_of_runs :: "uuid \<Rightarrow> uuid \<Rightarrow> (timestamp \<times> uuid) option \<Rightarrow> nat \<Rightarrow> db \<Rightarrow> run_row list" where
  "page_of_runs wsID i before limit db =
     take limit (newest_first (filter (\<lambda>r. r_workflow_id r = i \<and> r_workspace_id r = wsID \<and>
        (case before of None \<Rightarrow> True | Some k \<Rightarrow> key_before r k)) (runs db)))"

definition run_cursor :: "api_env \<Rightarrow> request \<Rightarrow> db \<Rightarrow> (timestamp \<times> uuid) option result" where
  "run_cursor A r db =
     (let b = Query_Get r ''before'' in
      if b = [] then Inr None
      else case ae_uuid_Parse A b of
        None \<Rightarrow> Inl (Errorf ''invalid before cursor'')
      | Some bid \<Rightarrow>
          (case find (\<lambda>q. r_id q = bid \<and> r_workspace_id q = workspace r) (runs db) of
             None \<Rightarrow> Inl (Errorf ''unknown before cursor'')
           | Some q \<Rightarrow> Inr (Some (run_key q))))"

text \<open>The message of the failed task that finished last, \<^verbatim>\<open>nulls last\<close>.\<close>

definition finished_later :: "task_row \<Rightarrow> task_row \<Rightarrow> bool" where
  "finished_later t b =
     (case t_finished_at t of
        None \<Rightarrow> False
      | Some x \<Rightarrow> (case t_finished_at b of None \<Rightarrow> True | Some y \<Rightarrow> y < x))"

definition error_summary :: "externals \<Rightarrow> db \<Rightarrow> uuid \<Rightarrow> string option" where
  "error_summary X db i =
     (case filter (\<lambda>t. t_status t = TFailed) (run_tasks db i) of
        [] \<Rightarrow> None
      | t # ts \<Rightarrow>
          Option.bind (t_error (foldl (\<lambda>b t. if finished_later t b then t else b) t ts)) (\<lambda>e.
            case json_Unmarshal X e of
              Inr (JObj m) \<Rightarrow> (case map_of m ''message'' of Some (JStr msg) \<Rightarrow> Some msg | _ \<Rightarrow> None)
            | _ \<Rightarrow> None))"

definition run_summary :: "externals \<Rightarrow> api_env \<Rightarrow> db \<Rightarrow> run_row \<Rightarrow> json" where
  "run_summary X A db q = JObj
     [(''id'', JStr (uuid_String X (r_id q))), (''status'', JStr (run_status_text (r_status q))),
      (''created_at'', JStr (ae_timestamptz_text A (r_created_at q))),
      (''started_at'', opt_str (map_option (ae_timestamptz_text A) (r_started_at q))),
      (''finished_at'', opt_str (map_option (ae_timestamptz_text A) (r_finished_at q))),
      (''version'', opt_int (map_option v_version (find_version db (r_version_id q)))),
      (''task_count'', JNum (Itoa (int (length (run_tasks db (r_id q)))))),
      (''error_summary'', opt_str (error_summary X db (r_id q)))]"

definition listRuns :: "externals \<Rightarrow> api_env \<Rightarrow> db_handler" where
  "listRuns X A r db =
     (case ae_uuid_Parse A (PathValue r ''id'') of
        None \<Rightarrow> (s_error 400 ''invalid workflow id'', db)
      | Some i \<Rightarrow>
          (case run_cursor A r db of
             Inl e \<Rightarrow> (s_error 400 (err_text e), db)
           | Inr before \<Rightarrow>
               (s_json 200 (JArr (map (run_summary X A db)
                  (page_of_runs (workspace r) i before (nat (clampLimit (Query_Get r ''limit'') 50 200)) db))), db)))"

section \<open>One run in detail\<close>

record run_detail =
  rd_run :: run_row
  rd_workflow :: workflow_row
  rd_version :: version_row
  rd_tasks :: "task_row list"      \<comment> \<open>\<^verbatim>\<open>order by queued_at, step_key, attempt\<close>\<close>

definition fetchRun :: "uuid \<Rightarrow> uuid \<Rightarrow> db \<Rightarrow> run_detail result" where
  "fetchRun wsID i db =
     (case find (\<lambda>q. r_id q = i \<and> r_workspace_id q = wsID) (runs db) of
        None \<Rightarrow> Inl ErrNoRows
      | Some q \<Rightarrow>
          (case find (\<lambda>w. w_id w = r_workflow_id q) (workflows db) of
             None \<Rightarrow> Inl ErrNoRows
           | Some w \<Rightarrow>
               (case find_version db (r_version_id q) of
                  None \<Rightarrow> Inl ErrNoRows
                | Some v \<Rightarrow> Inr \<lparr>rd_run = q, rd_workflow = w, rd_version = v,
                    rd_tasks = sort_key t_queued_at (sort_key t_step_key (sort_key t_attempt (run_tasks db i)))\<rparr>)))"

fun task_status_text :: "task_status \<Rightarrow> string" where
  "task_status_text TQueued = ''queued''"
| "task_status_text TRunning = ''running''"
| "task_status_text TSuspended = ''suspended''"
| "task_status_text TSucceeded = ''succeeded''"
| "task_status_text TFailed = ''failed''"
| "task_status_text TSkipped = ''skipped''"
| "task_status_text TCanceled = ''canceled''"

text \<open>A \<^verbatim>\<open>json.RawMessage\<close> read from a jsonb column, put into a response as it is.\<close>

definition raw_json :: "externals \<Rightarrow> string option \<Rightarrow> json" where
  "raw_json X t = (case t of None \<Rightarrow> JNull | Some s \<Rightarrow> (case json_Unmarshal X s of Inr j \<Rightarrow> j | Inl _ \<Rightarrow> JNull))"

definition task_json :: "externals \<Rightarrow> api_env \<Rightarrow> task_row \<Rightarrow> json" where
  "task_json X A t = JObj
     [(''id'', JStr (uuid_String X (t_id t))), (''step_key'', JStr (t_step_key t)), (''attempt'', JNum (Itoa (t_attempt t))),
      (''status'', JStr (task_status_text (t_status t))), (''output'', raw_json X (t_output t)), (''error'', raw_json X (t_error t)),
      (''queued_at'', JStr (ae_timestamptz_text A (t_queued_at t))),
      (''started_at'', opt_str (map_option (ae_timestamptz_text A) (t_started_at t))),
      (''finished_at'', opt_str (map_option (ae_timestamptz_text A) (t_finished_at t)))]"

definition detail_json :: "externals \<Rightarrow> api_env \<Rightarrow> run_detail \<Rightarrow> json" where
  "detail_json X A d =
     (let q = rd_run d in JObj
      [(''id'', JStr (uuid_String X (r_id q))), (''workflow_id'', JStr (uuid_String X (r_workflow_id q))),
       (''workflow_name'', JStr (w_name (rd_workflow d))), (''version'', JNum (Itoa (v_version (rd_version d)))),
       (''definition'', v_definition (rd_version d)), (''status'', JStr (run_status_text (r_status q))),
       (''input'', raw_json X (Some (r_input q))), (''error'', raw_json X (r_error q)),
       (''created_at'', JStr (ae_timestamptz_text A (r_created_at q))),
       (''started_at'', opt_str (map_option (ae_timestamptz_text A) (r_started_at q))),
       (''finished_at'', opt_str (map_option (ae_timestamptz_text A) (r_finished_at q))),
       (''tasks'', JArr (map (task_json X A) (rd_tasks d)))])"

definition getRun :: "externals \<Rightarrow> api_env \<Rightarrow> db_handler" where
  "getRun X A r db =
     (case ae_uuid_Parse A (PathValue r ''id'') of
        None \<Rightarrow> (s_error 400 ''invalid run id'', db)
      | Some i \<Rightarrow>
          (case fetchRun (workspace r) i db of
             Inl e \<Rightarrow> (if errors_Is e ErrNoRows then s_error 404 ''run not found'' else s_error 500 [], db)
           | Inr d \<Rightarrow> (s_json 200 (detail_json X A d), db)))"

section \<open>MCP tools\<close>

definition isTerminal :: "string \<Rightarrow> bool" where
  "isTerminal status \<longleftrightarrow> status \<in> {''succeeded'', ''failed'', ''canceled''}"

definition stepOutputs :: "run_detail \<Rightarrow> (string \<times> string) list" where
  "stepOutputs d =
     foldl (\<lambda>out t. case t_output t of
         Some o' \<Rightarrow> if t_status t = TSucceeded \<and> o' \<noteq> [] then AList.update (t_step_key t) o' out else out
       | None \<Rightarrow> out) [] (rd_tasks d)"

text \<open>The start part of the tool \<^verbatim>\<open>run_workflow\<close>: resolve by id or slug, then start.\<close>

definition mcpRunWorkflow ::
  "externals \<Rightarrow> timestamp \<Rightarrow> uuid \<Rightarrow> string \<Rightarrow> json \<Rightarrow> db \<Rightarrow> (uuid \<times> db) result" where
  "mcpRunWorkflow X now wsID arg0 input db =
     (let arg = TrimSpace arg0 in
      if arg = [] then Inl (Errorf ''workflow is required'')
      else case find (\<lambda>w. w_workspace_id w = wsID \<and> (uuid_String X (w_id w) = arg \<or> w_slug w = arg)) (workflows db) of
        None \<Rightarrow> Inl (Errorf ''workflow not found'')
      | Some w \<Rightarrow>
          if \<not> w_is_enabled w then Inl (Errorf ''workflow is disabled'')
          else if w_current_version_id w = None then Inl (Errorf ''workflow has no saved version'')
          else case StartRunOpts X now wsID (w_id w) input zero_opts db of
            Inl e \<Rightarrow> Inl (if errors_Is e ErrNoRows then Errorf ''workflow is disabled'' else e)
          | Inr (runID, _, db') \<Rightarrow> Inr (runID, db'))"

text \<open>How long the tool waits: \<open>None\<close> answers at once with status \<^verbatim>\<open>queued\<close>.\<close>

definition wait_seconds :: "int \<Rightarrow> int option" where
  "wait_seconds w = (if w \<le> 0 then None else Some (if w > 60 then 60 else w))"

definition outputs_json :: "externals \<Rightarrow> run_detail \<Rightarrow> json" where
  "outputs_json X d = JObj (map (\<lambda>(k, out). (k, raw_json X (Some out))) (stepOutputs d))"

definition mcpGetRunStatus :: "externals \<Rightarrow> api_env \<Rightarrow> uuid \<Rightarrow> string \<Rightarrow> db \<Rightarrow> json result" where
  "mcpGetRunStatus X A wsID arg db =
     (case ae_uuid_Parse A (TrimSpace arg) of
        None \<Rightarrow> Inl (Errorf ''run not found'')
      | Some i \<Rightarrow>
          (case fetchRun wsID i db of
             Inl e \<Rightarrow> Inl (if errors_Is e ErrNoRows then Errorf ''run not found'' else e)
           | Inr d \<Rightarrow> Inr (JObj
               [(''run_id'', JStr (uuid_String X (r_id (rd_run d)))),
                (''status'', JStr (run_status_text (r_status (rd_run d)))),
                (''created_at'', JStr (ae_timestamptz_text A (r_created_at (rd_run d)))),
                (''finished_at'', opt_str (map_option (ae_timestamptz_text A) (r_finished_at (rd_run d)))),
                (''tasks'', JArr (map (\<lambda>t. JObj ([(''step_key'', JStr (t_step_key t)), (''attempt'', JNum (Itoa (t_attempt t))),
                   (''status'', JStr (task_status_text (t_status t)))] @
                   (case t_error t of None \<Rightarrow> [] | Some e \<Rightarrow> [(''error'', raw_json X (Some e))]))) (rd_tasks d))),
                (''outputs'', outputs_json X d)])))"

definition mcpListWorkflows :: "externals \<Rightarrow> uuid \<Rightarrow> db \<Rightarrow> json" where
  "mcpListWorkflows X wsID db =
     JArr (concat (map (\<lambda>w. case current_version w db of
         None \<Rightarrow> []
       | Some v \<Rightarrow> [JObj [(''id'', JStr (uuid_String X (w_id w))), (''name'', JStr (w_name w)), (''slug'', JStr (w_slug w)),
           (''is_enabled'', JBool (w_is_enabled w)), (''version'', JNum (Itoa (v_version v))),
           (''steps'', JNum (Itoa (step_count (v_definition v))))]])
       (sort_key w_name (filter (\<lambda>w. w_workspace_id w = wsID) (workflows db)))))"

text \<open>
  The polling loop of \<^verbatim>\<open>run_workflow\<close> with a wait: the observations are the states of the store at the
  successive ticks with their times, and the answer is that of the first tick at which the run is
  finished or the deadline has passed. \<open>None\<close> while no such tick has come.
\<close>

fun wait_for_run ::
  "externals \<Rightarrow> uuid \<Rightarrow> uuid \<Rightarrow> timestamp \<Rightarrow> (timestamp \<times> db) list \<Rightarrow> json result option" where
  "wait_for_run X wsID i deadline [] = None"
| "wait_for_run X wsID i deadline ((now, db) # later) =
     (case fetchRun wsID i db of
        Inl e \<Rightarrow> Some (Inl e)
      | Inr d \<Rightarrow>
          let st = run_status_text (r_status (rd_run d)) in
          if isTerminal st then
            Some (Inr (JObj [(''run_id'', JStr (uuid_String X i)), (''status'', JStr st), (''outputs'', outputs_json X d)]))
          else if deadline < now then
            Some (Inr (JObj [(''run_id'', JStr (uuid_String X i)), (''status'', JStr st)]))
          else wait_for_run X wsID i deadline later)"

end
