(* ===== verification/Reaper.thy ===== *)
theory Reaper
  imports Resume
begin

text \<open>
  The reaper (\<^verbatim>\<open>internal/engine/reaper.go\<close>): a sweep reads the tasks that have been \<^verbatim>\<open>running\<close> for more
  than twenty minutes and fails each in a transaction of its own, with the same retry rule as
  \<open>finishTask\<close>. The error of one task does not stop the sweep.
\<close>

section \<open>Model\<close>

record orphan =
  or_id :: uuid
  or_runID :: uuid
  or_workspaceID :: uuid
  or_stepKey :: string
  or_attempt :: int
  or_definitionRaw :: json

definition orphanedMessage :: string where
  "orphanedMessage = ''task orphaned: worker exited or timed out''"

definition stuck :: "timestamp \<Rightarrow> task_row \<Rightarrow> bool" where
  "stuck now t \<longleftrightarrow>
     t_status t = TRunning \<and> (case t_started_at t of None \<Rightarrow> False | Some s \<Rightarrow> s < now - 20 * Minute)"

definition orphan_of :: "db \<Rightarrow> task_row \<Rightarrow> orphan option" where
  "orphan_of db t =
     (case load_task db (t_id t) of
        Inr (_, _, j) \<Rightarrow> Some \<lparr>or_id = t_id t, or_runID = t_run_id t, or_workspaceID = t_workspace_id t,
          or_stepKey = t_step_key t, or_attempt = t_attempt t, or_definitionRaw = j\<rparr>
      | Inl _ \<Rightarrow> None)"

definition select_orphans :: "timestamp \<Rightarrow> db \<Rightarrow> orphan list" where
  "select_orphans now db = List.map_filter (orphan_of db) (filter (stuck now) (tasks db))"

definition orphan_retries :: "orphan \<Rightarrow> int" where
  "orphan_retries o' =
     (case Parse (or_definitionRaw o') of
        Inl _ \<Rightarrow> 0
      | Inr def \<Rightarrow> (case Step def (or_stepKey o') of None \<Rightarrow> 0 | Some s \<Rightarrow> st_retries s))"

definition reap_row :: "timestamp \<Rightarrow> string \<Rightarrow> task_row \<Rightarrow> task_row" where
  "reap_row now err t = t\<lparr>t_status := TFailed, t_error := Some err, t_finished_at := Some now\<rparr>"

definition reapTask :: "externals \<Rightarrow> timestamp \<Rightarrow> orphan \<Rightarrow> db \<Rightarrow> db result" where
  "reapTask X now o' db =
     (let errJSON = message_json orphanedMessage;
          guard = (\<lambda>r. t_id r = or_id o' \<and> t_status r = TRunning) in
      if \<not> jsonb_ok X errJSON then Inl InvalidTextRepresentation
      else if tasks_affected guard db = 0 then Inr db
      else
        rbind
          (let db1 = update_tasks guard (reap_row now errJSON) db in
           if or_attempt o' \<le> orphan_retries o'
           then insert_attempt X now (or_runID o') (or_workspaceID o') (or_stepKey o') (or_attempt o' + 1)
             (Some (now + backoff (or_attempt o'))) db1
           else Inr db1)
          (\<lambda>db2. Inr (InsertTx (AdvanceRunArgs (or_runID o')) None db2)))"

definition reap_each :: "externals \<Rightarrow> timestamp \<Rightarrow> orphan list \<Rightarrow> db \<Rightarrow> db" where
  "reap_each X now os db = foldl (\<lambda>db o'. case reapTask X now o' db of Inr db' \<Rightarrow> db' | Inl _ \<Rightarrow> db) db os"

definition reapOrphans :: "externals \<Rightarrow> timestamp \<Rightarrow> db \<Rightarrow> db" where
  "reapOrphans X now db = reap_each X now (select_orphans now db) db"

section \<open>The contract\<close>

definition orphan_ok :: "orphan \<Rightarrow> db \<Rightarrow> bool" where
  "orphan_ok o' db \<longleftrightarrow>
     (\<exists>row \<in> set (tasks db). t_id row = or_id o' \<and> task_slot row = (or_runID o', or_stepKey o', or_attempt o'))"

lemma orphan_ok_lifecycle: "lifecycle db db' \<Longrightarrow> orphan_ok o' db \<Longrightarrow> orphan_ok o' db'"
  unfolding orphan_ok_def using lifecycleD(2) unfolding row_evolves_def by metis

lemma orphan_of_Some:
  "orphan_of db t = Some o' \<Longrightarrow>
     or_id o' = t_id t \<and> task_slot t = (or_runID o', or_stepKey o', or_attempt o')"
  by (auto simp: orphan_of_def task_slot_def split: sum.splits)

lemma select_orphans_ok:
  assumes "o' \<in> set (select_orphans now db)"
  shows "\<exists>t \<in> set (tasks db). t_id t = or_id o' \<and> task_slot t = (or_runID o', or_stepKey o', or_attempt o') \<and> stuck now t"
  using assms by (auto simp: select_orphans_def set_map_filter_iff dest!: orphan_of_Some)

lemma keeps_slot_reap [simp]: "keeps_slot (reap_row now err)"
  by (simp add: keeps_slot_def reap_row_def)

lemma reapTask_cases:
  assumes "reapTask X now o' db = Inr db'"
  obtains (dropped) "db' = db" "\<forall>row \<in> set (tasks db). \<not> (t_id row = or_id o' \<and> t_status row = TRunning)"
  | (reaped) db1 db2 where "\<exists>row \<in> set (tasks db). t_id row = or_id o' \<and> t_status row = TRunning"
      "db1 = update_tasks (\<lambda>r. t_id r = or_id o' \<and> t_status r = TRunning) (reap_row now (message_json orphanedMessage)) db"
      "if or_attempt o' \<le> orphan_retries o'
       then insert_attempt X now (or_runID o') (or_workspaceID o') (or_stepKey o') (or_attempt o' + 1)
         (Some (now + backoff (or_attempt o'))) db1 = Inr db2
       else db2 = db1"
      "db' = InsertTx (AdvanceRunArgs (or_runID o')) None db2"
proof -
  let ?P = "\<lambda>r. t_id r = or_id o' \<and> t_status r = TRunning"
  consider "tasks_affected ?P db = 0" | "tasks_affected ?P db \<noteq> 0" by blast
  then show thesis
  proof cases
    case 1
    then have "\<forall>row \<in> set (tasks db). \<not> ?P row" using tasks_affected_pos [of ?P db] by blast
    moreover have "db' = db" using assms 1 by (simp add: reapTask_def Let_def split: if_splits)
    ultimately show ?thesis by (intro dropped)
  next
    case 2
    then have ex: "\<exists>row \<in> set (tasks db). ?P row" using tasks_affected_pos [of ?P db] by blast
    from assms 2 show ?thesis
      by (cases "or_attempt o' \<le> orphan_retries o'")
        (auto simp: reapTask_def Let_def rbind_Inr_iff split: if_splits intro: reaped [OF ex refl])
  qed
qed

lemma reapTask_lifecycle:
  assumes reap: "reapTask X now o' db = Inr db'" and ok: "orphan_ok o' db" and wf: "wf_store db"
  shows "lifecycle db db'"
  using reap
proof (cases rule: reapTask_cases)
  case dropped
  then show ?thesis by simp
next
  case (reaped db1 db2)
  let ?P = "\<lambda>r. t_id r = or_id o' \<and> t_status r = TRunning"
  have first: "lifecycle db db1" unfolding reaped(2)
    by (rule lifecycle_update_tasks) (auto simp: task_active_def)
  obtain row where row: "row \<in> set (tasks db)" "?P row" using reaped(1) by blast
  with ok have slot: "task_slot row = (or_runID o', or_stepKey o', or_attempt o')"
    using row_unique [OF wf, of _ row] unfolding orphan_ok_def by metis
  have "may_redo db1 (t_run_id row) (t_step_key row) (t_attempt row)"
    unfolding reaped(2)
    by (rule failed_may_redo [where P = ?P, OF wf row]) (auto simp: reap_row_def task_active_def)
  then have "may_redo db1 (or_runID o') (or_stepKey o') (or_attempt o')" using slot by (simp add: task_slot_def)
  then have "lifecycle db1 db2"
    using reaped(3) insert_attempt_lifecycle by (auto split: if_splits)
  with first reaped(4) show ?thesis using lifecycle_trans lifecycle_InsertTx by blast
qed

lemma reap_each_lifecycle:
  "\<forall>o' \<in> set os. orphan_ok o' db \<Longrightarrow> wf_store db \<Longrightarrow> lifecycle db (reap_each X now os db)"
proof (induction os arbitrary: db)
  case (Cons o' os)
  let ?db1 = "case reapTask X now o' db of Inr db' \<Rightarrow> db' | Inl _ \<Rightarrow> db"
  have life: "lifecycle db ?db1"
    using Cons.prems reapTask_lifecycle by (auto split: sum.splits)
  with Cons.prems have "\<forall>o' \<in> set os. orphan_ok o' ?db1" "wf_store ?db1"
    by (auto intro: orphan_ok_lifecycle lifecycleD(1))
  with Cons.IH have "lifecycle ?db1 (reap_each X now os ?db1)" by blast
  with life lifecycle_trans show ?case by (auto simp: reap_each_def)
qed (simp add: reap_each_def)

lemma reapOrphans_lifecycle: "wf_store db \<Longrightarrow> lifecycle db (reapOrphans X now db)"
  unfolding reapOrphans_def
  by (rule reap_each_lifecycle) (use select_orphans_ok in \<open>force simp: orphan_ok_def\<close>)+

interpretation reaper: task_lifecycle "\<lambda>db db'. wf_store db \<and> (\<exists>X now. db' = reapOrphans X now db)"
  by unfold_locales (auto intro: reapOrphans_lifecycle)

section \<open>Properties\<close>

lemma reapTask_may_redo:
  assumes wf: "wf_store db" and ok: "orphan_ok o' db" and ex: "row \<in> set (tasks db)" "t_id row = or_id o'" "t_status row = TRunning"
  shows "may_redo (update_tasks (\<lambda>r. t_id r = or_id o' \<and> t_status r = TRunning) (reap_row now err) db)
    (or_runID o') (or_stepKey o') (or_attempt o')"
proof -
  let ?P = "\<lambda>r. t_id r = or_id o' \<and> t_status r = TRunning"
  have "may_redo (update_tasks ?P (reap_row now err) db) (t_run_id row) (t_step_key row) (t_attempt row)"
    by (rule failed_may_redo [where P = ?P, OF wf ex(1)]) (use ex in \<open>auto simp: reap_row_def task_active_def\<close>)
  moreover have "task_slot row = (or_runID o', or_stepKey o', or_attempt o')"
    using ok ex row_unique [OF wf, of _ row] unfolding orphan_ok_def by metis
  ultimately show ?thesis by (simp add: task_slot_def)
qed

lemma reapTask_succeeds:
  assumes X: "fresh_uuids X" "jsonb_ok X (message_json orphanedMessage)" and wf: "wf_store db" and ok: "orphan_ok o' db"
  shows "\<exists>db'. reapTask X now o' db = Inr db'"
proof (cases "\<exists>row \<in> set (tasks db). t_id row = or_id o' \<and> t_status row = TRunning")
  case True
  then obtain row where "row \<in> set (tasks db)" "t_id row = or_id o'" "t_status row = TRunning" by blast
  from insert_attempt_succeeds [OF X(1) reapTask_may_redo [OF wf ok this]] X(2) show ?thesis
    by (simp add: reapTask_def Let_def) (metis rbind_simps(2))
next
  case False
  then have "tasks_affected (\<lambda>r. t_id r = or_id o' \<and> t_status r = TRunning) db = 0"
    using tasks_affected_pos by blast
  with X(2) show ?thesis by (simp add: reapTask_def Let_def)
qed

lemma reapTask_keeps:
  assumes "reapTask X now o' db = Inr db'" "t \<in> set (tasks db)" "t_id t \<noteq> or_id o' \<or> t_status t \<noteq> TRunning"
  shows "t \<in> set (tasks db')"
  using assms(1)
proof (cases rule: reapTask_cases)
  case (reaped db1 db2)
  have "t \<in> set (tasks db1)"
    using mem_update_tasks [OF assms(2), of "\<lambda>r. t_id r = or_id o' \<and> t_status r = TRunning"] assms(3)
    unfolding reaped(2) by (metis (no_types, lifting))
  then have "t \<in> set (tasks db2)"
    using reaped(3) by (auto split: if_splits elim!: insert_attempt_Inr simp: insert_task_Inr store_simps)
  then show ?thesis by (simp add: reaped(4) store_simps)
qed (use assms(2) in simp)

lemma reapTask_fails_row:
  assumes "reapTask X now o' db = Inr db'" "row \<in> set (tasks db)" "t_id row = or_id o'" "t_status row = TRunning"
  shows "\<exists>t \<in> set (tasks db'). t_id t = or_id o' \<and> t_status t = TFailed"
  using assms(1)
proof (cases rule: reapTask_cases)
  case (reaped db1 db2)
  have "reap_row now (message_json orphanedMessage) row \<in> set (tasks db1)"
    using mem_update_tasks [OF assms(2), of "\<lambda>r. t_id r = or_id o' \<and> t_status r = TRunning"] assms(3,4)
    unfolding reaped(2) by (metis (no_types, lifting))
  then have "reap_row now (message_json orphanedMessage) row \<in> set (tasks db2)"
    using reaped(3) by (auto split: if_splits elim!: insert_attempt_Inr simp: insert_task_Inr store_simps)
  then show ?thesis
    by (intro bexI [of _ "reap_row now (message_json orphanedMessage) row"])
      (simp_all add: assms(3) reaped(4) store_simps reap_row_def)
qed (use assms(2-4) in blast)

lemma reap_each_keeps:
  assumes "t \<in> set (tasks db)" "t_id t \<notin> or_id ` set os"
  shows "t \<in> set (tasks (reap_each X now os db))"
  using assms
proof (induction os arbitrary: db)
  case (Cons o' os)
  have "t \<in> set (tasks (case reapTask X now o' db of Inr db' \<Rightarrow> db' | Inl _ \<Rightarrow> db))"
    using Cons.prems reapTask_keeps by (auto split: sum.splits)
  with Cons show ?case by (simp add: reap_each_def)
qed (simp add: reap_each_def)

lemma reap_each_fails:
  assumes X: "fresh_uuids X" "jsonb_ok X (message_json orphanedMessage)" and "wf_store db" "\<forall>o' \<in> set os. orphan_ok o' db"
    and "o' \<in> set os" "row \<in> set (tasks db)" "t_id row = or_id o'" "t_status row = TRunning"
  shows "\<exists>t \<in> set (tasks (reap_each X now os db)). t_id t = or_id o' \<and> t_status t = TFailed"
  using assms(3-)
proof (induction os arbitrary: db)
  case (Cons q os)
  obtain db1 where db1: "reapTask X now q db = Inr db1"
    using reapTask_succeeds [OF X Cons.prems(1), of q now] Cons.prems(2) by auto
  have rest: "reap_each X now (q # os) db = reap_each X now os db1" by (simp add: reap_each_def db1)
  have life: "lifecycle db db1" using reapTask_lifecycle [OF db1] Cons.prems(1,2) by simp
  then have next': "wf_store db1" "\<forall>o' \<in> set os. orphan_ok o' db1"
    using Cons.prems(1,2) by (auto intro: orphan_ok_lifecycle lifecycleD(1))
  show ?case
  proof (cases "or_id q = or_id o'")
    case True
    with reapTask_fails_row [OF db1] Cons.prems obtain t where t: "t \<in> set (tasks db1)" "t_id t = or_id o'" "t_status t = TFailed"
      by auto
    with lifecycleD(2) [OF reap_each_lifecycle [OF next'(2,1)] t(1)] show ?thesis
      unfolding rest row_evolves_def by (auto simp: task_active_def)
  next
    case False
    with Cons.prems have "o' \<in> set os" "row \<in> set (tasks db1)" using reapTask_keeps [OF db1] by auto
    with Cons.IH [OF next'] Cons.prems(5,6) show ?thesis unfolding rest by simp
  qed
qed simp

text \<open>
  C15. A sweep fails every task whose worker is gone and no other. With fresh identifiers, after a sweep
  each task that had been running for more than twenty minutes is failed, and every other task is
  exactly as it was.
\<close>

theorem reaper_fails_exactly_the_stuck_tasks:
  assumes X: "fresh_uuids X" "jsonb_ok X (message_json orphanedMessage)" and wf: "wf_store db"
    and t: "t \<in> set (tasks db)" "run_json db (t_run_id t) \<noteq> None"
  shows "if stuck now t
    then \<exists>t' \<in> set (tasks (reapOrphans X now db)). t_id t' = t_id t \<and> t_status t' = TFailed
    else t \<in> set (tasks (reapOrphans X now db))"
proof (cases "stuck now t")
  case True
  have "find_task db (t_id t) = Some t" using find_task_iff [OF wf] t by simp
  moreover obtain r where "find_run db (t_run_id t) = Some r" "find_version db (r_version_id r) \<noteq> None"
    using t(2) by (auto simp: run_json_def split: option.splits)
  ultimately obtain o' where o: "orphan_of db t = Some o'"
    by (auto simp: orphan_of_def load_task_def)
  then have "o' \<in> set (select_orphans now db)" using t(1) True by (auto simp: select_orphans_def set_map_filter_iff)
  moreover have "\<forall>o' \<in> set (select_orphans now db). orphan_ok o' db"
    using select_orphans_ok by (force simp: orphan_ok_def)
  moreover have "t_id t = or_id o'" "t_status t = TRunning"
    using orphan_of_Some [OF o] True by (auto simp: stuck_def)
  ultimately show ?thesis
    using True reap_each_fails [OF X wf, of "select_orphans now db" o' t now] t(1) by (simp add: reapOrphans_def)
next
  case False
  have "t_id t \<notin> or_id ` set (select_orphans now db)"
  proof
    assume "t_id t \<in> or_id ` set (select_orphans now db)"
    then obtain u where "u \<in> set (tasks db)" "t_id u = t_id t" "stuck now u" using select_orphans_ok by fastforce
    with row_unique [OF wf _ t(1)] False show False by auto
  qed
  with False t(1) show ?thesis by (simp add: reapOrphans_def reap_each_keeps)
qed

lemma foldl_max_ge: "(\<forall>i \<in> set ids. i \<le> foldl max a ids) \<and> (a::nat) \<le> foldl max a ids"
  by (induction ids arbitrary: a) (auto, (metis le_trans max.cobounded1 max.cobounded2)+)

lemma demo_fresh: "fresh_uuids demo_X"
  unfolding fresh_uuids_def demo_X_def using foldl_max_ge [of _ 0] by simp (metis Suc_n_not_le_n)

theorem reaper_fails_exactly_the_stuck_tasks_witness:
  "\<exists>t' \<in> set (tasks (reapOrphans demo_X (21 * Minute) (demo_with RRunning [demo_task 1 ''a'' 1 TRunning]))).
     t_id t' = t_id (demo_task 1 ''a'' 1 TRunning) \<and> t_status t' = TFailed"
proof -
  let ?db = "demo_with RRunning [demo_task 1 ''a'' 1 TRunning]"
  have "jsonb_ok demo_X (message_json orphanedMessage)" by (simp add: demo_X_def)
  moreover have "wf_store ?db" "demo_task 1 ''a'' 1 TRunning \<in> set (tasks ?db)"
    "run_json ?db (t_run_id (demo_task 1 ''a'' 1 TRunning)) \<noteq> None" "stuck (21 * Minute) (demo_task 1 ''a'' 1 TRunning)"
    by code_simp+
  ultimately show ?thesis using reaper_fails_exactly_the_stuck_tasks [OF demo_fresh] by metis
qed

end
