(* ===== verification/Engine_System.thy ===== *)
theory Engine_System
  imports Advance Reaper Scheduler
begin

text \<open>
  The engine as a whole: the store, the workers between the phases of their job, and the clock. A
  step is one committed transaction of one of the operations, a worker being picked up or dying, a
  new version being deployed, or time passing; any interleaving is a sequence of steps. A control
  job may run again after its transaction has committed (\<open>advance_again\<close>), since River completes it
  separately. The flag \<open>lossy\<close> admits the steps in which an execute job is lost before its task has
  been marked \<^verbatim>\<open>running\<close>.
\<close>

section \<open>The step relation\<close>

datatype worker = Prepared task_ref "(string \<times> json) list" | Started task_ref

fun worker_ref :: "worker \<Rightarrow> task_ref" where
  "worker_ref (Prepared t c) = t"
| "worker_ref (Started t) = t"

record sys =
  store :: db
  workers :: "worker list"
  clock :: timestamp

definition take_job :: "job_row \<Rightarrow> db \<Rightarrow> db" where
  "take_job j db = db\<lparr>jobs := remove1 j (jobs db)\<rparr>"

definition deployable :: "(string \<Rightarrow> bool) option \<Rightarrow> json \<Rightarrow> bool" where
  "deployable known j \<longleftrightarrow> (\<exists>d. Parse j = Inr d \<and> Validate d known = None)"

inductive sys_step :: "externals \<Rightarrow> engine \<Rightarrow> cron_env \<Rightarrow> (string \<Rightarrow> bool) option \<Rightarrow> bool \<Rightarrow> sys \<Rightarrow> sys \<Rightarrow> bool"
  for X E C known lossy where
  start: "StartRunOpts X (clock s) ws wfl input opts (store s) = Inr (rid, created, db') \<Longrightarrow>
    sys_step X E C known lossy s (s\<lparr>store := db'\<rparr>)"
| cancel: "CancelRun (clock s) ws rid (store s) = Inr db' \<Longrightarrow> sys_step X E C known lossy s (s\<lparr>store := db'\<rparr>)"
| retry: "RetryRun X (clock s) ws rid (store s) = Inr db' \<Longrightarrow> sys_step X E C known lossy s (s\<lparr>store := db'\<rparr>)"
| advance: "j \<in> set (jobs (store s)) \<Longrightarrow> j_args j = AdvanceRunArgs rid \<Longrightarrow>
    advanceRun X (clock s) rid (take_job j (store s)) = Inr db' \<Longrightarrow> sys_step X E C known lossy s (s\<lparr>store := db'\<rparr>)"
| advance_again: "advanceRun X (clock s) rid (store s) = Inr db' \<Longrightarrow> sys_step X E C known lossy s (s\<lparr>store := db'\<rparr>)"
| exec_return: "j \<in> set (jobs (store s)) \<Longrightarrow> j_args j = ExecuteTaskArgs tid \<Longrightarrow>
    work_prepare X E (clock s) tid (take_job j (store s)) = Inr (Returned db') \<Longrightarrow>
    sys_step X E C known lossy s (s\<lparr>store := db'\<rparr>)"
| exec_prepare: "j \<in> set (jobs (store s)) \<Longrightarrow> j_args j = ExecuteTaskArgs tid \<Longrightarrow>
    work_prepare X E (clock s) tid (take_job j (store s)) = Inr (Ready t st ex config ctx) \<Longrightarrow>
    sys_step X E C known lossy s (s\<lparr>store := take_job j (store s), workers := Prepared t config # workers s\<rparr>)"
| exec_start: "Prepared t config \<in> set (workers s) \<Longrightarrow> work_start X (clock s) t config (store s) = Inr (Some db') \<Longrightarrow>
    sys_step X E C known lossy s (s\<lparr>store := db', workers := Started t # remove1 (Prepared t config) (workers s)\<rparr>)"
| exec_late: "Prepared t config \<in> set (workers s) \<Longrightarrow> work_start X (clock s) t config (store s) = Inr None \<Longrightarrow>
    sys_step X E C known lossy s (s\<lparr>workers := remove1 (Prepared t config) (workers s)\<rparr>)"
| exec_end: "Started t \<in> set (workers s) \<Longrightarrow> work_end X (clock s) rnd t outcome (store s) = Inr db' \<Longrightarrow>
    sys_step X E C known lossy s (s\<lparr>store := db', workers := remove1 (Started t) (workers s)\<rparr>)"
| exec_dies: "Started t \<in> set (workers s) \<Longrightarrow>
    sys_step X E C known lossy s (s\<lparr>workers := remove1 (Started t) (workers s)\<rparr>)"
| exec_lost_job: "lossy \<Longrightarrow> j \<in> set (jobs (store s)) \<Longrightarrow> j_args j = ExecuteTaskArgs tid \<Longrightarrow>
    sys_step X E C known lossy s (s\<lparr>store := take_job j (store s)\<rparr>)"
| exec_lost_worker: "lossy \<Longrightarrow> Prepared t config \<in> set (workers s) \<Longrightarrow>
    sys_step X E C known lossy s (s\<lparr>workers := remove1 (Prepared t config) (workers s)\<rparr>)"
| resume: "j \<in> set (jobs (store s)) \<Longrightarrow> j_args j = ResumeTaskArgs tid \<Longrightarrow>
    Work_ResumeTask X (clock s) tid (take_job j (store s)) = Inr db' \<Longrightarrow> sys_step X E C known lossy s (s\<lparr>store := db'\<rparr>)"
| callback: "ResumeSuspendedTask X E (clock s) h payload (store s) = (res, db') \<Longrightarrow>
    sys_step X E C known lossy s (s\<lparr>store := db'\<rparr>)"
| reap: "sys_step X E C known lossy s (s\<lparr>store := reapOrphans X (clock s) (store s)\<rparr>)"
| sweep: "sweepSchedules X C (clock s) (store s) = Some db' \<Longrightarrow> sys_step X E C known lossy s (s\<lparr>store := db'\<rparr>)"
| deploy: "v_id v \<notin> v_id ` set (versions (store s)) \<Longrightarrow> deployable known (v_definition v) \<Longrightarrow>
    sys_step X E C known lossy s (s\<lparr>store := (store s)\<lparr>versions := versions (store s) @ [v], workflows := wfs\<rparr>\<rparr>)"
| tick: "clock s \<le> now \<Longrightarrow> sys_step X E C known lossy s (s\<lparr>clock := now\<rparr>)"

definition init_sys :: "db \<Rightarrow> sys \<Rightarrow> bool" where
  "init_sys db0 s \<longleftrightarrow> store s = db0 \<and> workers s = []"

definition reachable :: "externals \<Rightarrow> engine \<Rightarrow> cron_env \<Rightarrow> (string \<Rightarrow> bool) option \<Rightarrow> bool \<Rightarrow> sys \<Rightarrow> bool" where
  "reachable X E C known lossy s \<longleftrightarrow> (\<exists>s0. init_sys empty_db s0 \<and> (sys_step X E C known lossy)\<^sup>*\<^sup>* s0 s)"

section \<open>Every step meets the contract\<close>

lemma take_job_fields [store_simps]:
  "tasks (take_job j db) = tasks db" "runs (take_job j db) = runs db" "versions (take_job j db) = versions db"
  "suspensions (take_job j db) = suspensions db" "workflows (take_job j db) = workflows db"
  by (simp_all add: take_job_def)

lemma in_set_remove1_other: "x \<in> set xs \<Longrightarrow> x \<noteq> y \<Longrightarrow> x \<in> set (remove1 y xs)"
  by (induction xs) auto

lemma job_set_take_job:
  "a \<in> job_set db \<Longrightarrow> a \<noteq> j_args j \<Longrightarrow> a \<in> job_set (take_job j db)"
  "a \<in> job_set (take_job j db) \<Longrightarrow> a \<in> job_set db"
  using set_remove1_subset [of j "jobs db"]
  by (auto simp: job_set_def take_job_def intro!: imageI intro: in_set_remove1_other)

lemma lifecycle_take_job: "lifecycle db (take_job j db)"
  by (rule lifecycle_same_tables) (simp_all add: store_simps)

lemma take_job_wf [simp]: "wf_store (take_job j db) = wf_store db"
  by (simp add: wf_defs store_simps)

lemma ref_ok_take_job [simp]: "ref_ok t (take_job j db) = ref_ok t db"
  by (simp add: ref_ok_def store_simps)

lemma lifecycle_deploy:
  assumes "v_id v \<notin> v_id ` set (versions db)"
  shows "lifecycle db (db\<lparr>versions := versions db @ [v], workflows := wfs\<rparr>)" (is "lifecycle db ?db")
proof -
  have "find_version ?db i = Some w" if "find_version db i = Some w" for i w
    using that by (simp add: find_version_def find_append_Some)
  then have "run_json ?db rid = Some j" if "run_json db rid = Some j" for rid j
    using that by (auto simp: run_json_def find_run_def split: option.splits)
  moreover have "wf_store ?db = wf_store db" by (simp add: wf_defs)
  ultimately show ?thesis by (auto simp: lifecycle_def step_task_def run_tasks_def)
qed

definition sys_wf :: "sys \<Rightarrow> bool" where
  "sys_wf s \<longleftrightarrow> wf_store (store s) \<and> (\<forall>w \<in> set (workers s). ref_ok (worker_ref w) (store s))"

lemma workers_ok_step:
  assumes "lifecycle (store s) (store s')" "sys_wf s" "\<forall>w \<in> set (workers s'). worker_ref w \<in> worker_ref ` set (workers s) \<or> ref_ok (worker_ref w) (store s')"
  shows "sys_wf s'"
  using assms unfolding sys_wf_def by (metis imageE lifecycleD(1) ref_ok_lifecycle)

lemma sys_step_lifecycle:
  assumes "sys_step X E C known lossy s s'" "sys_wf s"
  shows "lifecycle (store s) (store s')"
  using assms
proof (cases rule: sys_step.cases)
  case (start ws wfl input opts rid created db')
  then show ?thesis by (auto intro: StartRunOpts_lifecycle)
next
  case (cancel ws rid db')
  then show ?thesis by (auto intro: CancelRun_lifecycle)
next
  case (retry ws rid db')
  with assms(2) show ?thesis by (auto intro: RetryRun_lifecycle simp: sys_wf_def)
next
  case (advance j rid db')
  then show ?thesis using lifecycle_trans [OF lifecycle_take_job advanceRun_lifecycle] by simp
next
  case (advance_again rid db')
  then show ?thesis by (auto intro: advanceRun_lifecycle)
next
  case (exec_return j tid db')
  with assms(2) show ?thesis
    using lifecycle_trans [OF lifecycle_take_job work_prepare_lifecycle] by (simp add: sys_wf_def)
next
  case (exec_start t config db')
  then show ?thesis by (auto intro: work_start_lifecycle)
next
  case (exec_end t rnd outcome db')
  with assms(2) show ?thesis by (force intro: work_end_lifecycle simp: sys_wf_def)
next
  case (resume j tid db')
  then show ?thesis using lifecycle_trans [OF lifecycle_take_job Work_ResumeTask_lifecycle] by simp
next
  case (callback h payload res db')
  then show ?thesis by (auto intro: ResumeSuspendedTask_lifecycle)
next
  case reap
  with assms(2) show ?thesis by (auto intro: reapOrphans_lifecycle simp: sys_wf_def)
next
  case (sweep db')
  then show ?thesis by (auto simp: sweepSchedules_def intro: sweep_fold_lifecycle)
next
  case (deploy v wfs)
  then show ?thesis by (simp add: lifecycle_deploy)
qed (auto simp: lifecycle_take_job)

lemma sys_step_wf:
  assumes step: "sys_step X E C known lossy s s'" and wf: "sys_wf s"
  shows "sys_wf s'"
proof (rule workers_ok_step [OF sys_step_lifecycle [OF step wf] wf])
  show "\<forall>w \<in> set (workers s'). worker_ref w \<in> worker_ref ` set (workers s) \<or> ref_ok (worker_ref w) (store s')"
    using step
  proof (cases rule: sys_step.cases)
    case (exec_prepare j tid t st ex config ctx)
    have "ref_ok t (take_job j (store s))"
      using exec_prepare(4) by (cases rule: work_prepare_cases) auto
    with exec_prepare show ?thesis by auto
  next
    case (exec_start t config db')
    then show ?thesis using set_remove1_subset by (force simp: image_iff)
  qed (use set_remove1_subset in \<open>fastforce simp: image_iff\<close>)+
qed

end
