(* ===== verification/Accounts_Facts.thy ===== *)
theory Accounts_Facts
  imports Accounts Sample
begin

text \<open>
  What the account handlers keep true: the invariant of the account tables along any sequence of
  requests, who reaches the admin surface, what rotation and revocation of a credential do, and
  where two requests in flight at once can break a rule that one at a time cannot.
\<close>

section \<open>Invariant\<close>

definition admin_member :: "member_row \<Rightarrow> bool" where
  "admin_member m \<longleftrightarrow> m_role m \<in> {''owner'', ''admin''}"

definition acc_base :: "server \<Rightarrow> bool" where
  "acc_base s \<longleftrightarrow>
     workspaces s \<noteq> [] \<and> distinct (map u_id (users s)) \<and> distinct (map m_user_id (members s)) \<and>
     m_user_id ` set (members s) = u_id ` set (users s) \<and>
     (\<forall>w \<in> set (workspaces s). \<exists>m \<in> set (members s). m_workspace_id m = ws_id w \<and> admin_member m)"

text \<open>
  An instance is fresh until \<^verbatim>\<open>setup\<close>: one account, without a password, and nobody logged in.
  Afterwards every account has a password.
\<close>

definition fresh_instance :: "server \<Rightarrow> bool" where
  "fresh_instance s \<longleftrightarrow>
     (\<exists>u. users s = [u] \<and> u_password_hash u = None) \<and> sessions s = [] \<and> \<not> setupConfigured s"

definition claimed :: "server \<Rightarrow> bool" where
  "claimed s \<longleftrightarrow> users s \<noteq> [] \<and> (\<forall>u \<in> set (users s). u_password_hash u \<noteq> None)"

definition acc_inv :: "server \<Rightarrow> bool" where
  "acc_inv s \<longleftrightarrow> acc_base s \<and> (claimed s \<or> fresh_instance s)"

definition kept :: "server \<Rightarrow> bool" where
  "kept s \<longleftrightarrow> acc_base s \<and> claimed s"

lemma kept_same_tables:
  "kept s \<Longrightarrow> users s' = users s \<Longrightarrow> members s' = members s \<Longrightarrow> workspaces s' = workspaces s \<Longrightarrow> kept s'"
  by (simp add: kept_def acc_base_def claimed_def)

lemma update_user_ids:
  assumes "\<And>u. u_id (f u) = u_id u"
  shows "map u_id (users (update_user i f s)) = map u_id (users s)"
  using assms by (simp add: update_user_def)

lemma update_user_fields [simp]:
  "members (update_user i f s) = members s" "workspaces (update_user i f s) = workspaces s"
  "sessions (update_user i f s) = sessions s"
  by (simp_all add: update_user_def)

lemma acc_base_update_user:
  assumes "acc_base s" and f: "\<And>u. u_id (f u) = u_id u"
  shows "acc_base (update_user i f s)"
  using assms(1) update_user_ids [of f i s, OF f] unfolding acc_base_def
  by (metis list.set_map update_user_fields(1,2))

lemma kept_update_user:
  assumes "kept s" and "\<And>u. u_id (f u) = u_id u" and "\<And>u. u_password_hash u \<noteq> None \<Longrightarrow> u_password_hash (f u) \<noteq> None"
  shows "kept (update_user i f s)"
proof -
  have "claimed (update_user i f s)" using assms(1,3) by (auto simp: kept_def claimed_def update_user_def)
  with assms(1,2) show ?thesis by (simp add: kept_def acc_base_update_user)
qed

lemma delete_sessions_fields [simp]:
  "users (delete_sessions P s) = users s" "members (delete_sessions P s) = members s"
  "workspaces (delete_sessions P s) = workspaces s" "setupConfigured (delete_sessions P s) = setupConfigured s"
  by (simp_all add: delete_sessions_def)

text \<open>More than one admin-tier membership: there is another admin besides any given user.\<close>

lemma another_admin:
  assumes "\<not> adminCount w s \<le> 1" and "distinct (map m_user_id (members s))"
  shows "\<exists>m \<in> set (members s). m_workspace_id m = w \<and> admin_member m \<and> m_user_id m \<noteq> i"
proof (rule ccontr)
  let ?l = "filter (\<lambda>m. m_workspace_id m = w \<and> m_role m \<in> {''owner'', ''admin''}) (members s)"
  assume "\<not> ?thesis"
  then have "set (map m_user_id ?l) \<subseteq> {i}" unfolding admin_member_def set_map set_filter by blast
  then have "card (set (map m_user_id ?l)) \<le> 1"
    by (rule order_trans [OF card_mono, rotated]) simp_all
  moreover have "distinct (map m_user_id ?l)" using assms(2) by (rule distinct_map_filter)
  ultimately have "length (map m_user_id ?l) \<le> 1" by (simp only: distinct_card)
  with assms(1) show False by (simp add: adminCount_def)
qed

lemma memberRole_Some:
  assumes "memberRole w i s = Some role"
  obtains m where "m \<in> set (members s)" "m_workspace_id m = w" "m_user_id m = i" "m_role m = role"
  using assms by (auto simp: memberRole_def dest: find_SomeD)

text \<open>
  Changing or dropping one membership leaves every workspace with an admin, when the member is not
  admin-tier or there are two.
\<close>

lemma admins_without:
  assumes base: "acc_base s" and role: "memberRole w i s = Some role"
    and ok: "\<not> (isAdminRole role \<and> adminCount w s \<le> 1)" and v: "v \<in> set (workspaces s)"
  shows "\<exists>m \<in> set (members s). m_workspace_id m = ws_id v \<and> admin_member m \<and> m_user_id m \<noteq> i"
proof -
  obtain m0 where m0: "m0 \<in> set (members s)" "m_workspace_id m0 = w" "m_user_id m0 = i" "m_role m0 = role"
    using role by (rule memberRole_Some)
  obtain m where m: "m \<in> set (members s)" "m_workspace_id m = ws_id v" "admin_member m"
    using base v by (auto simp: acc_base_def)
  have dist: "distinct (map m_user_id (members s))" using base by (simp add: acc_base_def)
  show ?thesis
  proof (cases "m_user_id m = i")
    case True
    with dist m m0 have "m = m0" by (metis distinct_map_inj_on_set)
    with m m0 have "isAdminRole role" "ws_id v = w" by (auto simp: admin_member_def isAdminRole_def)
    moreover from this ok have "\<exists>m \<in> set (members s). m_workspace_id m = w \<and> admin_member m \<and> m_user_id m \<noteq> i"
      by (intro another_admin dist) simp
    ultimately show ?thesis by simp
  qed (use m in blast)
qed

lemma kept_delete_user:
  assumes "kept s" and role: "memberRole w i s = Some role" and ok: "\<not> (isAdminRole role \<and> adminCount w s \<le> 1)"
  shows "kept (delete_user i s)"
proof -
  have base: "acc_base s" using assms(1) by (simp add: kept_def)
  from base obtain v where "v \<in> set (workspaces s)" unfolding acc_base_def by (cases "workspaces s") auto
  from admins_without [OF base role ok this] obtain m where "m \<in> set (members s)" "m_user_id m \<noteq> i" by blast
  with base have "\<exists>u \<in> set (users s). u_id u \<noteq> i" unfolding acc_base_def by (metis imageE imageI)
  moreover have "m_user_id ` set (filter (\<lambda>m. m_user_id m \<noteq> i) (members s)) =
      u_id ` set (filter (\<lambda>u. u_id u \<noteq> i) (users s))"
    using base unfolding acc_base_def set_filter by blast
  ultimately show ?thesis
    using assms(1) admins_without [OF base role ok]
    by (fastforce simp: kept_def claimed_def acc_base_def delete_user_def distinct_map_filter filter_empty_conv)
qed

lemma kept_set_role:
  assumes "kept s" and role: "memberRole w i s = Some role"
    and ok: "isAdminRole role' \<or> \<not> (isAdminRole role \<and> adminCount w s \<le> 1)"
  shows "kept (set_role w i role' s)"
proof -
  let ?f = "\<lambda>m. if m_workspace_id m = w \<and> m_user_id m = i then m\<lparr>m_role := role'\<rparr> else m"
  have base: "acc_base s" using assms(1) by (simp add: kept_def)
  have ids: "map m_user_id (members (set_role w i role' s)) = map m_user_id (members s)"
    by (simp add: set_role_def)
  have "\<exists>m \<in> set (map ?f (members s)). m_workspace_id m = ws_id v \<and> admin_member m" if v: "v \<in> set (workspaces s)" for v
  proof (cases "isAdminRole role'")
    case True
    obtain m where m: "m \<in> set (members s)" "m_workspace_id m = ws_id v" "admin_member m"
      using base v by (auto simp: acc_base_def)
    with True have "?f m \<in> set (map ?f (members s)) \<and> m_workspace_id (?f m) = ws_id v \<and> admin_member (?f m)"
      by (auto simp: admin_member_def isAdminRole_def)
    then show ?thesis by blast
  next
    case False
    with ok admins_without [OF base role _ v] obtain m where
      m: "m \<in> set (members s)" "m_workspace_id m = ws_id v" "admin_member m" "m_user_id m \<noteq> i" by blast
    then have "?f m = m" by simp
    with m(1) have "m \<in> set (map ?f (members s))" unfolding set_map by (intro image_eqI [of m ?f m]) simp_all
    with m show ?thesis by blast
  qed
  then have "\<forall>v \<in> set (workspaces s). \<exists>m \<in> set (members (set_role w i role' s)). m_workspace_id m = ws_id v \<and> admin_member m"
    by (simp add: set_role_def)
  moreover from ids have "m_user_id ` set (members (set_role w i role' s)) = m_user_id ` set (members s)"
    by (metis list.set_map)
  moreover have "users (set_role w i role' s) = users s" "workspaces (set_role w i role' s) = workspaces s"
    by (simp_all add: set_role_def)
  ultimately have "acc_base (set_role w i role' s)" using base ids unfolding acc_base_def by simp
  with assms(1) show ?thesis by (simp add: kept_def claimed_def set_role_def)
qed

section \<open>The principal of a request\<close>

definition same_tables :: "server \<Rightarrow> server \<Rightarrow> bool" where
  "same_tables s s' \<longleftrightarrow> users s' = users s \<and> members s' = members s \<and> workspaces s' = workspaces s"

lemma acc_inv_same_tables:
  assumes "acc_inv s" "same_tables s s'" "kept s \<or> (sessions s' = sessions s \<and> setupConfigured s' = setupConfigured s)"
  shows "acc_inv s'"
  using assms by (auto simp: acc_inv_def same_tables_def kept_def acc_base_def claimed_def fresh_instance_def)

lemma kept_acc_inv: "kept s \<Longrightarrow> acc_inv s"
  by (simp add: kept_def acc_inv_def)

lemma acc_inv_kept: "acc_inv s \<Longrightarrow> sessions s \<noteq> [] \<or> (\<exists>u \<in> set (users s). u_password_hash u \<noteq> None) \<Longrightarrow> kept s"
  by (auto simp: acc_inv_def kept_def fresh_instance_def)

lemma authenticateToken_tables:
  "authenticateToken X r s = (w, s') \<Longrightarrow> same_tables s s' \<and> sessions s' = sessions s \<and> setupConfigured s' = setupConfigured s"
  by (auto simp: authenticateToken_def same_tables_def Let_def split: if_splits option.splits)

lemma tokenPrincipal_tables:
  "tokenPrincipal X r s = (a, s') \<Longrightarrow> same_tables s s' \<and> sessions s' = sessions s \<and> setupConfigured s' = setupConfigured s"
  by (auto simp: tokenPrincipal_def split: prod.splits option.splits dest: authenticateToken_tables)

lemma tokenPrincipal_kind: "tokenPrincipal X r s = (Some a, s') \<Longrightarrow> a_Kind a = principalToken"
  by (auto simp: tokenPrincipal_def split: prod.splits option.splits)

lemma auth_required_inv:
  assumes "acc_inv s"
  shows "acc_inv (snd (auth_required s)) \<and> same_tables s (snd (auth_required s))"
proof -
  have "acc_inv (s\<lparr>setupConfigured := True\<rparr>)" if "u \<in> set (users s)" "u_password_hash u \<noteq> None" for u
  proof (rule acc_inv_same_tables [OF assms])
    show "kept s \<or> sessions (s\<lparr>setupConfigured := True\<rparr>) = sessions s \<and>
        setupConfigured (s\<lparr>setupConfigured := True\<rparr>) = setupConfigured s"
      using acc_inv_kept [OF assms] that by blast
  qed (simp add: same_tables_def)
  with assms show ?thesis
    by (auto simp: auth_required_def setupRequired_def list_ex_iff same_tables_def)
qed

text \<open>The session a cookie stands for.\<close>

lemma loadSession_Some:
  assumes "loadSession X now c s = (Some a, s')"
  obtains se u m w where "se \<in> set (sessions s)" "se_token se = hashToken X c" "now < se_expires_at se"
    "u \<in> set (users s)" "u_id u = se_user_id se" "m \<in> set (members s)" "m_user_id m = u_id u"
    "w \<in> set (workspaces s)" "ws_id w = m_workspace_id m"
    "a_Kind a = principalSession" "a_UserID a = u_id u" "a_WorkspaceID a = m_workspace_id m" "a_Role a = m_role m"
    "same_tables s s'" "setupConfigured s' = setupConfigured s"
proof -
  obtain u m w rest where row: "sort_key (\<lambda>(u, m, w). m_created_at m) (session_rows (hashToken X c) now s) = (u, m, w) # rest"
    using assms by (auto simp: loadSession_def Let_def split: list.splits prod.splits)
  then have "(u, m, w) \<in> set (session_rows (hashToken X c) now s)"
    by (metis list.set_intros(1) set_sort)
  then obtain se where "se \<in> set (sessions s)" "se_token se = hashToken X c" "now < se_expires_at se"
    "u \<in> set (users s)" "u_id u = se_user_id se" "m \<in> set (members s)" "m_user_id m = u_id u"
    "w \<in> set (workspaces s)" "ws_id w = m_workspace_id m"
    by (auto simp: session_rows_def)
  with that show thesis using assms row by (auto simp: loadSession_def Let_def same_tables_def)
qed

lemma loadSession_None: "loadSession X now c s = (None, s') \<Longrightarrow> s' = s"
  by (auto simp: loadSession_def Let_def split: list.splits prod.splits)

text \<open>What \<^verbatim>\<open>WithAuth\<close> hands to the next handler.\<close>

lemma WithAuth_cases:
  assumes "WithAuth X nxt r s = (resp, s')"
  obtains (skipped) "rq_path r \<in> set authSkip" "nxt r s = (resp, s')"
    | (refused) "rs_status resp = 401" "s' = s \<or> s' = snd (auth_required s) \<or> tokenPrincipal X r s = (None, s')"
    | (token) a s1 where "tokenPrincipal X r s = (Some a, s1)" "nxt (r\<lparr>rq_auth := Some a\<rparr>) s1 = (resp, s')"
    | (session) c a s1 where "rq_cookie r = Some c" "loadSession X (rq_now r) c s = (Some a, s1)"
        "nxt (r\<lparr>rq_auth := Some a\<rparr>) s1 = (resp, s')"
proof -
  have ref: thesis if "auth_required s1 = (resp, s')" "s1 = s" for s1
    using that refused by (auto simp: auth_required_def s_json_def split: prod.splits)
  show thesis
    using assms that(1,3,4) refused
    by (auto simp: WithAuth_def s_error_def s_json_def split: if_splits prod.splits option.splits
        intro: ref loadSession_None)
qed

section \<open>Guarded handlers\<close>

text \<open>
  What the routes behind \<^verbatim>\<open>requireSession\<close> and \<^verbatim>\<open>requireAdmin\<close> promise: the guard changes nothing
  for a request without a session, and on an instance that has been set up a request keeps the
  tables well-formed, an admin in every workspace, and a password on every account.
\<close>

definition no_session :: "request \<Rightarrow> bool" where
  "no_session r \<longleftrightarrow> (case authFrom r of None \<Rightarrow> True | Some a \<Rightarrow> a_Kind a = principalToken)"

locale guarded_handler =
  fixes guard :: "handler \<Rightarrow> handler" and h :: handler
  assumes refuses: "no_session r \<Longrightarrow> snd (guard h r s) = s"
    and keeps: "kept s \<Longrightarrow> kept (snd (guard h r s))"
begin

lemma keeps_inv:
  assumes fresh: "rq_auth r = None" and inv: "acc_inv s"
  shows "acc_inv (snd (WithAuth X (guard h) r s))"
proof -
  obtain resp s' where res: "WithAuth X (guard h) r s = (resp, s')" by fastforce
  from res have "acc_inv s'"
  proof (cases rule: WithAuth_cases)
    case skipped
    with fresh inv refuses [of r s] show ?thesis by (simp add: no_session_def authFrom_def)
  next
    case refused
    with inv show ?thesis using auth_required_inv tokenPrincipal_tables acc_inv_same_tables by blast
  next
    case (token a s1)
    then have "s' = s1" using tokenPrincipal_kind [of X r s a s1] refuses [of "r\<lparr>rq_auth := Some a\<rparr>" s1]
      by (simp add: no_session_def authFrom_def)
    with token(1) inv show ?thesis using tokenPrincipal_tables acc_inv_same_tables by blast
  next
    case (session c a s1)
    from session(2) obtain se where "se \<in> set (sessions s)" and tabs: "same_tables s s1"
      by (rule loadSession_Some)
    with inv have "kept s" by (intro acc_inv_kept) auto
    with tabs have "kept s1" by (intro kept_same_tables [of s s1]) (simp_all add: same_tables_def)
    then have "kept s'" using session(3) keeps [of s1 "r\<lparr>rq_auth := Some a\<rparr>"] by simp
    then show ?thesis by (rule kept_acc_inv)
  qed
  with res show ?thesis by simp
qed

end

locale admin_handler =
  fixes h :: handler
  assumes keeps_admin: "kept s \<Longrightarrow> kept (snd (h r s))"

sublocale admin_handler \<subseteq> guarded_handler requireAdmin h
  by unfold_locales
    (auto simp: requireAdmin_def admin_def no_session_def keeps_admin split: option.splits)

interpretation listUsers_handler: admin_handler "listUsers X A" for X A
  by unfold_locales (simp add: listUsers_def)

interpretation listAPITokens_handler: admin_handler "listAPITokens X A" for X A
  by unfold_locales (simp add: listAPITokens_def)

interpretation createAPIToken_handler: admin_handler "createAPIToken X" for X
  by unfold_locales (auto simp: createAPIToken_def Let_def split: option.splits elim: kept_same_tables)

interpretation rotateAPIToken_handler: admin_handler "rotateAPIToken X A" for X A
  by unfold_locales (auto simp: rotateAPIToken_def Let_def split: option.splits elim: kept_same_tables)

interpretation deleteAPIToken_handler: admin_handler "deleteAPIToken A" for A
  by unfold_locales (auto simp: deleteAPIToken_def Let_def split: option.splits elim: kept_same_tables)

interpretation deleteUser_handler: admin_handler "deleteUser A" for A
  by unfold_locales
    (auto simp: deleteUser_def check_delete_def split: option.splits if_splits intro: kept_delete_user)

lemma kept_set_password: "kept s \<Longrightarrow> kept (delete_sessions P (update_user i (set_password hash must) s))"
  by (rule kept_same_tables [OF kept_update_user]) (simp_all add: set_password_def)

interpretation resetUserPassword_handler: admin_handler "resetUserPassword X A" for X A
  by unfold_locales (auto simp: resetUserPassword_def Let_def kept_set_password split: option.splits)

interpretation changePassword_handler: guarded_handler requireSession "changePassword X A" for X A
  by unfold_locales
    (auto simp: requireSession_def no_session_def changePassword_def Let_def kept_set_password split: option.splits)

interpretation me_handler: guarded_handler "\<lambda>h. h" "me X devKey" for X devKey
  by unfold_locales (auto simp: me_def split: option.splits)

lemma kept_new_user:
  assumes "kept s" and "i \<notin> u_id ` set (users s)" and "u_id u = i" and "u_password_hash u \<noteq> None" and "m_user_id m = i"
  shows "kept (s\<lparr>users := users s @ [u], members := members s @ [m]\<rparr>)"
proof -
  have "i \<notin> m_user_id ` set (members s)" using assms by (simp add: kept_def acc_base_def)
  with assms show ?thesis by (auto simp: kept_def acc_base_def claimed_def)
qed

interpretation createUser_handler: admin_handler "createUser X A" for X A
proof
  fix r s
  assume "kept s"
  then show "kept (snd (createUser X A r s))"
    unfolding createUser_def Let_def by (auto split: option.splits intro!: kept_new_user)
qed

interpretation updateUser_handler: admin_handler "updateUser X A" for X A
proof
  fix r s
  assume k: "kept s"
  have name: "kept s1 \<Longrightarrow> kept (update_user i (\<lambda>u. u\<lparr>u_name := n\<rparr>) s1)" for s1 i n
    by (rule kept_update_user) simp_all
  have role: "kept (set_role w i role s)" if "memberRole w i s = Some current" "check_role w current role s = None"
    for w i role current
    using that by (intro kept_set_role k) (auto simp: check_role_def split: if_splits)
  show "kept (snd (updateUser X A r s))"
    unfolding updateUser_def Let_def using k name role by (auto split: option.splits if_splits)
qed

section \<open>Setup, login and logout\<close>

lemma reply_session_tables:
  "same_tables s (snd (reply_session st X r i s))" "setupConfigured (snd (reply_session st X r i s)) = setupConfigured s"
  by (auto simp: reply_session_def startSession_def same_tables_def Let_def split: sum.splits option.splits if_splits)

lemma same_tables_kept: "same_tables s s' \<Longrightarrow> kept s \<Longrightarrow> kept s'"
  by (rule kept_same_tables) (simp_all add: same_tables_def)

lemma login_open:
  assumes "acc_inv s"
  shows "acc_inv (snd (login X A r s))"
proof (cases "kept s")
  case True
  have "same_tables s (snd (login X A r s))"
    using reply_session_tables(1) unfolding login_def same_tables_def
    by (auto simp: Let_def split_beta split: option.splits)
  with True show ?thesis by (blast intro: kept_acc_inv same_tables_kept)
next
  case False
  with assms obtain u where u: "users s = [u]" "u_password_hash u = None"
    by (auto simp: acc_inv_def kept_def fresh_instance_def)
  then have "same_tables s (snd (login X A r s)) \<and> sessions (snd (login X A r s)) = sessions s \<and>
      setupConfigured (snd (login X A r s)) = setupConfigured s"
    by (auto simp: login_def same_tables_def Let_def split_beta split: option.splits)
  with assms show ?thesis by (blast intro: acc_inv_same_tables)
qed

lemma logout_open:
  assumes "acc_inv s"
  shows "acc_inv (snd (logout X r s))"
proof (rule acc_inv_same_tables [OF assms])
  show "same_tables s (snd (logout X r s))" by (simp add: logout_def same_tables_def split: option.split)
  show "kept s \<or> sessions (snd (logout X r s)) = sessions s \<and> setupConfigured (snd (logout X r s)) = setupConfigured s"
    using acc_inv_kept [OF assms] by (cases "sessions s") (auto simp: logout_def delete_sessions_def split: option.split)
qed

text \<open>The two outcomes of \<^verbatim>\<open>setup\<close>: refused without touching an account, or the owner's account claimed.\<close>

lemma setup_configured:
  assumes "kept s"
  shows "fst (setup_account X A r s) = s_error 409 ''setup is already complete''"
    "snd (setup_account X A r s) = s\<lparr>setupConfigured := True\<rparr>"
proof -
  have "list_ex (\<lambda>u. u_password_hash u \<noteq> None) (users s)"
    using assms by (cases "users s") (auto simp: kept_def claimed_def)
  then have "setupRequired s = (False, s\<lparr>setupConfigured := True\<rparr>)" by (simp add: setupRequired_def)
  then show "fst (setup_account X A r s) = s_error 409 ''setup is already complete''"
    "snd (setup_account X A r s) = s\<lparr>setupConfigured := True\<rparr>" by (simp_all add: setup_account_def)
qed

lemma setup_account_cases:
  assumes "acc_inv s" "fresh_instance s"
  obtains (refused) "snd (setup_account X A r s) = s"
    | (claimed) i email name hash where "unclaimed_owner s \<noteq> None"
        "hashPassword (ae_IDKey A) (rq_salt r) (string_field r ''password'') = Some hash"
        "setup_account X A r s = reply_session 201 X r i (delete_sessions (\<lambda>se. se_user_id se = i)
          ((update_user i (claim email name hash) s)\<lparr>setupConfigured := True\<rparr>))"
        "\<exists>u. users s = [u] \<and> u_id u = i"
proof -
  obtain u where u: "users s = [u]" "u_password_hash u = None" "\<not> setupConfigured s"
    using assms(2) by (auto simp: fresh_instance_def)
  then have req: "setupRequired s = (True, s)" by (simp add: setupRequired_def)
  have own: "v = u" if "unclaimed_owner s = Some v" for v
    using that u by (auto simp: unclaimed_owner_def split: list.splits if_splits)
  show thesis
  proof (cases "snd (setup_account X A r s) = s")
    case False
    define email where "email = ToLower (TrimSpace (string_field r ''email''))"
    define name where "name = TrimSpace (string_field r ''name'')"
    from False obtain hash v where "unclaimed_owner s = Some v"
      "hashPassword (ae_IDKey A) (rq_salt r) (string_field r ''password'') = Some hash"
      "setup_account X A r s = reply_session 201 X r (u_id v) (delete_sessions (\<lambda>se. se_user_id se = u_id v)
          ((update_user (u_id v) (claim email name hash) s)\<lparr>setupConfigured := True\<rparr>))"
      using req unfolding email_def name_def
      by (auto simp: setup_account_def Let_def split: if_splits option.splits)
    with own u(1) show thesis by (intro claimed [where i = "u_id u"]) auto
  qed (rule refused)
qed

lemma setup_open:
  assumes inv: "acc_inv s"
  shows "acc_inv (snd (setup_account X A r s))"
proof (cases "kept s")
  case True
  have "same_tables s (snd (setup_account X A r s))"
    unfolding setup_configured(2) [OF True] by (simp add: same_tables_def)
  with True show ?thesis by (blast intro: kept_acc_inv same_tables_kept)
next
  case False
  with inv have fresh: "fresh_instance s" by (auto simp: acc_inv_def kept_def)
  from inv fresh show ?thesis
  proof (cases rule: setup_account_cases [where X = X and A = A and r = r])
    case refused
    with inv show ?thesis by simp
  next
    case (claimed i email name hash)
    let ?s = "update_user i (claim email name hash) s"
    have "acc_base ?s" using inv by (intro acc_base_update_user) (simp_all add: acc_inv_def claim_def)
    moreover have "claimed ?s" using claimed(4) by (auto simp: claimed_def update_user_def claim_def)
    ultimately have "kept ?s" by (simp add: kept_def)
    moreover have "same_tables ?s (snd (setup_account X A r s))"
      using reply_session_tables(1) [of "delete_sessions (\<lambda>se. se_user_id se = i) (?s\<lparr>setupConfigured := True\<rparr>)" 201 X r i]
      by (simp add: claimed(3) same_tables_def)
    ultimately show ?thesis by (blast intro: kept_acc_inv same_tables_kept)
  qed
qed

lemma WithAuth_open:
  assumes h: "\<And>r s. acc_inv s \<Longrightarrow> acc_inv (snd (h r s))" and inv: "acc_inv s"
  shows "acc_inv (snd (WithAuth X h r s))"
proof -
  obtain resp s' where res: "WithAuth X h r s = (resp, s')" by fastforce
  then have "acc_inv s'"
  proof (cases rule: WithAuth_cases)
    case skipped
    with h [OF inv, of r] show ?thesis by simp
  next
    case refused
    with inv show ?thesis using auth_required_inv tokenPrincipal_tables acc_inv_same_tables by blast
  next
    case (token a s1)
    with inv have "acc_inv s1" using tokenPrincipal_tables acc_inv_same_tables by blast
    with token(2) h [of s1 "r\<lparr>rq_auth := Some a\<rparr>"] show ?thesis by simp
  next
    case (session c a s1)
    from session(2) obtain se where "se \<in> set (sessions s)" and tabs: "same_tables s s1" by (rule loadSession_Some)
    with inv have "kept s" by (intro acc_inv_kept) auto
    with tabs have "acc_inv s1" by (blast intro: kept_acc_inv same_tables_kept)
    with session(3) h [of s1 "r\<lparr>rq_auth := Some a\<rparr>"] show ?thesis by simp
  qed
  with res show ?thesis by simp
qed

section \<open>Sequences of requests\<close>

text \<open>The accounts the first migration seeds.\<close>

definition seed_server :: server where
  "seed_server = \<lparr>workspaces = [\<lparr>ws_id = 1, ws_slug = ''default'', ws_name = ''Default Workspace''\<rparr>],
     users = [\<lparr>u_id = 2, u_email = ''dev@localhost'', u_name = Some ''Dev User'', u_password_hash = None,
        u_must_change_password = False, u_created_at = 0\<rparr>],
     members = [\<lparr>m_workspace_id = 1, m_user_id = 2, m_role = ''owner'', m_created_at = 0\<rparr>],
     sessions = [], api_tokens = [], setupConfigured = False, loginAttempts = newLoginLimiter,
     SecureCookies = ''auto''\<rparr>"

text \<open>
  A step is a request to one of the account routes, which arrives without a principal, or a restart
  of the process, which forgets the in-memory state.
\<close>

inductive account_step :: "externals \<Rightarrow> api_env \<Rightarrow> bool \<Rightarrow> server \<Rightarrow> server \<Rightarrow> bool" for X A devKey where
  served: "(route, h) \<in> set (accountRoutes X A devKey @ userRoutes X A @ tokenRoutes X A) \<Longrightarrow> rq_auth r = None \<Longrightarrow>
    WithAuth X h r s = (resp, s') \<Longrightarrow> account_step X A devKey s s'"
| restarted: "account_step X A devKey s (s\<lparr>setupConfigured := False, loginAttempts := newLoginLimiter\<rparr>)"

lemma account_step_inv:
  assumes "account_step X A devKey s s'" "acc_inv s"
  shows "acc_inv s'"
  using assms(1)
proof (cases rule: account_step.cases)
  case (served route h r resp)
  have open_routes: "acc_inv (snd (WithAuth X (setup_account X A) r s))" "acc_inv (snd (WithAuth X (login X A) r s))"
    "acc_inv (snd (WithAuth X (logout X) r s))"
    using setup_open login_open logout_open assms(2) by (auto intro: WithAuth_open)
  note guarded = changePassword_handler.keeps_inv me_handler.keeps_inv listUsers_handler.keeps_inv
    createUser_handler.keeps_inv updateUser_handler.keeps_inv deleteUser_handler.keeps_inv
    resetUserPassword_handler.keeps_inv listAPITokens_handler.keeps_inv createAPIToken_handler.keeps_inv
    rotateAPIToken_handler.keeps_inv deleteAPIToken_handler.keeps_inv
  have "acc_inv (snd (WithAuth X h r s))"
    using served(1) open_routes guarded [OF served(2) assms(2)]
    by (auto simp: accountRoutes_def userRoutes_def tokenRoutes_def)
  with served(3) show ?thesis by simp
next
  case restarted
  with assms(2) show ?thesis
    by (auto simp: acc_inv_def acc_base_def claimed_def fresh_instance_def)
qed

lemma accounts_reachable_inv: "(account_step X A devKey)\<^sup>*\<^sup>* seed_server s \<Longrightarrow> acc_inv s"
proof (induction rule: rtranclp_induct)
  case base
  show ?case
    by (simp add: seed_server_def acc_inv_def acc_base_def fresh_instance_def admin_member_def)
qed (rule account_step_inv)

text \<open>
  C30. Whatever sequence of requests an instance serves, restarts included, every workspace keeps an
  admin-tier member, and from the moment one account has a password the open \<^verbatim>\<open>/v1/setup\<close>
  route answers 409 and leaves the accounts alone: it can claim an account at most once.
\<close>

theorem accounts_never_lock_out_or_reopen_setup:
  assumes "(account_step X A devKey)\<^sup>*\<^sup>* seed_server s"
  shows "(\<forall>w \<in> set (workspaces s). 1 \<le> adminCount (ws_id w) s) \<and>
    ((\<exists>u \<in> set (users s). u_password_hash u \<noteq> None) \<longrightarrow>
      rs_status (fst (setup_account X A r s)) = 409 \<and> users (snd (setup_account X A r s)) = users s \<and>
      sessions (snd (setup_account X A r s)) = sessions s)"
proof -
  have inv: "acc_inv s" using assms by (rule accounts_reachable_inv)
  have "1 \<le> adminCount (ws_id w) s" if "w \<in> set (workspaces s)" for w
  proof -
    from inv that obtain m where m: "m \<in> set (members s)" "m_workspace_id m = ws_id w" "admin_member m"
      by (auto simp: acc_inv_def acc_base_def)
    then have "m \<in> set (filter (\<lambda>m. m_workspace_id m = ws_id w \<and> m_role m \<in> {''owner'', ''admin''}) (members s))"
      by (simp add: admin_member_def)
    from length_pos_if_in_set [OF this] show ?thesis unfolding adminCount_def by linarith
  qed
  moreover have "rs_status (fst (setup_account X A r s)) = 409 \<and> users (snd (setup_account X A r s)) = users s \<and>
      sessions (snd (setup_account X A r s)) = sessions s" if "\<exists>u \<in> set (users s). u_password_hash u \<noteq> None"
  proof -
    have "kept s" using acc_inv_kept [OF inv] that by blast
    from setup_configured [OF this, of X A r] show ?thesis by (simp add: s_error_def s_json_def)
  qed
  ultimately show ?thesis by blast
qed

definition demo_env :: api_env where
  "demo_env = \<lparr>ae_IDKey = demo_kdf, ae_uuid_Parse = (\<lambda>s. map_option nat (ParseInt s)), ae_timestamptz_text = Itoa\<rparr>"

definition demo_request :: request where
  "demo_request = \<lparr>rq_now = 5, rq_salt = Some ''salt'', rq_rand = Some ''rnd'', rq_path = ''/v1/setup'', rq_values = [],
     rq_query = [], rq_header = [], rq_cookie = None, rq_remote_addr = ''10.0.0.1:80'', rq_tls = True, rq_raw = [],
     rq_body = Some (JObj [(''email'', JStr ''A@x''), (''name'', JStr ''a''), (''password'', JStr ''password'')]),
     rq_auth = None\<rparr>"

definition demo_claimed :: server where
  "demo_claimed = snd (setup_account demo_X demo_env demo_request seed_server)"

lemma demo_claimed_user: "\<exists>u \<in> set (users demo_claimed). u_password_hash u \<noteq> None"
proof -
  obtain hash where hash: "hashPassword demo_kdf (Some ''salt'') ''password'' = Some hash"
    by (simp add: hashPassword_text)
  have fields: "strings_ok demo_request [''email'', ''name'', ''password'']" "string_field demo_request ''password'' = ''password''"
    "ToLower (TrimSpace (string_field demo_request ''email'')) = ''a@x''"
    "setupRequired seed_server = (True, seed_server)" "map_option u_id (unclaimed_owner seed_server) = Some 2"
    by code_simp+
  then obtain u where u: "unclaimed_owner seed_server = Some u" "u_id u = 2" by auto
  have req: "ae_IDKey demo_env = demo_kdf" "rq_salt demo_request = Some ''salt''" "\<not> email_taken ''a@x'' 2 seed_server"
    by (simp_all add: demo_env_def demo_request_def email_taken_def seed_server_def)
  have "users demo_claimed = users (update_user 2 (claim ''a@x'' (TrimSpace (string_field demo_request ''name'')) hash) seed_server)"
    using reply_session_tables(1)
    by (simp add: demo_claimed_def setup_account_def fields hash u req Let_def minPasswordLen_def same_tables_def)
  then show ?thesis by (simp add: update_user_def seed_server_def claim_def)
qed

lemma setup_workspaces: "workspaces (snd (setup_account X A r s)) = workspaces s"
  using reply_session_tables(1)
  by (auto simp: setup_account_def setupRequired_def same_tables_def Let_def split: option.splits)

lemma demo_claimed_workspaces:
  "\<lparr>ws_id = 1, ws_slug = ''default'', ws_name = ''Default Workspace''\<rparr> \<in> set (workspaces demo_claimed)"
  by (simp add: demo_claimed_def setup_workspaces seed_server_def)

theorem accounts_never_lock_out_or_reopen_setup_witness:
  "1 \<le> adminCount 1 demo_claimed \<and>
   rs_status (fst (setup_account demo_X demo_env demo_request demo_claimed)) = 409"
proof -
  have "account_step demo_X demo_env False seed_server demo_claimed"
  proof (rule account_step.served)
    show "(''POST /v1/setup'', setup_account demo_X demo_env) \<in>
        set (accountRoutes demo_X demo_env False @ userRoutes demo_X demo_env @ tokenRoutes demo_X demo_env)"
      by (simp add: accountRoutes_def)
    show "rq_auth demo_request = None" by (simp add: demo_request_def)
    have "rq_path demo_request \<in> set authSkip" by code_simp
    then show "WithAuth demo_X (setup_account demo_X demo_env) demo_request seed_server =
        (fst (setup_account demo_X demo_env demo_request seed_server), demo_claimed)"
      by (simp add: WithAuth_def demo_claimed_def)
  qed
  then have "(account_step demo_X demo_env False)\<^sup>*\<^sup>* seed_server demo_claimed" by blast
  from accounts_never_lock_out_or_reopen_setup [OF this, of demo_request] demo_claimed_user demo_claimed_workspaces
  show ?thesis by fastforce
qed

section \<open>Who reaches the admin surface\<close>

lemma auth_required_tables: "same_tables s (snd (auth_required s))"
  by (simp add: auth_required_def setupRequired_def same_tables_def)

text \<open>
  C31. The admin surface is reached with a live admin session only: a request to a route behind
  \<^verbatim>\<open>requireAdmin\<close> is either answered 401 or 403 with the account tables unchanged, or its cookie
  hashes to the token of an unexpired session of a user whose membership is owner or admin, and the
  handler runs for that member's workspace. A bearer API token never gets there.
\<close>

theorem admin_surface_requires_an_admin_session:
  assumes "rq_auth r = None" and "WithAuth X (requireAdmin nxt) r s = (resp, s')"
  shows "(rs_status resp \<in> {401, 403} \<and> same_tables s s') \<or>
    (\<exists>c se m a s1. rq_cookie r = Some c \<and> se \<in> set (sessions s) \<and> se_token se = hashToken X c \<and>
       rq_now r < se_expires_at se \<and> m \<in> set (members s) \<and> m_user_id m = se_user_id se \<and> isAdminRole (m_role m) \<and>
       a_UserID a = se_user_id se \<and> a_WorkspaceID a = m_workspace_id m \<and> same_tables s s1 \<and>
       nxt (r\<lparr>rq_auth := Some a\<rparr>) s1 = (resp, s'))"
  using assms(2)
proof (cases rule: WithAuth_cases)
  case skipped
  with assms(1) show ?thesis
    by (auto simp: requireAdmin_def authFrom_def admin_def s_error_def s_json_def same_tables_def)
next
  case refused
  then show ?thesis using auth_required_tables [of s] tokenPrincipal_tables [of X r s None s']
    by (auto simp: same_tables_def)
next
  case (token a s1)
  then show ?thesis using tokenPrincipal_kind [of X r s a s1] tokenPrincipal_tables [of X r s "Some a" s1]
    by (auto simp: requireAdmin_def authFrom_def admin_def s_error_def s_json_def)
next
  case (session c a s1)
  from session(2) obtain se m and u :: user_row where row: "se \<in> set (sessions s)" "se_token se = hashToken X c"
    "rq_now r < se_expires_at se" "u_id u = se_user_id se" "m \<in> set (members s)" "m_user_id m = u_id u"
    "a_Kind a = principalSession" "a_UserID a = u_id u" "a_WorkspaceID a = m_workspace_id m" "a_Role a = m_role m"
    "same_tables s s1"
    by (elim loadSession_Some) metis
  show ?thesis
  proof (cases "isAdminRole (m_role m)")
    case True
    with session(3) row have "nxt (r\<lparr>rq_auth := Some a\<rparr>) s1 = (resp, s')"
      by (simp add: requireAdmin_def authFrom_def admin_def isAdminRole_def split: if_splits)
    with True row session(1) show ?thesis by (intro disjI2 exI [of _ c] exI [of _ se] exI [of _ m] exI [of _ a] exI [of _ s1]) simp
  next
    case False
    with session(3) row show ?thesis
      by (auto simp: requireAdmin_def authFrom_def admin_def isAdminRole_def s_error_def s_json_def)
  qed
qed

theorem admin_surface_requires_an_admin_session_witness:
  "rs_status (fst (WithAuth demo_X (requireAdmin (deleteUser demo_env))
     (demo_request\<lparr>rq_path := ''/v1/users/2'', rq_cookie := Some ''guess''\<rparr>) seed_server)) \<in> {401, 403}"
proof -
  let ?r = "demo_request\<lparr>rq_path := ''/v1/users/2'', rq_cookie := Some ''guess''\<rparr>"
  have r: "rq_auth ?r = None" by (simp add: demo_request_def)
  have "sessions seed_server = []" by (simp add: seed_server_def)
  with admin_surface_requires_an_admin_session [OF r, of demo_X "deleteUser demo_env" seed_server] show ?thesis
    by (metis empty_iff empty_set prod.collapse)
qed

section \<open>API tokens\<close>

lemma nibble_plain: "\<not> is_space (nibble n)"
proof -
  have "\<forall>c \<in> set ''0123456789abcdef''. \<not> is_space c" by code_simp
  moreover have "nibble n \<in> set ''0123456789abcdef''" unfolding nibble_def by (rule nth_mem) simp
  ultimately show ?thesis by blast
qed

lemma hex_plain: "c \<in> set (hex_EncodeToString b) \<Longrightarrow> \<not> is_space c"
  by (auto simp: hex_EncodeToString_def nibble_plain)

lemma TrimSpace_id: "\<forall>c \<in> set s. \<not> is_space c \<Longrightarrow> TrimSpace s = s"
proof -
  have d: "dropWhile is_space xs = xs" if "\<forall>c \<in> set xs. \<not> is_space c" for xs using that by (cases xs) auto
  assume "\<forall>c \<in> set s. \<not> is_space c"
  with d [of s] d [of "rev s"] show "TrimSpace s = s" by (simp add: TrimSpace_def)
qed

lemma TrimSpace_token: "TrimSpace (''oak_'' @ hex_EncodeToString b) = ''oak_'' @ hex_EncodeToString b"
proof (rule TrimSpace_id)
  have "\<forall>c \<in> set ''oak_''. \<not> is_space c" by code_simp
  then show "\<forall>c \<in> set (''oak_'' @ hex_EncodeToString b). \<not> is_space c" using hex_plain unfolding set_append by blast
qed

definition presents :: "request \<Rightarrow> string \<Rightarrow> bool" where
  "presents q raw \<longleftrightarrow> Header_Get q ''Authorization'' = bearer @ raw"

lemma authenticateToken_presents:
  assumes "presents q raw" "TrimSpace raw = raw" "HasPrefix raw ''oak_''"
  shows "fst (authenticateToken X q s) =
    map_option at_workspace_id (find (\<lambda>t. at_token_hash t = hashToken X raw) (api_tokens s))"
  using assms by (auto simp: authenticateToken_def presents_def Let_def split: option.splits)

lemma find_replaced_hash:
  assumes "distinct (map at_token_hash ts)" "t \<in> set ts" "\<forall>t' \<in> set ts. P t' \<longleftrightarrow> t' = t" "h \<notin> at_token_hash ` (set ts - {t})"
    and f: "\<And>t. at_token_hash (f t) = h"
  shows "find (\<lambda>t. at_token_hash t = h) (map (\<lambda>t. if P t then f t else t) ts) = Some (f t)"
    and "h \<noteq> at_token_hash t \<Longrightarrow> find (\<lambda>u. at_token_hash u = at_token_hash t) (map (\<lambda>t. if P t then f t else t) ts) = None"
proof -
  show "find (\<lambda>t. at_token_hash t = h) (map (\<lambda>t. if P t then f t else t) ts) = Some (f t)"
    using assms(2-4) f by (induction ts) (auto simp: image_iff)
  show "find (\<lambda>u. at_token_hash u = at_token_hash t) (map (\<lambda>t. if P t then f t else t) ts) = None"
    if "h \<noteq> at_token_hash t"
    using assms(1-3) f that distinct_map_inj_on_set [OF assms(1) _ assms(2)] by (auto simp: find_None_iff_ball)
qed

text \<open>
  Rotating an API token replaces the credential in place: once the answer is 200, the old raw
  token no longer authenticates and the new one, returned in that answer, authenticates for the
  same workspace (given that the two hashes differ).
\<close>

lemma rotated_token_replaces_the_old_one:
  assumes "rotateAPIToken X A r s = (resp, s')" and "rs_status resp = 200"
    and "distinct (map at_id (api_tokens s))" and "distinct (map at_token_hash (api_tokens s))"
    and "t \<in> set (api_tokens s)" and "ae_uuid_Parse A (PathValue r ''id'') = Some (at_id t)"
    and "hashToken X old = at_token_hash t" and "HasPrefix old ''oak_''" and "TrimSpace old = old"
    and "newAPIToken X (rq_rand r) = Some (raw, hash, prefix)" and "hash \<noteq> at_token_hash t"
    and "presents q old" and "presents q' raw"
  shows "fst (authenticateToken X q s') = None \<and> fst (authenticateToken X q' s') = Some (at_workspace_id t) \<and>
    rs_body resp = Some (JObj [(''id'', JStr (uuid_String X (at_id t))), (''token'', JStr raw)])"
proof -
  let ?mine = "\<lambda>t'. at_id t' = at_id t \<and> at_workspace_id t' = workspace r"
  let ?f = "\<lambda>t. t\<lparr>at_token_hash := hash, at_prefix := prefix, at_last_used_at := None\<rparr>"
  have mine: "list_ex ?mine (api_tokens s)"
    and free: "\<forall>t' \<in> set (api_tokens s). at_id t' \<noteq> at_id t \<longrightarrow> at_token_hash t' \<noteq> hash"
    and res: "resp = s_json 200 (JObj [(''id'', JStr (uuid_String X (at_id t))), (''token'', JStr raw)])"
      "api_tokens s' = map (\<lambda>t. if ?mine t then ?f t else t) (api_tokens s)"
    using assms(1,2,6,10)
    by (auto simp: rotateAPIToken_def Let_def s_error_def s_json_def split: if_splits)
  have only: "\<forall>t' \<in> set (api_tokens s). ?mine t' \<longleftrightarrow> t' = t"
  proof -
    from mine obtain t0 where "t0 \<in> set (api_tokens s)" "?mine t0" by (auto simp: list_ex_iff)
    then show ?thesis using distinct_map_inj_on_set [OF assms(3)] assms(5) by metis
  qed
  have "at_token_hash t' \<noteq> hash" if "t' \<in> set (api_tokens s)" "t' \<noteq> t" for t'
    using free that distinct_map_inj_on_set [OF assms(3) that(1) assms(5)] by blast
  then have "hash \<notin> at_token_hash ` (set (api_tokens s) - {t})" by blast
  note found = find_replaced_hash [OF assms(4,5) only this, of ?f, simplified]
  have raw: "raw = ''oak_'' @ hex_EncodeToString b" "hash = hashToken X raw" if "rq_rand r = Some b" for b
    using assms(10) that by (auto simp: newAPIToken_def Let_def)
  obtain b where b: "rq_rand r = Some b" using assms(10) by (cases "rq_rand r") (auto simp: newAPIToken_def)
  have "TrimSpace raw = raw" "HasPrefix raw ''oak_''" using raw [OF b] TrimSpace_token [of b] by simp_all
  from authenticateToken_presents [OF assms(13) this]
  have new: "fst (authenticateToken X q' s') = Some (at_workspace_id t)"
    using found(1) by (simp add: res(2) flip: raw(2) [OF b])
  from authenticateToken_presents [OF assms(12,9,8)]
  have "fst (authenticateToken X q s') = None"
    using found(2) assms(11) by (simp add: res(2) assms(7))
  with new res(1) show ?thesis by (simp add: s_json_def)
qed

definition demo_principal :: authInfo where
  "demo_principal = \<lparr>a_Kind = principalSession, a_UserID = 2, a_Email = ''a@x'', a_UserName = None, a_WorkspaceID = 1,
     a_WorkspaceName = ''Default Workspace'', a_WorkspaceSlug = ''default'', a_Role = ''owner'',
     a_MustChangePassword = False, a_sessionTokenHash = ''h''\<rparr>"

section \<open>Two requests at once\<close>

text \<open>
  C32. The last-admin rule of \<^verbatim>\<open>deleteUser\<close> does not survive two requests in flight at once: the count
  is read before, and not in one transaction with, the deletion. With exactly two admin-tier members
  both checks pass on the state the two requests read, and after both deletions the workspace has no
  admin left.
\<close>

theorem concurrent_deletes_can_remove_every_admin:
  assumes "filter (\<lambda>m. m_workspace_id m = w \<and> m_role m \<in> {''owner'', ''admin''}) (members s) = [m1, m2]"
  shows "check_delete w (m_user_id m1) s = None \<and> check_delete w (m_user_id m2) s = None \<and>
    adminCount w (delete_user (m_user_id m2) (delete_user (m_user_id m1) s)) = 0"
proof -
  have two: "adminCount w s = 2" using assms(1) by (simp add: adminCount_def)
  have mem: "m \<in> set (members s) \<and> m_workspace_id m = w" if "m \<in> {m1, m2}" for m
  proof -
    have "m \<in> set (filter (\<lambda>m. m_workspace_id m = w \<and> m_role m \<in> {''owner'', ''admin''}) (members s))"
      unfolding assms(1) using that by auto
    then show ?thesis by simp
  qed
  have "memberRole w (m_user_id m) s \<noteq> None" if "m \<in> {m1, m2}" for m
    using mem [OF that] by (auto simp: memberRole_def find_None_iff)
  with two have "check_delete w (m_user_id m) s = None" if "m \<in> {m1, m2}" for m
    using that by (auto simp: check_delete_def split: option.splits)
  moreover have "\<not> (m_workspace_id m = w \<and> m_role m \<in> {''owner'', ''admin''})"
    if m: "m \<in> set (members s)" "m_user_id m \<noteq> m_user_id m1" "m_user_id m \<noteq> m_user_id m2" for m
  proof
    assume "m_workspace_id m = w \<and> m_role m \<in> {''owner'', ''admin''}"
    with m(1) have "m \<in> set (filter (\<lambda>m. m_workspace_id m = w \<and> m_role m \<in> {''owner'', ''admin''}) (members s))" by simp
    then show False unfolding assms(1) using m by auto
  qed
  then have "adminCount w (delete_user (m_user_id m2) (delete_user (m_user_id m1) s)) = 0"
    by (auto simp: adminCount_def delete_user_def filter_empty_conv)
  ultimately show ?thesis by blast
qed

definition demo_two_admins :: server where
  "demo_two_admins = seed_server\<lparr>members := members seed_server @
     [\<lparr>m_workspace_id = 1, m_user_id = 3, m_role = ''admin'', m_created_at = 1\<rparr>]\<rparr>"

theorem concurrent_deletes_can_remove_every_admin_witness:
  "check_delete 1 2 demo_two_admins = None \<and> check_delete 1 3 demo_two_admins = None \<and>
   adminCount 1 (delete_user 3 (delete_user 2 demo_two_admins)) = 0"
  using concurrent_deletes_can_remove_every_admin [of 1 demo_two_admins "members demo_two_admins ! 0" "members demo_two_admins ! 1"]
  by (simp add: demo_two_admins_def seed_server_def)

end
