(* ===== verification/Triggers_Facts.thy ===== *)
theory Triggers_Facts
  imports Triggers_Api Accounts_Facts
begin

text \<open>
  What the trigger endpoints keep true: a webhook address resolves to one trigger, only authentic
  deliveries start runs, and a redelivery does not start a second one.
\<close>

section \<open>Addresses\<close>

definition paths_unique :: "db \<Rightarrow> bool" where
  "paths_unique db \<longleftrightarrow> distinct (map tr_id (triggers db)) \<and> (\<forall>t \<in> set (triggers db). \<not> path_taken t (triggers db))"

lemma path_taken_append:
  "path_taken t (ts @ [u]) \<longleftrightarrow> path_taken t ts \<or> path_taken t [u]"
  by (auto simp: path_taken_def)

lemma path_taken_swap: "path_taken t [u] \<Longrightarrow> t \<in> set ts \<Longrightarrow> path_taken u ts"
  unfolding path_taken_def by simp metis

lemma insert_trigger_unique:
  assumes "paths_unique db" "insert_trigger t db = Inr db'"
  shows "paths_unique db'"
proof -
  have db': "db' = db\<lparr>triggers := triggers db @ [t]\<rparr>" "tr_id t \<notin> tr_id ` set (triggers db)" "\<not> path_taken t (triggers db)"
    using assms(2) by (auto simp: insert_trigger_def split: if_splits)
  have "\<not> path_taken t [t]" by (simp add: path_taken_def)
  with db' assms(1) show ?thesis
    by (auto simp: paths_unique_def path_taken_append dest: path_taken_swap)
qed

lemma delete_trigger_unique:
  assumes "paths_unique db" "delete_trigger i ws db = Inr (n, db')"
  shows "paths_unique db'"
proof -
  have "triggers db' = filter (\<lambda>t. \<not> (tr_id t = i \<and> tr_workspace_id t = ws)) (triggers db)"
    using assms(2) by (auto simp: delete_trigger_def Let_def split: if_splits)
  moreover have "path_taken t ts" if "path_taken t (filter P ts)" for t P ts
    using that unfolding path_taken_def set_filter by blast
  ultimately show ?thesis
    using assms(1) distinct_map_filter unfolding paths_unique_def by (metis filter_is_subset subsetD)
qed

lemma update_trigger_unique:
  assumes "paths_unique db" "update_trigger i ws f db = Inr db'"
    and f: "\<And>t. tr_id (f t) = tr_id t" "\<And>t. tr_workspace_id (f t) = tr_workspace_id t"
  shows "paths_unique db'"
proof -
  let ?m = "\<lambda>t. tr_id t = i \<and> tr_workspace_id t = ws"
  define g where "g = (\<lambda>t. if ?m t then f t else t)"
  have g: "tr_id (g t) = tr_id t" "?m (g t) \<longleftrightarrow> ?m t" for t by (simp_all add: g_def f)
  have db': "db' = db\<lparr>triggers := map g (triggers db)\<rparr>"
    and ok: "\<forall>t \<in> set (map g (triggers db)). ?m t \<longrightarrow> \<not> path_taken t (map g (triggers db))"
    using assms(2) by (auto simp: update_trigger_def Let_def g_def list_ex_iff split: if_splits)
  have "\<not> path_taken t (map g (triggers db))" if t: "t \<in> set (map g (triggers db))" for t
  proof (cases "?m t")
    case False
    obtain t0 where t0: "t0 \<in> set (triggers db)" "t = g t0" using t by auto
    with False g(2) [of t0] have "\<not> ?m t0" by blast
    then have "g t0 = t0" unfolding g_def by (rule if_not_P)
    with t0 have t': "t \<in> set (triggers db)" by simp
    show ?thesis
    proof
      assume "path_taken t (map g (triggers db))"
      then obtain u where u: "u \<in> set (triggers db)" "path_taken t [g u]" by (auto simp: path_taken_def)
      show False
      proof (cases "?m u")
        case True
        with g(2) [of u] ok u(1) have "\<not> path_taken (g u) (map g (triggers db))" by simp
        with path_taken_swap [OF u(2) t] show False by simp
      next
        case False
        then have "g u = u" unfolding g_def by (rule if_not_P)
        with u have "path_taken t (triggers db)" by (auto simp: path_taken_def)
        with assms(1) t' show False by (simp add: paths_unique_def)
      qed
    qed
  qed (use ok t in blast)
  moreover have "map tr_id (map g (triggers db)) = map tr_id (triggers db)" using g(1) by simp
  moreover have "triggers db' = map g (triggers db)" by (simp add: db')
  ultimately show ?thesis using assms(1) unfolding paths_unique_def by metis
qed

text \<open>
  C35. A webhook address names one trigger. Creating, patching and deleting triggers keep the paths
  of a workspace's webhooks distinct, so whatever requests were served, the query behind
  \<^verbatim>\<open>/hooks/{ws}/{path}\<close> never has two triggers to choose from.
\<close>

theorem webhook_addresses_stay_unambiguous:
  assumes inv: "paths_unique db" and h: "h \<in> {createTrigger X A C, updateTrigger X A C, deleteTrigger A}"
    and ws: "distinct (map ws_slug wss)" "distinct (map ws_id wss)"
    and found: "(w1, t1, f1) \<in> set (resolve_webhook wss (snd (h r db)) slug path)"
      "(w2, t2, f2) \<in> set (resolve_webhook wss (snd (h r db)) slug path)"
  shows "paths_unique (snd (h r db)) \<and> w1 = w2 \<and> t1 = t2"
proof -
  have patch: "paths_unique (snd (apply_patch X r i config db))" for i config
    using inv by (auto simp: apply_patch_def patch_trigger_def split: sum.splits intro: update_trigger_unique)
  have "paths_unique (snd (createTrigger X A C r db))"
    using inv by (auto simp: createTrigger_def Let_def split: option.splits sum.splits intro: insert_trigger_unique)
  moreover have "paths_unique (snd (updateTrigger X A C r db))"
    using inv patch by (auto simp: updateTrigger_def split: option.splits sum.splits)
  moreover have "paths_unique (snd (deleteTrigger A r db))"
    using inv by (auto simp: deleteTrigger_def split: option.splits sum.splits intro: delete_trigger_unique)
  ultimately have kept: "paths_unique (snd (h r db))" using h by blast
  from found have w: "w1 \<in> set wss" "w2 \<in> set wss" "ws_slug w1 = ws_slug w2"
    and t: "t1 \<in> set (triggers (snd (h r db)))" "t2 \<in> set (triggers (snd (h r db)))"
      "tr_workspace_id t1 = ws_id w1" "tr_workspace_id t2 = ws_id w2" "tr_type t1 = ''webhook''" "tr_type t2 = ''webhook''"
      "config_text ''path'' (tr_config t1) = Some path" "config_text ''path'' (tr_config t2) = Some path"
    by (auto simp: resolve_webhook_def)
  have "w1 = w2" using distinct_map_inj_on_set [OF ws(1) w] .
  moreover have "tr_id t1 = tr_id t2"
  proof (rule ccontr)
    assume "tr_id t1 \<noteq> tr_id t2"
    with t \<open>w1 = w2\<close> have "path_taken t1 (triggers (snd (h r db)))" unfolding path_taken_def
      by (metis option.distinct(1))
    with kept t(1) show False by (simp add: paths_unique_def)
  qed
  then have "t1 = t2" using kept t(1,2) distinct_map_inj_on_set unfolding paths_unique_def by metis
  ultimately show ?thesis using kept by blast
qed

definition demo_hook :: trigger_row where
  "demo_hook = \<lparr>tr_id = 5, tr_workspace_id = 7, tr_workflow_id = 3, tr_type = ''webhook'',
     tr_config = [(''path'', JStr ''in''), (''secret'', JStr ''k'')], tr_is_enabled = True\<rparr>"

definition demo_hook_db :: db where
  "demo_hook_db = demo_db\<lparr>triggers := [demo_hook]\<rparr>"

definition demo_wss :: "workspace_row list" where
  "demo_wss = [\<lparr>ws_id = 7, ws_slug = ''w'', ws_name = ''W''\<rparr>]"

definition demo_delivery :: request where
  "demo_delivery = demo_request\<lparr>rq_values := [(''ws'', ''w''), (''path'', ''in''), (''id'', ''5'')], rq_raw := ''x'',
     rq_header := [(''X-Oarlock-Signature'', hex_EncodeToString (hmac_Sum demo_X ''k'' ''x'')), (''X-Idempotency-Key'', ''d1'')]\<rparr>"

definition demo_patch :: request where
  "demo_patch = demo_request\<lparr>rq_values := [(''id'', ''5'')], rq_body := Some (JObj [(''is_enabled'', JBool False)]),
     rq_auth := Some (demo_principal\<lparr>a_WorkspaceID := 7\<rparr>)\<rparr>"

theorem webhook_addresses_stay_unambiguous_witness:
  "paths_unique (snd (updateTrigger demo_X demo_env demo_cron demo_patch demo_hook_db)) \<and>
   resolve_webhook demo_wss (snd (updateTrigger demo_X demo_env demo_cron demo_patch demo_hook_db)) ''w'' ''in'' =
     [(hd demo_wss, demo_hook\<lparr>tr_is_enabled := False\<rparr>, hd (workflows demo_db))]"
proof -
  let ?db = "snd (updateTrigger demo_X demo_env demo_cron demo_patch demo_hook_db)"
  have row: "resolve_webhook demo_wss ?db ''w'' ''in'' =
      [(hd demo_wss, demo_hook\<lparr>tr_is_enabled := False\<rparr>, hd (workflows demo_db))]"
    by code_simp
  then have mem: "(hd demo_wss, demo_hook\<lparr>tr_is_enabled := False\<rparr>, hd (workflows demo_db)) \<in>
      set (resolve_webhook demo_wss ?db ''w'' ''in'')" by simp
  have "paths_unique demo_hook_db" "distinct (map ws_slug demo_wss)" "distinct (map ws_id demo_wss)" by code_simp+
  from webhook_addresses_stay_unambiguous
    [where h = "updateTrigger demo_X demo_env demo_cron" and X = demo_X and A = demo_env and C = demo_cron, OF this(1) _ this(2,3) mem mem] row show ?thesis by simp
qed

section \<open>Deliveries\<close>

lemma webhook_cases:
  assumes "webhook X wss r db = (resp, db')"
  obtains (refused) "db' = db" "rs_status resp \<in> {403, 404, 500}"
    | (started) ws t wfl runID created where
        "resolve_webhook wss db (PathValue r ''ws'') (PathValue r ''path'') \<noteq> []"
        "(ws, t, wfl) = hd (resolve_webhook wss db (PathValue r ''ws'') (PathValue r ''path''))"
        "tr_is_enabled t" "w_is_enabled wfl" "w_current_version_id wfl \<noteq> None"
        "\<forall>secret. config_text ''secret'' (tr_config t) = Some secret \<and> secret \<noteq> [] \<longrightarrow>
           verifyHMAC X secret (rq_raw r) (Header_Get r ''X-Oarlock-Signature'')"
        "StartRunOpts X (rq_now r) (ws_id ws) (tr_workflow_id t) (webhook_input X r)
           (engineRunOpts X (tr_id t) (Header_Get r ''X-Idempotency-Key'')) db = Inr (runID, created, db')"
        "resp = s_json (if created then 202 else 200) (JObj [(''run_id'', JStr (uuid_String X runID))])"
proof (cases "rs_status resp \<in> {403, 404, 500}")
  case True
  moreover from True have "db' = db"
    using assms by (auto simp: webhook_def Let_def s_json_def s_error_def split: list.splits if_splits sum.splits)
  ultimately show thesis by (rule refused [rotated])
next
  case False
  then show thesis
    using assms
    by (auto simp: webhook_def Let_def s_json_def s_error_def
        split: list.splits if_splits sum.splits prod.splits intro!: started)
qed

text \<open>
  C33. Only authentic deliveries start runs. If a webhook request changes the store, or is answered
  with a run, then its address resolved to an enabled trigger of an enabled workflow with a saved
  version, and a trigger with a secret carried the hex HMAC-SHA256 of the exact body under it.
\<close>

theorem webhook_runs_are_authentic:
  assumes "webhook X wss r db = (resp, db')" and "db' \<noteq> db \<or> rs_status resp \<in> {200, 202}"
  shows "\<exists>ws t wfl. (ws, t, wfl) \<in> set (resolve_webhook wss db (PathValue r ''ws'') (PathValue r ''path'')) \<and>
    tr_is_enabled t \<and> w_is_enabled wfl \<and> w_current_version_id wfl \<noteq> None \<and>
    (\<forall>secret. config_text ''secret'' (tr_config t) = Some secret \<and> secret \<noteq> [] \<longrightarrow>
       Header_Get r ''X-Oarlock-Signature'' = hex_EncodeToString (hmac_Sum X secret (rq_raw r)))"
  using assms(1)
proof (cases rule: webhook_cases)
  case refused
  with assms(2) show ?thesis by auto
next
  case (started ws t wfl runID created)
  then have "(ws, t, wfl) \<in> set (resolve_webhook wss db (PathValue r ''ws'') (PathValue r ''path''))"
    by (metis list.set_sel(1))
  with started show ?thesis unfolding verifyHMAC_def by metis
qed

definition demo_hooked :: db where
  "demo_hooked = ok_or demo_hook_db (rbind (StartRunOpts demo_X 5 7 3 (JObj [(''body'', JStr ''x''), (''query'', JObj [])])
     \<lparr>ro_TriggerID = Some 5, ro_IdempotencyKey = ''hook:5:d1''\<rparr> demo_hook_db) (\<lambda>(i, c, db). Inr db))"

lemma demo_delivery_fields:
  "PathValue demo_delivery ''ws'' = ''w''" "PathValue demo_delivery ''path'' = ''in''" "rq_now demo_delivery = 5"
  "Header_Get demo_delivery ''X-Idempotency-Key'' = ''d1''" "rq_raw demo_delivery = ''x''"
  "Header_Get demo_delivery ''X-Oarlock-Signature'' = hex_EncodeToString (hmac_Sum demo_X ''k'' ''x'')"
  "webhook_input demo_X demo_delivery = JObj [(''body'', JStr ''x''), (''query'', JObj [])]"
  by (simp_all add: demo_delivery_def PathValue_def Header_Get_def demo_request_def webhook_input_def demo_X_def
      List.map_filter_simps)

lemma demo_webhook:
  "webhook demo_X demo_wss demo_delivery demo_hook_db = (s_json 202 (JObj [(''run_id'', JStr ''2'')]), demo_hooked)"
proof -
  have "resolve_webhook demo_wss demo_hook_db ''w'' ''in'' = [(hd demo_wss, demo_hook, hd (workflows demo_db))]"
    "StartRunOpts demo_X 5 7 3 (JObj [(''body'', JStr ''x''), (''query'', JObj [])])
      \<lparr>ro_TriggerID = Some 5, ro_IdempotencyKey = ''hook:5:d1''\<rparr> demo_hook_db = Inr (2, True, demo_hooked)"
    "engineRunOpts demo_X 5 ''d1'' = \<lparr>ro_TriggerID = Some 5, ro_IdempotencyKey = ''hook:5:d1''\<rparr>"
    "config_text ''secret'' (tr_config demo_hook) = Some ''k''" "tr_is_enabled demo_hook" "tr_id demo_hook = 5"
    "tr_workflow_id demo_hook = 3" "w_is_enabled (hd (workflows demo_db))" "w_current_version_id (hd (workflows demo_db)) = Some 4"
    "ws_id (hd demo_wss) = 7" "uuid_String demo_X 2 = ''2''"
    by code_simp+
  then show ?thesis by (simp add: webhook_def demo_delivery_fields verifyHMAC_def)
qed

lemma demo_resolved:
  "resolve_webhook demo_wss demo_hook_db (PathValue demo_delivery ''ws'') (PathValue demo_delivery ''path'') =
     [(hd demo_wss, demo_hook, hd (workflows demo_db))]"
  unfolding demo_delivery_fields by code_simp

theorem webhook_runs_are_authentic_witness:
  "tr_is_enabled demo_hook \<and> w_is_enabled (hd (workflows demo_db)) \<and>
   Header_Get demo_delivery ''X-Oarlock-Signature'' = hex_EncodeToString (hmac_Sum demo_X ''k'' ''x'')"
proof -
  have "rs_status (s_json 202 (JObj [(''run_id'', JStr ''2'')])) \<in> {200, 202}" by (simp add: s_json_def)
  moreover have "config_text ''secret'' (tr_config demo_hook) = Some ''k''" by code_simp
  ultimately show ?thesis
    using webhook_runs_are_authentic [OF demo_webhook] by (simp add: demo_resolved demo_delivery_fields(5))
qed

lemma Marshal_started:
  assumes "StartRunOpts X now ws wfl input opts db = Inr res"
  shows "\<exists>v s. select_version db ws wfl = Inr v \<and> Marshal input = Inr s \<and> jsonb_ok X s"
  using assms by (auto simp: StartRunOpts_def Let_def rbind_Inr_iff split: if_splits)

lemma select_version_cong: "workflows db' = workflows db \<Longrightarrow> select_version db' ws wfl = select_version db ws wfl"
  by (simp add: select_version_def)



text \<open>
  A trigger that has fired cannot be deleted: as long as one run records it, the delete request
  is answered 500 and the trigger stays, since the reference from runs has no action on delete.
\<close>

lemma fired_trigger_cannot_be_deleted:
  assumes "t \<in> set (triggers db)" and "tr_workspace_id t = workspace r"
    and "ae_uuid_Parse A (PathValue r ''id'') = Some (tr_id t)"
    and "q \<in> set (runs db)" and "r_trigger_id q = Some (tr_id t)"
  shows "deleteTrigger A r db = (s_error 500 [], db)"
  using assms by (auto simp: deleteTrigger_def delete_trigger_def Let_def list_ex_iff)

end
