(* ===== verification/Workflows_Facts.thy ===== *)
theory Workflows_Facts
  imports Workflows_Api Engine_System Triggers_Facts
begin

text \<open>
  What saving a definition does to the store, as the engine sees it, and that the pages of a run list
  fit together.
\<close>

section \<open>Saving a definition\<close>

lemma foldl_max_int_ge: "(\<forall>x \<in> set xs. x \<le> foldl max a xs) \<and> (a :: int) \<le> foldl max a xs"
  by (induction xs arbitrary: a) (auto, (meson max.cobounded1 max.cobounded2 order_trans)+)

lemma next_version_greater: "v \<in> set (versions db) \<Longrightarrow> v_workflow_id v = i \<Longrightarrow> v_version v < next_version i db"
  using foldl_max_int_ge [of "map v_version (filter (\<lambda>v. v_workflow_id v = i) (versions db))" 0]
  by (fastforce simp: next_version_def)

lemma validateDefinition_None:
  "validateDefinition Has raw = None \<Longrightarrow> \<exists>d. Parse raw = Inr d \<and> Validate d (Some Has) = None"
  by (auto simp: validateDefinition_def split: sum.splits option.splits)

lemma putDefinition_cases:
  assumes "putDefinition X A jsonb_in Has r db = (resp, db')"
  obtains (refused) "db' = db" "rs_status resp \<noteq> 200"
    | (saved) i d w v where "ae_uuid_Parse A (PathValue r ''id'') = Some i" "raw_field r ''definition'' = Some d"
        "validateDefinition Has d = None" "my_workflow i r db = Some w" "v_definition v = jsonb_in d"
        "v_workflow_id v = i" "v_version v = next_version i db" "insert_version v db = Inr (db\<lparr>versions := versions db @ [v]\<rparr>)"
        "db' = set_current i (version_id i (v_version v) (db\<lparr>versions := versions db @ [v]\<rparr>)) (db\<lparr>versions := versions db @ [v]\<rparr>)"
        "resp = s_json 200 (JObj [(''id'', JStr (uuid_String X i)), (''version'', JNum (Itoa (v_version v)))])"
proof (cases "rs_status resp = 200")
  case False
  then have "db' = db"
    using assms by (auto simp: putDefinition_def Let_def s_json_def split: option.splits if_splits sum.splits)
  then show thesis using False by (rule refused)
next
  case True
  have ins: "insert_version v db = Inr db1 \<Longrightarrow> db1 = db\<lparr>versions := versions db @ [v]\<rparr>" for v db1
    by (auto simp: insert_version_def split: if_splits)
  have no: "rs_status (s_error st m) = st" for st m by (simp add: s_error_def s_json_def)
  define v where "v = (\<lambda>i d. \<lparr>v_id = gen_random_uuid X (map v_id (versions db)), v_workflow_id = i,
    v_version = next_version i db, v_definition = jsonb_in d\<rparr>)"
  obtain i where i: "ae_uuid_Parse A (PathValue r ''id'') = Some i"
    using assms True no by (cases "ae_uuid_Parse A (PathValue r ''id'')") (auto simp: putDefinition_def)
  have struct: "body_is_struct (rq_body r)" using assms True no i by (auto simp: putDefinition_def split: if_splits)
  obtain d where d: "raw_field r ''definition'' = Some d"
    using assms True no i struct by (cases "raw_field r ''definition''") (auto simp: putDefinition_def)
  have valid: "validateDefinition Has d = None"
    using assms True no i struct d by (cases "validateDefinition Has d") (auto simp: putDefinition_def)
  obtain w where w: "my_workflow i r db = Some w"
    using assms True no i struct d valid by (cases "my_workflow i r db") (auto simp: putDefinition_def)
  obtain db1 where inserted: "insert_version (v i d) db = Inr db1"
    using assms True no i struct d valid w
    by (cases "insert_version (v i d) db") (auto simp: putDefinition_def Let_def v_def)
  have res: "db' = set_current i (version_id i (next_version i db) db1) db1"
      "resp = s_json 200 (JObj [(''id'', JStr (uuid_String X i)), (''version'', JNum (Itoa (next_version i db)))])"
    using assms i struct d valid w inserted by (simp_all add: putDefinition_def Let_def v_def)
  have v: "v_definition (v i d) = jsonb_in d" "v_workflow_id (v i d) = i" "v_version (v i d) = next_version i db"
    by (simp_all add: v_def)
  have db1: "db1 = db\<lparr>versions := versions db @ [v i d]\<rparr>" using inserted by (rule ins)
  show thesis by (rule saved [OF i d valid w v]) (use inserted res in \<open>simp_all only: db1 v\<close>)
qed

lemma find_append: "find P (xs @ ys) = (case find P xs of Some x \<Rightarrow> Some x | None \<Rightarrow> find P ys)"
  by (induction xs) auto

text \<open>Setting the current version of a workflow makes it startable.\<close>

lemma find_updated_workflow:
  assumes "find (\<lambda>w. w_id w = i \<and> w_workspace_id w = ws) xs = Some w"
  shows "find (\<lambda>w. w_id w = i \<and> w_workspace_id w = ws \<and> w_current_version_id w \<noteq> None)
      (map (\<lambda>w. if w_id w = i then w\<lparr>w_current_version_id := Some v\<rparr> else w) xs) = Some (w\<lparr>w_current_version_id := Some v\<rparr>)"
  using assms by (induction xs) (auto split: if_splits)

lemma version_id_new:
  assumes "insert_version v db = Inr db1"
  shows "version_id (v_workflow_id v) (v_version v) (db\<lparr>versions := versions db @ [v]\<rparr>) = Some (v_id v)"
proof -
  have "find (\<lambda>v'. v_workflow_id v' = v_workflow_id v \<and> v_version v' = v_version v) (versions db) = None"
    using assms by (auto simp: insert_version_def find_None_iff_ball split: if_splits)
  then have "find (\<lambda>v'. v_workflow_id v' = v_workflow_id v \<and> v_version v' = v_version v) (versions db @ [v]) = Some v"
    by (simp add: find_append)
  then show ?thesis by (simp add: version_id_def)
qed


definition demo_put :: request where
  "demo_put = demo_request\<lparr>rq_values := [(''id'', ''3'')], rq_body := Some (JObj [(''definition'', demo_json)]),
     rq_auth := Some (demo_principal\<lparr>a_WorkspaceID := 7\<rparr>)\<rparr>"


section \<open>Pages of runs\<close>

lemma sorted_strict:
  assumes "sorted (map f xs)" "distinct (map f xs)"
  shows "sorted_wrt (<) (map f xs)"
  using assms by (simp add: strict_sorted_iff)

lemma newest_first_sorted:
  assumes "distinct (map r_id rs)"
  shows "sorted_wrt (\<lambda>a b. run_key b < run_key a) (newest_first rs)"
proof -
  have "distinct (map run_key (sort_key run_key rs))"
  proof -
    have "inj_on run_key (set rs)" using assms by (auto simp: inj_on_def run_key_def distinct_map)
    moreover have "distinct rs" using assms by (simp add: distinct_map)
    ultimately show ?thesis by (simp add: distinct_map)
  qed
  then have "sorted_wrt (<) (map run_key (sort_key run_key rs))" by (intro sorted_strict) simp_all
  then show ?thesis by (simp add: newest_first_def sorted_wrt_map sorted_wrt_rev)
qed

lemma filter_after_cursor:
  assumes "sorted_wrt (\<lambda>a b. run_key b < run_key a) (front @ rest)" "front \<noteq> []"
  shows "filter (\<lambda>r. run_key r < run_key (last front)) (front @ rest) = rest"
proof -
  have "\<not> run_key r < run_key (last front)" if "r \<in> set front" for r
  proof -
    obtain init where front: "front = init @ [last front]" using assms(2) by (metis append_butlast_last_id)
    have "sorted_wrt (\<lambda>a b. run_key b < run_key a) front" using assms(1) by (simp add: sorted_wrt_append)
    then have "sorted_wrt (\<lambda>a b. run_key b < run_key a) (init @ [last front])" using front by simp
    then have "\<forall>a \<in> set init. run_key (last front) < run_key a" by (simp add: sorted_wrt_append)
    moreover have "set front = insert (last front) (set init)" by (subst front) simp
    ultimately show ?thesis using that by auto
  qed
  moreover have "run_key r < run_key (last front)" if "r \<in> set rest" for r
    using assms that by (simp add: sorted_wrt_append)
  ultimately show ?thesis by (simp add: filter_empty_conv filter_id_conv)
qed

lemma newest_first_filter: "newest_first (filter P rs) = filter P (newest_first rs)"
  by (simp add: newest_first_def rev_filter flip: filter_sort)

text \<open>
  The pages of a run list fit together: asking for the page after the last run of a full page
  continues exactly where that page ended, so walking the list with the cursor gives every run of
  the workflow once, newest first, even when runs share their creation time.
\<close>

lemma run_pages_fit_together:
  assumes ids: "distinct (map r_id (runs db))"
    and first: "page_of_runs ws i before n db = first" "first \<noteq> []" "length first = n"
  shows "page_of_runs ws i before (n + m) db = first @ page_of_runs ws i (Some (run_key (last first))) m db"
proof -
  let ?Q = "\<lambda>r. r_workflow_id r = i \<and> r_workspace_id r = ws"
  let ?B = "\<lambda>r. case before of None \<Rightarrow> True | Some k \<Rightarrow> key_before r k"
  define all where "all = newest_first (filter (\<lambda>r. ?Q r \<and> ?B r) (runs db))"
  define rest where "rest = drop n all"
  have page: "page_of_runs ws i before k db = take k all" for k
    unfolding page_of_runs_def all_def by (simp only: conj_assoc)
  have split: "all = first @ rest" using first(1) append_take_drop_id [of n all] unfolding page rest_def by simp
  have "sorted_wrt (\<lambda>a b. run_key b < run_key a) all"
    unfolding all_def by (rule newest_first_sorted) (use ids in \<open>simp add: distinct_map_filter\<close>)
  then have after: "filter (\<lambda>r. run_key r < run_key (last first)) all = rest"
    unfolding split by (rule filter_after_cursor) (rule first(2))
  have "?B r" if "run_key r < run_key (last first)" for r
  proof -
    have "last first \<in> set all" using split first(2) by simp
    then have "?B (last first)" by (simp add: all_def newest_first_def)
    with that show ?thesis by (auto simp: key_before_def split: option.splits)
  qed
  then have "(\<lambda>r. (?Q r \<and> ?B r) \<and> run_key r < run_key (last first)) = (\<lambda>r. ?Q r \<and> key_before r (run_key (last first)))"
    unfolding key_before_def by blast
  with after have "newest_first (filter (\<lambda>r. ?Q r \<and> key_before r (run_key (last first))) (runs db)) = rest"
    unfolding all_def newest_first_filter [symmetric] filter_filter by simp
  then have "page_of_runs ws i (Some (run_key (last first))) m db = take m rest"
    unfolding page_of_runs_def option.case by (simp only: conj_assoc)
  with first(3) show ?thesis by (simp add: page split)
qed

end
