(* ===== verification/Tenancy.thy ===== *)
theory Tenancy
  imports Workflows_Facts
begin

text \<open>
  Workspaces are tenants. Every row of the store belongs to a workspace, directly or through its
  workflow; \<open>tenancy\<close> says that the columns agree, \<open>others ws\<close> is what the other workspaces own. A
  route is a tenant route when serving a request changes nothing of theirs and keeps the columns in
  agreement; every route that writes workflows, versions, triggers or runs is one.
\<close>

section \<open>Ownership\<close>

definition flow_owners :: "db \<Rightarrow> (uuid \<times> uuid) set" where
  "flow_owners db = (\<lambda>w. (w_id w, w_workspace_id w)) ` set (workflows db)"

definition run_owners :: "db \<Rightarrow> (uuid \<times> uuid) set" where
  "run_owners db = (\<lambda>r. (r_id r, r_workspace_id r)) ` set (runs db)"

definition task_owners :: "db \<Rightarrow> (uuid \<times> uuid) set" where
  "task_owners db = (\<lambda>t. (t_id t, t_workspace_id t)) ` set (tasks db)"

definition version_owners :: "db \<Rightarrow> (uuid \<times> uuid) set" where
  "version_owners db = (\<lambda>v. (v_id v, v_workflow_id v)) ` set (versions db)"

definition current_versions :: "db \<Rightarrow> (uuid \<times> uuid) set" where
  "current_versions db = {(v, w_id w) |w v. w \<in> set (workflows db) \<and> w_current_version_id w = Some v}"

definition tenancy :: "db \<Rightarrow> bool" where
  "tenancy db \<longleftrightarrow>
     distinct (map w_id (workflows db)) \<and> distinct (map v_id (versions db)) \<and>
     current_versions db \<subseteq> version_owners db \<and>
     (\<lambda>r. (r_version_id r, r_workflow_id r)) ` set (runs db) \<subseteq> version_owners db \<and>
     distinct (map r_id (runs db)) \<and> distinct (map t_id (tasks db)) \<and>
     v_workflow_id ` set (versions db) \<subseteq> fst ` flow_owners db \<and>
     (\<lambda>t. (tr_workflow_id t, tr_workspace_id t)) ` set (triggers db) \<subseteq> flow_owners db \<and>
     (\<lambda>r. (r_workflow_id r, r_workspace_id r)) ` set (runs db) \<subseteq> flow_owners db \<and>
     (\<lambda>t. (t_run_id t, t_workspace_id t)) ` set (tasks db) \<subseteq> run_owners db \<and>
     (\<lambda>s. (su_task_id s, su_workspace_id s)) ` set (suspensions db) \<subseteq> task_owners db"

definition others :: "uuid \<Rightarrow> db \<Rightarrow>
    workflow_row list \<times> version_row list \<times> trigger_row list \<times> run_row list \<times> task_row list \<times> suspension_row list" where
  "others ws db =
     (filter (\<lambda>w. w_workspace_id w \<noteq> ws) (workflows db),
      filter (\<lambda>v. (v_workflow_id v, ws) \<notin> flow_owners db) (versions db),
      filter (\<lambda>t. tr_workspace_id t \<noteq> ws) (triggers db),
      filter (\<lambda>r. r_workspace_id r \<noteq> ws) (runs db),
      filter (\<lambda>t. t_workspace_id t \<noteq> ws) (tasks db),
      filter (\<lambda>s. su_workspace_id s \<noteq> ws) (suspensions db))"

definition within :: "uuid \<Rightarrow> db \<Rightarrow> db \<Rightarrow> bool" where
  "within ws db db' \<longleftrightarrow> others ws db' = others ws db \<and> tenancy db'"

lemmas owner_defs = flow_owners_def run_owners_def task_owners_def version_owners_def current_versions_def

lemma within_refl: "tenancy db \<Longrightarrow> within ws db db"
  by (simp add: within_def)

lemma within_trans: "within ws a b \<Longrightarrow> within ws b c \<Longrightarrow> within ws a c"
  by (simp add: within_def)

lemma within_tenancy: "within ws db db' \<Longrightarrow> tenancy db'"
  by (simp add: within_def)

lemma within_jobs: "within ws db db' \<Longrightarrow> within ws db (InsertTx a at db')"
  by (simp add: within_def others_def tenancy_def owner_defs InsertTx_def)

text \<open>An id has one owner.\<close>

lemma one_owner:
  assumes "distinct (map key xs)" "(i, a) \<in> (\<lambda>x. (key x, ws x)) ` set xs" "(i, b) \<in> (\<lambda>x. (key x, ws x)) ` set xs"
  shows "a = b"
proof -
  from assms(2,3) obtain x y where "x \<in> set xs" "y \<in> set xs" "key x = i" "key y = i" "a = ws x" "b = ws y" by auto
  with distinct_map_inj_on_set [OF assms(1)] show ?thesis by metis
qed

lemma flow_owner: "tenancy db \<Longrightarrow> (i, a) \<in> flow_owners db \<Longrightarrow> (i, b) \<in> flow_owners db \<Longrightarrow> a = b"
  unfolding flow_owners_def by (rule one_owner) (simp_all add: tenancy_def)

lemma owner_of_workflow:
  assumes "tenancy db" "(i, a) \<in> flow_owners db" "w \<in> set (workflows db)" "w_id w = i"
  shows "w_workspace_id w = a"
proof -
  have "(i, w_workspace_id w) \<in> flow_owners db"
    unfolding flow_owners_def by (rule image_eqI [OF _ assms(3)]) (simp add: assms(4))
  with assms(1,2) show ?thesis by (blast intro: flow_owner)
qed

lemma run_owner: "tenancy db \<Longrightarrow> (i, a) \<in> run_owners db \<Longrightarrow> (i, b) \<in> run_owners db \<Longrightarrow> a = b"
  unfolding run_owners_def by (rule one_owner) (simp_all add: tenancy_def)

lemma task_owner: "tenancy db \<Longrightarrow> (i, a) \<in> task_owners db \<Longrightarrow> (i, b) \<in> task_owners db \<Longrightarrow> a = b"
  unfolding task_owners_def by (rule one_owner) (simp_all add: tenancy_def)

lemma flow_of_version: "tenancy db \<Longrightarrow> v \<in> set (versions db) \<Longrightarrow> v_workflow_id v \<in> fst ` flow_owners db"
  and flow_of_trigger: "tenancy db \<Longrightarrow> t \<in> set (triggers db) \<Longrightarrow> (tr_workflow_id t, tr_workspace_id t) \<in> flow_owners db"
  and flow_of_run: "tenancy db \<Longrightarrow> r \<in> set (runs db) \<Longrightarrow> (r_workflow_id r, r_workspace_id r) \<in> flow_owners db"
  and run_of_task: "tenancy db \<Longrightarrow> k \<in> set (tasks db) \<Longrightarrow> (t_run_id k, t_workspace_id k) \<in> run_owners db"
  and task_of_suspension: "tenancy db \<Longrightarrow> s \<in> set (suspensions db) \<Longrightarrow> (su_task_id s, su_workspace_id s) \<in> task_owners db"
  by (simp_all add: tenancy_def image_subset_iff)

lemma current_version_owned:
  assumes "tenancy db" "w \<in> set (workflows db)" "w_current_version_id w = Some v"
  shows "(v, w_id w) \<in> version_owners db"
proof -
  have "(v, w_id w) \<in> current_versions db" unfolding current_versions_def using assms(2,3) by auto
  then show ?thesis using assms(1) by (auto simp: tenancy_def)
qed

lemma version_of_run: "tenancy db \<Longrightarrow> r \<in> set (runs db) \<Longrightarrow> (r_version_id r, r_workflow_id r) \<in> version_owners db"
  by (simp add: tenancy_def image_subset_iff)

lemma filter_map_if:
  assumes "\<And>x. x \<in> set xs \<Longrightarrow> P x \<Longrightarrow> \<not> Q x \<and> \<not> Q (f x)"
  shows "filter Q (map (\<lambda>x. if P x then f x else x) xs) = filter Q xs"
  using assms by (induction xs) auto

lemma image_map_keep:
  assumes "\<And>x. g (f x) = g x"
  shows "g ` set (map (\<lambda>x. if P x then f x else x) xs) = g ` set xs"
  using assms unfolding set_map image_image by (intro image_cong) auto

lemma map_keep: "(\<And>x. g (f x) = g x) \<Longrightarrow> map g (map (\<lambda>x. if P x then f x else x) xs) = map g xs"
  by simp

section \<open>Statements on workflows and versions\<close>

lemma within_insert_workflow:
  assumes T: "tenancy db" and ins: "insert_workflow w db = Inr db'"
    and ws: "w_workspace_id w = ws" "w_current_version_id w = None"
  shows "within ws db db' \<and> (w_id w, ws) \<in> flow_owners db'"
proof -
  have fresh: "w_id w \<notin> w_id ` set (workflows db)" and db': "db' = db\<lparr>workflows := workflows db @ [w]\<rparr>"
    using ins by (auto simp: insert_workflow_def split: if_splits)
  have own: "flow_owners db' = insert (w_id w, ws) (flow_owners db)" by (auto simp: flow_owners_def db' ws)
  have "v_workflow_id v \<noteq> w_id w" if "v \<in> set (versions db)" for v
    using flow_of_version [OF T that] fresh by (force simp: flow_owners_def)
  then have "filter (\<lambda>v. (v_workflow_id v, ws) \<notin> flow_owners db') (versions db) =
      filter (\<lambda>v. (v_workflow_id v, ws) \<notin> flow_owners db) (versions db)"
    by (intro filter_cong) (auto simp: own)
  then have "others ws db' = others ws db" by (simp add: others_def db' ws)
  moreover have o: "run_owners db' = run_owners db" "task_owners db' = task_owners db" "version_owners db' = version_owners db"
    by (simp_all add: owner_defs db')
  have c: "current_versions db' = current_versions db" by (auto simp: current_versions_def db' ws)
  have "tenancy db'"
    using T fresh unfolding tenancy_def own o c by (simp add: db' subset_insertI2)
  ultimately show ?thesis by (simp add: within_def own)
qed

lemma within_insert_version:
  assumes T: "tenancy db" and ins: "insert_version v db = Inr db'" and own: "(v_workflow_id v, ws) \<in> flow_owners db"
  shows "within ws db db' \<and> flow_owners db' = flow_owners db \<and> (v_id v, v_workflow_id v) \<in> version_owners db'"
proof -
  have db': "db' = db\<lparr>versions := versions db @ [v]\<rparr>" using ins by (auto simp: insert_version_def split: if_splits)
  have fresh: "v_id v \<notin> v_id ` set (versions db)" using ins by (auto simp: insert_version_def split: if_splits)
  have o: "flow_owners db' = flow_owners db" "run_owners db' = run_owners db" "task_owners db' = task_owners db"
    "version_owners db' = insert (v_id v, v_workflow_id v) (version_owners db)" "current_versions db' = current_versions db"
    by (simp_all add: owner_defs db')
  have "v_workflow_id v \<in> fst ` flow_owners db" using own by force
  then have "tenancy db'" using T fresh unfolding tenancy_def o by (simp add: db' subset_insertI2)
  moreover have "others ws db' = others ws db" unfolding others_def o using own by (simp add: db')
  ultimately show ?thesis by (simp add: within_def o)
qed

lemma within_update_workflows:
  assumes T: "tenancy db" and P: "\<And>w. w \<in> set (workflows db) \<Longrightarrow> P w \<Longrightarrow> w_workspace_id w = ws"
    and f: "\<And>w. w_id (f w) = w_id w" "\<And>w. w_workspace_id (f w) = w_workspace_id w"
    and cur: "\<And>w v. w \<in> set (workflows db) \<Longrightarrow> P w \<Longrightarrow> w_current_version_id (f w) = Some v \<Longrightarrow> (v, w_id w) \<in> version_owners db"
  shows "within ws db (update_workflows P f db)"
proof -
  let ?db' = "update_workflows P f db"
  have o: "flow_owners ?db' = flow_owners db" "run_owners ?db' = run_owners db" "task_owners ?db' = task_owners db"
    "version_owners ?db' = version_owners db"
    using image_map_keep [of "\<lambda>w. (w_id w, w_workspace_id w)" f P "workflows db"] f
    by (simp_all add: owner_defs update_workflows_def)
  have "current_versions ?db' \<subseteq> version_owners db"
  proof
    fix p assume "p \<in> current_versions ?db'"
    then obtain w v where w: "w \<in> set (workflows db)" "p = (v, w_id w)" "w_current_version_id (if P w then f w else w) = Some v"
      by (auto simp: current_versions_def update_workflows_def f)
    moreover have "(v, w_id w) \<in> version_owners db" if "\<not> P w"
      using current_version_owned [OF T w(1)] w(3) that by simp
    ultimately show "p \<in> version_owners db" using cur by (cases "P w") auto
  qed
  moreover
  have "map w_id (workflows ?db') = map w_id (workflows db)" by (simp add: update_workflows_def f)
  ultimately have "tenancy ?db'" using T unfolding tenancy_def o by (simp add: update_workflows_def del: map_map)
  moreover have "filter (\<lambda>w. w_workspace_id w \<noteq> ws) (workflows ?db') = filter (\<lambda>w. w_workspace_id w \<noteq> ws) (workflows db)"
    unfolding update_workflows_def by (simp add: filter_map_if P f)
  ultimately show ?thesis unfolding within_def others_def o by (simp add: update_workflows_def)
qed

lemma within_set_current:
  assumes "tenancy db" "(i, ws) \<in> flow_owners db" "\<And>u. v = Some u \<Longrightarrow> (u, i) \<in> version_owners db"
  shows "within ws db (set_current i v db)"
  unfolding set_current_def
proof (rule within_update_workflows [OF assms(1)])
  fix w assume "w \<in> set (workflows db)" "w_id w = i"
  then have "(i, w_workspace_id w) \<in> flow_owners db" by (force simp: flow_owners_def)
  with assms flow_owner show "w_workspace_id w = ws" by blast
qed (use assms(3) in simp_all)

lemma my_workflow_owned: "my_workflow i r db = Some w \<Longrightarrow> (i, workspace r) \<in> flow_owners db"
  by (auto simp: my_workflow_def flow_owners_def dest!: find_SomeD intro!: rev_image_eqI)

text \<open>Deleting rows of one owner, and with them the rows that refer to them.\<close>

lemma filter_owners:
  assumes "distinct (map key xs)"
  shows "(\<lambda>x. (key x, ws x)) ` {x \<in> set xs. \<not> D x} =
     {p \<in> (\<lambda>x. (key x, ws x)) ` set xs. fst p \<notin> key ` {x \<in> set xs. D x}}"
proof (intro set_eqI iffI)
  fix p assume "p \<in> (\<lambda>x. (key x, ws x)) ` {x \<in> set xs. \<not> D x}"
  then obtain x where x: "x \<in> set xs" "\<not> D x" "p = (key x, ws x)" by auto
  have "key x \<noteq> key y" if "y \<in> set xs" "D y" for y
    using x that distinct_map_inj_on_set [OF assms, of x y] by auto
  with x show "p \<in> {p \<in> (\<lambda>x. (key x, ws x)) ` set xs. fst p \<notin> key ` {x \<in> set xs. D x}}" by auto
next
  fix p assume "p \<in> {p \<in> (\<lambda>x. (key x, ws x)) ` set xs. fst p \<notin> key ` {x \<in> set xs. D x}}"
  then show "p \<in> (\<lambda>x. (key x, ws x)) ` {x \<in> set xs. \<not> D x}" by auto
qed

lemma image_fst_keep: "(\<lambda>x. (key x, ws x)) ` {x \<in> S. key x \<noteq> i} = {p \<in> (\<lambda>x. (key x, ws x)) ` S. fst p \<noteq> i}"
  by force

lemma image_filter_keep:
  "f ` set xs \<subseteq> B \<Longrightarrow> (\<And>x. P x \<Longrightarrow> Q (f x)) \<Longrightarrow> f ` set (filter P xs) \<subseteq> {p \<in> B. Q p}"
  by auto

lemma within_delete_workflow:
  assumes T: "tenancy db" and mine: "(i, ws) \<in> flow_owners db"
  shows "within ws db (delete_workflow i db)"
proof -
  define G where "G = r_id ` {r \<in> set (runs db). r_workflow_id r = i}"
  define K where "K = t_id ` {t \<in> set (tasks db). t_run_id t \<in> G}"
  have db': "delete_workflow i db = db\<lparr>workflows := filter (\<lambda>w. w_id w \<noteq> i) (workflows db),
       versions := filter (\<lambda>v. v_workflow_id v \<noteq> i) (versions db),
       triggers := filter (\<lambda>t. tr_workflow_id t \<noteq> i) (triggers db),
       runs := filter (\<lambda>r. r_workflow_id r \<noteq> i) (runs db),
       tasks := filter (\<lambda>t. t_run_id t \<notin> G) (tasks db),
       suspensions := filter (\<lambda>s. su_task_id s \<notin> K) (suspensions db)\<rparr>"
    by (simp add: delete_workflow_def Let_def G_def K_def)
  have fo: "flow_owners (delete_workflow i db) = {p \<in> flow_owners db. fst p \<noteq> i}"
    by (simp add: flow_owners_def db' image_fst_keep)
  have ro: "run_owners (delete_workflow i db) = {p \<in> run_owners db. fst p \<notin> G}"
    using T filter_owners [of r_id "runs db" r_workspace_id "\<lambda>r. r_workflow_id r = i"]
    by (simp add: tenancy_def run_owners_def db' G_def)
  have to: "task_owners (delete_workflow i db) = {p \<in> task_owners db. fst p \<notin> K}"
    using T filter_owners [of t_id "tasks db" t_workspace_id "\<lambda>t. t_run_id t \<in> G"]
    by (simp add: tenancy_def task_owners_def db' K_def)
  have vo: "version_owners (delete_workflow i db) = {p \<in> version_owners db. snd p \<noteq> i}"
    by (force simp: version_owners_def db')
  have co: "current_versions (delete_workflow i db) = {p \<in> current_versions db. snd p \<noteq> i}"
    by (force simp: current_versions_def db')
  note o = fo ro to vo co
  have run_ws: "r_workspace_id r = ws" if "r \<in> set (runs db)" "r_workflow_id r = i" for r
    using flow_of_run [OF T that(1)] that(2) mine flow_owner [OF T] by blast
  then have G_ws: "(g, ws) \<in> run_owners db" if "g \<in> G" for g
    using that by (auto simp: G_def run_owners_def image_iff)
  have task_ws: "t_workspace_id t = ws" if "t \<in> set (tasks db)" "t_run_id t \<in> G" for t
    using run_of_task [OF T that(1)] G_ws [OF that(2)] run_owner [OF T] by blast
  then have K_ws: "(k, ws) \<in> task_owners db" if "k \<in> K" for k
    using that by (auto simp: K_def task_owners_def image_iff)
  have sus_ws: "su_workspace_id s = ws" if "s \<in> set (suspensions db)" "su_task_id s \<in> K" for s
    using task_of_suspension [OF T that(1)] K_ws [OF that(2)] task_owner [OF T] by blast
  have flow_ws: "w_workspace_id w = ws" if "w \<in> set (workflows db)" "w_id w = i" for w
    using that mine flow_owner [OF T, of i "w_workspace_id w" ws] by (auto simp: flow_owners_def)
  have trig_ws: "tr_workspace_id t = ws" if "t \<in> set (triggers db)" "tr_workflow_id t = i" for t
    using flow_of_trigger [OF T that(1)] that(2) mine flow_owner [OF T] by blast
  have "others ws (delete_workflow i db) = others ws db"
    unfolding others_def prod.inject o
    by (intro conjI; simp add: db'; intro filter_cong refl; use flow_ws trig_ws run_ws task_ws sus_ws mine in blast)
  moreover have "tenancy (delete_workflow i db)"
    unfolding tenancy_def o
  proof (intro conjI)
    have "fst ` {p \<in> flow_owners db. fst p \<noteq> i} = {f \<in> fst ` flow_owners db. f \<noteq> i}" by auto
    then show "v_workflow_id ` set (versions (delete_workflow i db)) \<subseteq> fst ` {p \<in> flow_owners db. fst p \<noteq> i}"
      using T image_filter_keep [of v_workflow_id "versions db"] by (simp add: db' tenancy_def)
    show "{p \<in> current_versions db. snd p \<noteq> i} \<subseteq> {p \<in> version_owners db. snd p \<noteq> i}"
      using T by (auto simp: tenancy_def)
  qed (use T in \<open>simp_all add: db' tenancy_def distinct_map_filter\<close>, (use T in \<open>auto simp: tenancy_def\<close>)+)
  ultimately show ?thesis by (simp add: within_def)
qed

section \<open>Statements on triggers, runs and tasks\<close>

lemma within_triggers:
  assumes T: "tenancy db" and ts: "filter (\<lambda>t. tr_workspace_id t \<noteq> ws) ts = filter (\<lambda>t. tr_workspace_id t \<noteq> ws) (triggers db)"
    and own: "\<And>t. t \<in> set ts \<Longrightarrow> (tr_workflow_id t, tr_workspace_id t) \<in> flow_owners db"
  shows "within ws db (db\<lparr>triggers := ts\<rparr>)"
proof -
  have o: "flow_owners (db\<lparr>triggers := ts\<rparr>) = flow_owners db" "run_owners (db\<lparr>triggers := ts\<rparr>) = run_owners db"
    "task_owners (db\<lparr>triggers := ts\<rparr>) = task_owners db"
    "version_owners (db\<lparr>triggers := ts\<rparr>) = version_owners db" "current_versions (db\<lparr>triggers := ts\<rparr>) = current_versions db"
    by (simp_all add: owner_defs)
  have "(\<lambda>t. (tr_workflow_id t, tr_workspace_id t)) ` set ts \<subseteq> flow_owners db" using own by auto
  then show ?thesis using T ts unfolding within_def others_def tenancy_def o by simp
qed

lemma tenancy_update_runs:
  assumes T: "tenancy db"
    and f: "\<And>r. r_id (f r) = r_id r" "\<And>r. r_workspace_id (f r) = r_workspace_id r" "\<And>r. r_workflow_id (f r) = r_workflow_id r"
      "\<And>r. r_version_id (f r) = r_version_id r"
  shows "tenancy (update_runs P f db) \<and> flow_owners (update_runs P f db) = flow_owners db"
proof -
  let ?db' = "update_runs P f db"
  have o: "flow_owners ?db' = flow_owners db" "run_owners ?db' = run_owners db" "task_owners ?db' = task_owners db"
    "version_owners ?db' = version_owners db" "current_versions ?db' = current_versions db"
    using image_map_keep [of "\<lambda>r. (r_id r, r_workspace_id r)" f P "runs db"] f
    by (simp_all add: owner_defs update_runs_def)
  have "map r_id (runs ?db') = map r_id (runs db)" by (simp add: update_runs_def f)
  moreover have "(\<lambda>r. (r_workflow_id r, r_workspace_id r)) ` set (runs ?db') = (\<lambda>r. (r_workflow_id r, r_workspace_id r)) ` set (runs db)"
    unfolding update_runs_def using image_map_keep [of "\<lambda>r. (r_workflow_id r, r_workspace_id r)" f P "runs db"] f by simp
  moreover have "(\<lambda>r. (r_version_id r, r_workflow_id r)) ` set (runs ?db') = (\<lambda>r. (r_version_id r, r_workflow_id r)) ` set (runs db)"
    unfolding update_runs_def using image_map_keep [of "\<lambda>r. (r_version_id r, r_workflow_id r)" f P "runs db"] f by simp
  ultimately have "tenancy ?db'" using T unfolding tenancy_def o by (simp add: update_runs_def del: map_map set_map)
  with o show ?thesis by simp
qed

lemma within_update_runs:
  assumes T: "tenancy db" and P: "\<And>r. r \<in> set (runs db) \<Longrightarrow> P r \<Longrightarrow> r_workspace_id r = ws"
    and f: "\<And>r. r_id (f r) = r_id r" "\<And>r. r_workspace_id (f r) = r_workspace_id r" "\<And>r. r_workflow_id (f r) = r_workflow_id r"
      "\<And>r. r_version_id (f r) = r_version_id r"
  shows "within ws db (update_runs P f db)"
proof -
  have t: "tenancy (update_runs P f db)" "flow_owners (update_runs P f db) = flow_owners db"
    using tenancy_update_runs [OF T, of f P] f by simp_all
  have "filter (\<lambda>r. r_workspace_id r \<noteq> ws) (runs (update_runs P f db)) = filter (\<lambda>r. r_workspace_id r \<noteq> ws) (runs db)"
    unfolding update_runs_def by (simp add: filter_map_if P f)
  with t show ?thesis unfolding within_def others_def t(2) by (simp add: update_runs_def)
qed

lemma tenancy_update_tasks:
  assumes T: "tenancy db"
    and f: "\<And>t. t_id (f t) = t_id t" "\<And>t. t_workspace_id (f t) = t_workspace_id t" "\<And>t. t_run_id (f t) = t_run_id t"
  shows "tenancy (update_tasks P f db) \<and> flow_owners (update_tasks P f db) = flow_owners db"
proof -
  let ?db' = "update_tasks P f db"
  have o: "flow_owners ?db' = flow_owners db" "run_owners ?db' = run_owners db" "task_owners ?db' = task_owners db"
    "version_owners ?db' = version_owners db" "current_versions ?db' = current_versions db"
    using image_map_keep [of "\<lambda>t. (t_id t, t_workspace_id t)" f P "tasks db"] f
    by (simp_all add: owner_defs update_tasks_def)
  have "map t_id (tasks ?db') = map t_id (tasks db)" by (simp add: update_tasks_def f)
  moreover have "(\<lambda>t. (t_run_id t, t_workspace_id t)) ` set (tasks ?db') = (\<lambda>t. (t_run_id t, t_workspace_id t)) ` set (tasks db)"
    unfolding update_tasks_def using image_map_keep [of "\<lambda>t. (t_run_id t, t_workspace_id t)" f P "tasks db"] f by simp
  ultimately have "tenancy ?db'" using T unfolding tenancy_def o by (simp add: update_tasks_def del: map_map set_map)
  with o show ?thesis by simp
qed

lemma within_update_tasks:
  assumes T: "tenancy db" and P: "\<And>t. t \<in> set (tasks db) \<Longrightarrow> P t \<Longrightarrow> t_workspace_id t = ws"
    and f: "\<And>t. t_id (f t) = t_id t" "\<And>t. t_workspace_id (f t) = t_workspace_id t" "\<And>t. t_run_id (f t) = t_run_id t"
  shows "within ws db (update_tasks P f db)"
proof -
  have t: "tenancy (update_tasks P f db)" "flow_owners (update_tasks P f db) = flow_owners db"
    using tenancy_update_tasks [OF T, of f P] f by simp_all
  have "filter (\<lambda>t. t_workspace_id t \<noteq> ws) (tasks (update_tasks P f db)) = filter (\<lambda>t. t_workspace_id t \<noteq> ws) (tasks db)"
    unfolding update_tasks_def by (simp add: filter_map_if P f)
  with t show ?thesis unfolding within_def others_def t(2) by (simp add: update_tasks_def)
qed

lemma within_insert_run:
  assumes T: "tenancy db" and ins: "insert_run r db = Inr db'" and own: "(r_workflow_id r, ws) \<in> flow_owners db" "r_workspace_id r = ws"
      "(r_version_id r, r_workflow_id r) \<in> version_owners db"
  shows "within ws db db'"
proof -
  have fresh: "r_id r \<notin> r_id ` set (runs db)" and db': "db' = db\<lparr>runs := runs db @ [r]\<rparr>"
    using ins by (auto simp: insert_run_def split: if_splits)
  have o: "flow_owners db' = flow_owners db" "run_owners db' = insert (r_id r, ws) (run_owners db)" "task_owners db' = task_owners db"
    "version_owners db' = version_owners db" "current_versions db' = current_versions db"
    by (auto simp: owner_defs db' own)
  have "tenancy db'" using T fresh own unfolding tenancy_def o by (simp add: db' subset_insertI2)
  moreover have "others ws db' = others ws db" unfolding others_def o by (simp add: db' own)
  ultimately show ?thesis by (simp add: within_def)
qed

lemma within_insert_task:
  assumes T: "tenancy db" and ins: "insert_task t db = Inr db'" and own: "(t_run_id t, ws) \<in> run_owners db" "t_workspace_id t = ws"
  shows "within ws db db' \<and> run_owners db' = run_owners db"
proof -
  have fresh: "t_id t \<notin> t_id ` set (tasks db)" and db': "db' = db\<lparr>tasks := tasks db @ [t]\<rparr>"
    using ins by (auto simp: insert_task_def split: if_splits)
  have o: "flow_owners db' = flow_owners db" "run_owners db' = run_owners db" "task_owners db' = insert (t_id t, ws) (task_owners db)"
    "version_owners db' = version_owners db" "current_versions db' = current_versions db"
    by (auto simp: owner_defs db' own)
  have "tenancy db'" using T fresh own unfolding tenancy_def o by (simp add: db' subset_insertI2)
  moreover have "others ws db' = others ws db" unfolding others_def o by (simp add: db' own)
  ultimately show ?thesis by (simp add: within_def o)
qed

lemma within_insert_attempt:
  assumes T: "tenancy db" and ins: "insert_attempt X now rid ws k a at db = Inr db'" and own: "(rid, ws) \<in> run_owners db"
  shows "within ws db db' \<and> run_owners db' = run_owners db"
  using ins
proof (rule insert_attempt_Inr)
  fix t db1 assume t: "insert_task t db = Inr db1" "db' = InsertTx (ExecuteTaskArgs (t_id t)) at db1" "t_run_id t = rid" "t_workspace_id t = ws"
  then have "within ws db db1" "run_owners db1 = run_owners db" using within_insert_task [OF T t(1)] own by auto
  then show ?thesis using within_jobs by (simp add: t(2) run_owners_def store_simps)
qed

lemma within_attempts:
  assumes "tenancy db" "(rid, ws) \<in> run_owners db"
    "rfold (\<lambda>db (k, a). insert_attempt X now rid ws k (a + 1) None db) db ks = Inr db'"
  shows "within ws db db'"
  using assms
proof (induction ks arbitrary: db)
  case Nil then show ?case by (simp add: within_refl)
next
  case (Cons p ks)
  obtain k a where p: "p = (k, a)" by (cases p)
  obtain db1 where 1: "insert_attempt X now rid ws k (a + 1) None db = Inr db1"
      and rest: "rfold (\<lambda>db (k, a). insert_attempt X now rid ws k (a + 1) None db) db1 ks = Inr db'"
    using Cons.prems(3) by (auto simp: p rbind_Inr_iff)
  have "within ws db db1" "(rid, ws) \<in> run_owners db1"
    using within_insert_attempt [OF Cons.prems(1) 1 Cons.prems(2)] Cons.prems(2) by auto
  with Cons.IH [OF _ _ rest] show ?case by (blast intro: within_trans within_tenancy)
qed

section \<open>Operations of the engine\<close>

lemma select_version_owned:
  assumes "tenancy db" "select_version db ws i = Inr v"
  shows "(i, ws) \<in> flow_owners db \<and> (v, i) \<in> version_owners db"
proof -
  obtain w where w: "w \<in> set (workflows db)" "w_id w = i" "w_workspace_id w = ws" "w_current_version_id w = Some v"
    using assms(2) by (auto simp: select_version_def split: option.splits dest!: find_SomeD)
  with current_version_owned [OF assms(1) w(1) w(4)] show ?thesis by (auto simp: flow_owners_def)
qed

lemma within_StartRunOpts:
  assumes T: "tenancy db" and run: "StartRunOpts X now ws i input opts db = Inr (rid, created, db')"
  shows "within ws db db'"
  using run
proof (cases rule: StartRunOpts_Inr)
  case (created r db1)
  have own: "(r_workflow_id r, ws) \<in> flow_owners db" "(r_version_id r, r_workflow_id r) \<in> version_owners db"
    using select_version_owned [OF T created(8)] by (simp_all add: created(6))
  show ?thesis
    unfolding created(4) by (rule within_jobs, rule within_insert_run [OF T created(2) own(1) created(5) own(2)])
next
  case (replayed r)
  then show ?thesis by (simp add: within_refl T)
qed

lemma run_for_update_owned: "run_for_update db ws rid = Inr r \<Longrightarrow> (rid, ws) \<in> run_owners db"
  by (auto simp: run_owners_def image_iff dest!: run_for_update_Inr)

lemma within_CancelRun:
  assumes T: "tenancy db" and run: "CancelRun now ws rid db = Inr db'"
  shows "within ws db db'"
proof -
  let ?db1 = "update_runs (\<lambda>r. r_id r = rid) (\<lambda>r. r\<lparr>r_status := RCanceled, r_finished_at := Some now\<rparr>) db"
  obtain r where r: "run_for_update db ws rid = Inr r"
      and db': "db' = update_tasks (\<lambda>t. t_run_id t = rid \<and> t_status t \<in> {TQueued, TRunning, TSuspended}) (cancel_task now) ?db1"
    using run by (auto simp: CancelRun_def rbind_Inr_iff split: if_splits)
  note own = run_for_update_owned [OF r]
  have 1: "within ws db ?db1"
  proof (rule within_update_runs [OF T])
    fix q assume "q \<in> set (runs db)" "r_id q = rid"
    then have "(rid, r_workspace_id q) \<in> run_owners db" by (auto simp: run_owners_def)
    with own run_owner [OF T] show "r_workspace_id q = ws" by blast
  qed simp_all
  moreover have "within ws ?db1 db'" unfolding db'
  proof (rule within_update_tasks [OF within_tenancy [OF 1]])
    fix t assume "t \<in> set (tasks ?db1)" "t_run_id t = rid \<and> t_status t \<in> {TQueued, TRunning, TSuspended}"
    then have "(rid, t_workspace_id t) \<in> run_owners db" using run_of_task [OF T, of t] by (auto simp: store_simps)
    with own run_owner [OF T] show "t_workspace_id t = ws" by blast
  qed (simp_all add: cancel_task_def)
  ultimately show ?thesis by (rule within_trans)
qed

lemma within_RetryRun:
  assumes T: "tenancy db" and run: "RetryRun X now ws rid db = Inr db'"
  shows "within ws db db'"
proof -
  let ?db1 = "update_runs (\<lambda>r. r_id r = rid) (\<lambda>r. r\<lparr>r_status := RRunning, r_finished_at := None, r_error := None\<rparr>) db"
  obtain r db2 where r: "run_for_update db ws rid = Inr r"
      and loop: "rfold (\<lambda>db (k, a). insert_attempt X now rid ws k (a + 1) None db) ?db1 (redos db rid) = Inr db2"
      and db': "db' = InsertTx (AdvanceRunArgs rid) None db2"
    using run by (auto simp: RetryRun_def rbind_Inr_iff split: if_splits)
  note own = run_for_update_owned [OF r]
  have 1: "within ws db ?db1"
  proof (rule within_update_runs [OF T])
    fix q assume "q \<in> set (runs db)" "r_id q = rid"
    then have "(rid, r_workspace_id q) \<in> run_owners db" by (auto simp: run_owners_def)
    with own run_owner [OF T] show "r_workspace_id q = ws" by blast
  qed simp_all
  have "run_owners ?db1 = run_owners db"
    unfolding run_owners_def update_runs_def
    using image_map_keep [of "\<lambda>r. (r_id r, r_workspace_id r)" _ "\<lambda>r. r_id r = rid" "runs db"] by simp
  with own have "within ws ?db1 db2" by (intro within_attempts [OF within_tenancy [OF 1] _ loop]) simp
  with 1 show ?thesis unfolding db' by (blast intro: within_jobs within_trans)
qed

section \<open>Routes that write\<close>

locale tenant_route =
  fixes h :: db_handler
  assumes stays: "tenancy db \<Longrightarrow> within (workspace r) db (snd (h r db))"
begin

lemma keeps_tenancy: "tenancy db \<Longrightarrow> tenancy (snd (h r db))"
  using stays by (rule within_tenancy)

end

lemma within_new_workflow:
  assumes w: "insert_workflow w db = Inr db1" and v: "insert_version v db1 = Inr db2" and T: "tenancy db"
    and f: "w_workspace_id w = ws" "w_current_version_id w = None" "v_workflow_id v = w_id w" "i = w_id w" "u = v_id v"
  shows "within ws db (set_current i (Some u) db2)"
proof -
  note 1 = within_insert_workflow [OF T w f(1,2)]
  then have T1: "tenancy db1" by (blast intro: within_tenancy)
  have 2: "within ws db1 db2" "(i, ws) \<in> flow_owners db2" "(u, i) \<in> version_owners db2"
    using within_insert_version [OF T1 v, of ws] 1 f by auto
  have "within ws db2 (set_current i (Some u) db2)"
    using 2 by (intro within_set_current) (auto intro: within_tenancy)
  with 1 2 show ?thesis by (blast intro: within_trans)
qed

lemma createWorkflow_within:
  assumes T: "tenancy db" shows "within (workspace r) db (snd (createWorkflow X jsonb_in Has r db))"
  unfolding createWorkflow_def Let_def
  by (auto simp: within_refl T split: option.splits sum.splits elim!: within_new_workflow)

lemma updateWorkflow_within:
  assumes T: "tenancy db" shows "within (workspace r) db (snd (updateWorkflow X A r db))"
  unfolding updateWorkflow_def Let_def
  by (auto simp: within_refl T split: option.splits
      intro!: within_update_workflows [OF T] current_version_owned [OF T])

lemma deleteWorkflow_within:
  assumes T: "tenancy db" shows "within (workspace r) db (snd (deleteWorkflow A r db))"
  unfolding deleteWorkflow_def Let_def
  by (auto simp: within_refl T split: option.splits intro!: within_delete_workflow [OF T] my_workflow_owned)

lemma version_id_owned: "version_id i n db = Some u \<Longrightarrow> (u, i) \<in> version_owners db"
  by (auto simp: version_id_def version_owners_def image_iff dest!: find_SomeD)

lemma putDefinition_within:
  assumes T: "tenancy db" shows "within (workspace r) db (snd (putDefinition X A jsonb_in Has r db))"
proof -
  have "within (workspace r) db (set_current i (version_id i n db1) db1)"
    if v: "insert_version v db = Inr db1" "my_workflow i r db = Some w" "v_workflow_id v = i" for i n v w db1
  proof -
    note own = my_workflow_owned [OF v(2)]
    from within_insert_version [OF T v(1), of "workspace r"] own v(3)
    have 1: "within (workspace r) db db1" "flow_owners db1 = flow_owners db" by auto
    then have "within (workspace r) db1 (set_current i (version_id i n db1) db1)"
      using own by (intro within_set_current version_id_owned) (auto intro: within_tenancy)
    with 1(1) show ?thesis by (rule within_trans)
  qed
  then show ?thesis
    unfolding putDefinition_def Let_def
    by (auto simp: within_refl T split: option.splits sum.splits)
qed

lemma within_insert_trigger:
  assumes T: "tenancy db" and ins: "insert_trigger t db = Inr db'" and own: "(tr_workflow_id t, ws) \<in> flow_owners db" "tr_workspace_id t = ws"
  shows "within ws db db'"
proof -
  have "db' = db\<lparr>triggers := triggers db @ [t]\<rparr>" using ins by (auto simp: insert_trigger_def split: if_splits)
  then show ?thesis using own flow_of_trigger [OF T] by (auto intro!: within_triggers [OF T])
qed

lemma createTrigger_within:
  assumes T: "tenancy db" shows "within (workspace r) db (snd (createTrigger X A C r db))"
proof -
  have "within (workspace r) db db'"
    if w: "find (\<lambda>w. w_id w = i \<and> w_workspace_id w = workspace r) (workflows db) = Some w"
      and t: "insert_trigger t db = Inr db'" "tr_workflow_id t = i" "tr_workspace_id t = w_workspace_id w" for i w t db'
  proof (rule within_insert_trigger [OF T t(1)])
    show "(tr_workflow_id t, workspace r) \<in> flow_owners db"
      using my_workflow_owned [of i r db w] w t(2) by (simp add: my_workflow_def)
    show "tr_workspace_id t = workspace r" using find_SomeD [OF w] t(3) by simp
  qed
  then show ?thesis
    unfolding createTrigger_def Let_def by (auto simp: within_refl T split: option.splits sum.splits)
qed

lemma within_update_trigger:
  assumes T: "tenancy db" and upd: "update_trigger i ws f db = Inr db'"
    and f: "\<And>t. tr_workspace_id (f t) = tr_workspace_id t" "\<And>t. tr_workflow_id (f t) = tr_workflow_id t"
  shows "within ws db db'"
proof -
  have "db' = db\<lparr>triggers := map (\<lambda>t. if tr_id t = i \<and> tr_workspace_id t = ws then f t else t) (triggers db)\<rparr>"
    using upd by (auto simp: update_trigger_def Let_def split: if_splits)
  moreover have "(tr_workflow_id t, tr_workspace_id t) \<in> flow_owners db"
    if "t \<in> set (map (\<lambda>t. if tr_id t = i \<and> tr_workspace_id t = ws then f t else t) (triggers db))" for t
    using that flow_of_trigger [OF T] f by auto
  moreover have "filter (\<lambda>t. tr_workspace_id t \<noteq> ws)
      (map (\<lambda>t. if tr_id t = i \<and> tr_workspace_id t = ws then f t else t) (triggers db)) =
    filter (\<lambda>t. tr_workspace_id t \<noteq> ws) (triggers db)"
    by (rule filter_map_if) (simp add: f)
  ultimately show ?thesis using within_triggers [OF T] by blast
qed

lemma apply_patch_within: "tenancy db \<Longrightarrow> within (workspace r) db (snd (apply_patch X r i config db))"
  by (auto simp: apply_patch_def within_refl patch_trigger_def split: sum.splits elim!: within_update_trigger)

lemma updateTrigger_within:
  assumes T: "tenancy db" shows "within (workspace r) db (snd (updateTrigger X A C r db))"
  unfolding updateTrigger_def Let_def
  by (auto simp: within_refl apply_patch_within T split: option.splits sum.splits)

lemma deleteTrigger_within:
  assumes T: "tenancy db" shows "within (workspace r) db (snd (deleteTrigger A r db))"
proof -
  have "within (workspace r) db db'" if "delete_trigger i (workspace r) db = Inr (n, db')" for i n db'
  proof -
    have "db' = db\<lparr>triggers := filter (\<lambda>t. \<not> (tr_id t = i \<and> tr_workspace_id t = workspace r)) (triggers db)\<rparr>"
      using that by (auto simp: delete_trigger_def Let_def split: if_splits)
    then show ?thesis
      using flow_of_trigger [OF T] by (simp only:, intro within_triggers [OF T]) (auto simp del: filter_id_conv intro!: filter_cong)
  qed
  then show ?thesis
    unfolding deleteTrigger_def by (auto simp: within_refl T split: option.splits sum.splits)
qed

lemma run_routes_within:
  assumes T: "tenancy db"
  shows "within (workspace r) db (snd (startRun X A r db))" "within (workspace r) db (snd (cancelRun A r db))"
    "within (workspace r) db (snd (retryRun X A r db))"
  unfolding startRun_def cancelRun_def retryRun_def
  by (auto simp: within_refl T split: option.splits sum.splits
      dest: within_StartRunOpts [OF T] within_CancelRun [OF T] within_RetryRun [OF T])

interpretation create_workflow: tenant_route "createWorkflow X jsonb_in Has" for X jsonb_in Has
  by unfold_locales (rule createWorkflow_within)

interpretation update_workflow: tenant_route "updateWorkflow X A" for X A
  by unfold_locales (rule updateWorkflow_within)

interpretation delete_workflow_route: tenant_route "deleteWorkflow A" for A
  by unfold_locales (rule deleteWorkflow_within)

interpretation put_definition: tenant_route "putDefinition X A jsonb_in Has" for X A jsonb_in Has
  by unfold_locales (rule putDefinition_within)

interpretation create_trigger: tenant_route "createTrigger X A C" for X A C
  by unfold_locales (rule createTrigger_within)

interpretation update_trigger_route: tenant_route "updateTrigger X A C" for X A C
  by unfold_locales (rule updateTrigger_within)

interpretation delete_trigger_route: tenant_route "deleteTrigger A" for A
  by unfold_locales (rule deleteTrigger_within)

interpretation start_run: tenant_route "startRun X A" for X A
  by unfold_locales (rule run_routes_within)

interpretation cancel_run: tenant_route "cancelRun A" for A
  by unfold_locales (rule run_routes_within)

interpretation retry_run: tenant_route "retryRun X A" for X A
  by unfold_locales (rule run_routes_within)

end
