(* ===== verification/Isolation.thy ===== *)
theory Isolation
  imports Tenancy
begin

text \<open>
  What a workspace sees of the store, and that no other workspace can change it: a change within one
  workspace is invisible from every other one, the answer of a read route is computed from the view
  of the caller, and any sequence of foreign requests to the tables of \<^verbatim>\<open>Routes\<close>
  (\<^verbatim>\<open>internal/api/api.go\<close>) and \<^verbatim>\<open>triggerRoutes\<close> (\<^verbatim>\<open>triggers.go\<close>) leaves the view as it is.
\<close>

section \<open>What a workspace sees\<close>

definition view :: "uuid \<Rightarrow> db \<Rightarrow>
    workflow_row list \<times> version_row list \<times> trigger_row list \<times> run_row list \<times> task_row list \<times> suspension_row list" where
  "view ws db =
     (filter (\<lambda>w. w_workspace_id w = ws) (workflows db),
      filter (\<lambda>v. (v_workflow_id v, ws) \<in> flow_owners db) (versions db),
      filter (\<lambda>t. tr_workspace_id t = ws) (triggers db),
      filter (\<lambda>r. r_workspace_id r = ws) (runs db),
      filter (\<lambda>t. t_workspace_id t = ws) (tasks db),
      filter (\<lambda>s. su_workspace_id s = ws) (suspensions db))"

lemma flow_owners_of_others:
  assumes "filter (\<lambda>w. w_workspace_id w \<noteq> a) (workflows db') = filter (\<lambda>w. w_workspace_id w \<noteq> a) (workflows db)" "b \<noteq> a"
  shows "(i, b) \<in> flow_owners db' \<longleftrightarrow> (i, b) \<in> flow_owners db"
proof -
  have "(i, b) \<in> flow_owners d \<longleftrightarrow> (\<exists>w \<in> set (filter (\<lambda>w. w_workspace_id w \<noteq> a) (workflows d)). w_id w = i \<and> w_workspace_id w = b)" for d
    using assms(2) by (auto simp: flow_owners_def image_iff)
  then show ?thesis by (simp only: assms(1))
qed

lemma filter_in_filter:
  assumes "\<And>x. x \<in> set xs \<Longrightarrow> P x \<Longrightarrow> Q x"
  shows "filter P xs = filter P (filter Q xs)"
  using assms by (induction xs) auto

lemma filter_within: "filter Q xs = filter Q ys \<Longrightarrow> (\<And>x. P x \<Longrightarrow> Q x) \<Longrightarrow> filter P xs = filter P ys"
  using filter_in_filter [of xs P Q] filter_in_filter [of ys P Q] by simp

text \<open>A change within one workspace is invisible from every other one.\<close>

lemma within_view:
  assumes w: "within a db db'" and T: "tenancy db" and b: "b \<noteq> a"
  shows "view b db' = view b db"
proof -
  have T': "tenancy db'" using w by (rule within_tenancy)
  have o: "others a db' = others a db" using w by (simp add: within_def)
  then have flows: "(i, b) \<in> flow_owners db' \<longleftrightarrow> (i, b) \<in> flow_owners db" for i
    using b by (intro flow_owners_of_others) (simp_all add: others_def)
  have "filter (\<lambda>v. (v_workflow_id v, b) \<in> flow_owners d) (versions d) =
      filter (\<lambda>v. (v_workflow_id v, b) \<in> flow_owners db) (filter (\<lambda>v. (v_workflow_id v, a) \<notin> flow_owners d) (versions d))"
    if "tenancy d" "\<And>i. (i, b) \<in> flow_owners d \<longleftrightarrow> (i, b) \<in> flow_owners db" for d
    using flow_owner [OF that(1)] that(2) b by (auto intro!: filter_cong)
  from this [OF T' flows] this [OF T refl]
  have "filter (\<lambda>v. (v_workflow_id v, b) \<in> flow_owners db') (versions db') =
      filter (\<lambda>v. (v_workflow_id v, b) \<in> flow_owners db) (versions db)"
    using o by (simp add: others_def del: filter_filter)
  then show ?thesis
    using o b unfolding view_def others_def prod.inject by (auto intro: filter_within)
qed

text \<open>Queries answered from the view.\<close>

lemma find_filter: "find (\<lambda>x. P x \<and> Q x) xs = find P (filter Q xs)"
  by (induction xs) auto

lemma find_in_filter:
  assumes "\<And>x. x \<in> set xs \<Longrightarrow> P x \<Longrightarrow> Q x"
  shows "find P xs = find P (filter Q xs)"
  using assms by (induction xs) auto

lemma view_parts:
  assumes "view ws db = view ws db'"
  shows "filter (\<lambda>w. w_workspace_id w = ws) (workflows db) = filter (\<lambda>w. w_workspace_id w = ws) (workflows db')"
    "filter (\<lambda>v. (v_workflow_id v, ws) \<in> flow_owners db) (versions db) = filter (\<lambda>v. (v_workflow_id v, ws) \<in> flow_owners db') (versions db')"
    "filter (\<lambda>t. tr_workspace_id t = ws) (triggers db) = filter (\<lambda>t. tr_workspace_id t = ws) (triggers db')"
    "filter (\<lambda>r. r_workspace_id r = ws) (runs db) = filter (\<lambda>r. r_workspace_id r = ws) (runs db')"
    "filter (\<lambda>t. t_workspace_id t = ws) (tasks db) = filter (\<lambda>t. t_workspace_id t = ws) (tasks db')"
  using assms by (simp_all add: view_def)

lemma view_owners:
  assumes "view ws db = view ws db'"
  shows "(i, ws) \<in> flow_owners db \<longleftrightarrow> (i, ws) \<in> flow_owners db'"
proof -
  have "(i, ws) \<in> flow_owners d \<longleftrightarrow> i \<in> w_id ` set (filter (\<lambda>w. w_workspace_id w = ws) (workflows d))" for d
    by (auto simp: flow_owners_def)
  then show ?thesis by (simp only: view_parts(1) [OF assms])
qed

lemma view_run_owners:
  assumes "view ws db = view ws db'"
  shows "(i, ws) \<in> run_owners db \<longleftrightarrow> (i, ws) \<in> run_owners db'"
proof -
  have "(i, ws) \<in> run_owners d \<longleftrightarrow> i \<in> r_id ` set (filter (\<lambda>r. r_workspace_id r = ws) (runs d))" for d
    by (auto simp: run_owners_def)
  then show ?thesis by (simp only: view_parts(4) [OF assms])
qed

lemma workflow_runs_own:
  assumes T: "tenancy db" and i: "(i, ws) \<in> flow_owners db"
  shows "workflow_runs i db = filter (\<lambda>r. r_workflow_id r = i) (filter (\<lambda>r. r_workspace_id r = ws) (runs db))"
  unfolding workflow_runs_def
  using flow_of_run [OF T] flow_owner [OF T i] by (intro filter_in_filter) blast

lemma run_tasks_own:
  assumes T: "tenancy db" and i: "(i, ws) \<in> run_owners db"
  shows "run_tasks db i = filter (\<lambda>t. t_run_id t = i) (filter (\<lambda>t. t_workspace_id t = ws) (tasks db))"
  unfolding run_tasks_def
  using run_of_task [OF T] run_owner [OF T i] by (intro filter_in_filter) blast

lemma versions_own:
  assumes i: "(i, ws) \<in> flow_owners db"
  shows "filter (\<lambda>v. v_workflow_id v = i \<and> P v) (versions db) =
    filter (\<lambda>v. v_workflow_id v = i \<and> P v) (filter (\<lambda>v. (v_workflow_id v, ws) \<in> flow_owners db) (versions db))"
  using i by (intro filter_in_filter) auto

lemma find_versions_own:
  assumes i: "(i, ws) \<in> flow_owners db"
  shows "find (\<lambda>v. v_workflow_id v = i \<and> P v) (versions db) =
    find (\<lambda>v. v_workflow_id v = i \<and> P v) (filter (\<lambda>v. (v_workflow_id v, ws) \<in> flow_owners db) (versions db))"
  using i by (intro find_in_filter) auto

lemma find_version_own:
  assumes T: "tenancy db" and i: "(i, ws) \<in> flow_owners db" and u: "(u, i) \<in> version_owners db"
  shows "find_version db u = find (\<lambda>v. v_id v = u) (filter (\<lambda>v. (v_workflow_id v, ws) \<in> flow_owners db) (versions db))"
  unfolding find_version_def
proof (rule find_in_filter)
  fix v assume "v \<in> set (versions db)" "v_id v = u"
  then have "(u, v_workflow_id v) \<in> version_owners db" by (auto simp: version_owners_def)
  moreover have "distinct (map v_id (versions db))" using T by (simp add: tenancy_def)
  ultimately have "v_workflow_id v = i" using u unfolding version_owners_def by (blast intro: one_owner)
  with i show "(v_workflow_id v, ws) \<in> flow_owners db" by simp
qed

section \<open>Routes that read\<close>

definition same_view :: "uuid \<Rightarrow> db \<Rightarrow> db \<Rightarrow> bool" where
  "same_view ws db db' \<longleftrightarrow> tenancy db \<and> tenancy db' \<and> view ws db = view ws db'"

lemma same_viewD:
  assumes "same_view ws db db'"
  shows "tenancy db" "tenancy db'" "view ws db = view ws db'"
    "filter (\<lambda>w. w_workspace_id w = ws) (workflows db) = filter (\<lambda>w. w_workspace_id w = ws) (workflows db')"
    "filter (\<lambda>t. tr_workspace_id t = ws) (triggers db) = filter (\<lambda>t. tr_workspace_id t = ws) (triggers db')"
    "filter (\<lambda>r. r_workspace_id r = ws) (runs db) = filter (\<lambda>r. r_workspace_id r = ws) (runs db')"
  using assms unfolding same_view_def by (blast intro: view_parts)+

lemma same_my_workflow: "same_view (workspace r) db db' \<Longrightarrow> my_workflow i r db = my_workflow i r db'"
  unfolding my_workflow_def find_filter by (simp only: same_viewD(4))

lemma same_find_version:
  assumes s: "same_view ws db db'" and i: "(i, ws) \<in> flow_owners db" and u: "(u, i) \<in> version_owners db"
    and u': "(u, i) \<in> version_owners db'"
  shows "find_version db u = find_version db' u"
proof -
  have T: "tenancy db" "tenancy db'" and v: "view ws db = view ws db'" using same_viewD [OF s] by blast+
  with i have i': "(i, ws) \<in> flow_owners db'" using view_owners by blast
  show ?thesis
    unfolding find_version_own [OF T(1) i u] find_version_own [OF T(2) i' u'] by (simp only: view_parts(2) [OF v])
qed

lemma same_workflow:
  assumes s: "same_view ws db db'" and w: "w \<in> set (workflows db)" "w_workspace_id w = ws"
  shows "w \<in> set (workflows db')"
proof -
  have "w \<in> set (filter (\<lambda>w. w_workspace_id w = ws) (workflows db))" using w by simp
  then show ?thesis unfolding same_viewD(4) [OF s] by simp
qed

lemma same_run:
  assumes s: "same_view ws db db'" and q: "q \<in> set (runs db)" "r_workspace_id q = ws"
  shows "q \<in> set (runs db')"
proof -
  have "q \<in> set (filter (\<lambda>r. r_workspace_id r = ws) (runs db))" using q by simp
  then show ?thesis unfolding same_viewD(6) [OF s] by simp
qed

lemma same_current_version:
  assumes s: "same_view ws db db'" and w: "w \<in> set (workflows db)" "w_workspace_id w = ws"
  shows "current_version w db = current_version w db'"
proof (cases "w_current_version_id w")
  case None then show ?thesis by (simp add: current_version_def)
next
  case (Some u)
  have T: "tenancy db" "tenancy db'" using s by (simp_all add: same_view_def)
  have "(w_id w, ws) \<in> flow_owners db" using w by (auto simp: flow_owners_def)
  then show ?thesis
    using same_find_version [OF s] current_version_owned [OF T(1) w(1) Some]
      current_version_owned [OF T(2) same_workflow [OF s w] Some]
    by (simp add: current_version_def Some)
qed

lemma same_workflow_runs:
  assumes s: "same_view ws db db'" and i: "(i, ws) \<in> flow_owners db"
  shows "workflow_runs i db = workflow_runs i db'"
proof -
  have T: "tenancy db" "tenancy db'" and v: "view ws db = view ws db'" using same_viewD [OF s] by blast+
  with i have i': "(i, ws) \<in> flow_owners db'" using view_owners by blast
  show ?thesis
    unfolding workflow_runs_own [OF T(1) i] workflow_runs_own [OF T(2) i'] by (simp only: view_parts(4) [OF v])
qed

lemma same_run_tasks:
  assumes s: "same_view ws db db'" and i: "(i, ws) \<in> run_owners db"
  shows "run_tasks db i = run_tasks db' i"
proof -
  have T: "tenancy db" "tenancy db'" and v: "view ws db = view ws db'" using same_viewD [OF s] by blast+
  with i have i': "(i, ws) \<in> run_owners db'" using view_run_owners by blast
  show ?thesis
    unfolding run_tasks_own [OF T(1) i] run_tasks_own [OF T(2) i'] by (simp only: view_parts(5) [OF v])
qed

lemma same_run_version:
  assumes s: "same_view ws db db'" and q: "q \<in> set (runs db)" "r_workspace_id q = ws"
  shows "find_version db (r_version_id q) = find_version db' (r_version_id q)"
proof (rule same_find_version [OF s])
  have T: "tenancy db" "tenancy db'" using s by (simp_all add: same_view_def)
  show "(r_workflow_id q, ws) \<in> flow_owners db" using flow_of_run [OF T(1) q(1)] q(2) by simp
  show "(r_version_id q, r_workflow_id q) \<in> version_owners db" by (rule version_of_run [OF T(1) q(1)])
  show "(r_version_id q, r_workflow_id q) \<in> version_owners db'" by (rule version_of_run [OF T(2) same_run [OF s q]])
qed

locale reading_route =
  fixes h :: db_handler
  assumes reads: "snd (h r db) = db"
    and own_rows: "same_view (workspace r) db db' \<Longrightarrow> fst (h r db) = fst (h r db')"

sublocale reading_route \<subseteq> tenant_route
  by unfold_locales (simp add: reads within_refl)

lemma listWorkflows_own:
  assumes s: "same_view (workspace r) db db'"
  shows "fst (listWorkflows X r db) = fst (listWorkflows X r db')"
proof -
  let ?mine = "\<lambda>db. rev (filter (\<lambda>w. w_workspace_id w = workspace r) (workflows db))"
  have "current_version w db = current_version w db'" "workflow_runs (w_id w) db = workflow_runs (w_id w) db'"
    if "w \<in> set (?mine db)" for w
    using same_current_version [OF s] same_workflow_runs [OF s, of "w_id w"] that by (force simp: flow_owners_def)+
  note rows = this
  show ?thesis
    unfolding listWorkflows_def fst_conv same_viewD(4) [OF s, symmetric]
    by (intro arg_cong [where f = "\<lambda>xs. s_json 200 (JArr xs)"] map_cong refl) (simp only: rows)
qed

interpretation list_workflows: reading_route "listWorkflows X" for X
  by unfold_locales (simp add: listWorkflows_def, rule listWorkflows_own)

lemma getWorkflow_own:
  assumes s: "same_view (workspace r) db db'"
  shows "fst (getWorkflow X A r db) = fst (getWorkflow X A r db')"
proof -
  have "current_version w db = current_version w db'" if "my_workflow i r db = Some w" for i w
    using that by (intro same_current_version [OF s]) (auto simp: my_workflow_def dest: find_SomeD)
  then show ?thesis
    unfolding getWorkflow_def same_my_workflow [OF s, symmetric] by (simp split: option.split)
qed

interpretation get_workflow: reading_route "getWorkflow X A" for X A
  by unfold_locales (simp add: getWorkflow_def split: option.split, rule getWorkflow_own)

lemma my_versions:
  assumes s: "same_view (workspace r) db db'" and w: "my_workflow i r db = Some w"
  shows "filter (\<lambda>v. v_workflow_id v = i) (versions db) = filter (\<lambda>v. v_workflow_id v = i) (versions db')"
    "find (\<lambda>v. v_workflow_id v = i \<and> P v) (versions db) = find (\<lambda>v. v_workflow_id v = i \<and> P v) (versions db')"
proof -
  have i: "(i, workspace r) \<in> flow_owners db" by (rule my_workflow_owned [OF w])
  have i': "(i, workspace r) \<in> flow_owners db'" using i view_owners [OF same_viewD(3) [OF s]] by blast
  note v = view_parts(2) [OF same_viewD(3) [OF s]]
  show "filter (\<lambda>v. v_workflow_id v = i) (versions db) = filter (\<lambda>v. v_workflow_id v = i) (versions db')"
    using versions_own [OF i, of "\<lambda>_. True"] versions_own [OF i', of "\<lambda>_. True"] v by (simp del: filter_filter)
  show "find (\<lambda>v. v_workflow_id v = i \<and> P v) (versions db) = find (\<lambda>v. v_workflow_id v = i \<and> P v) (versions db')"
    using find_versions_own [OF i, of P] find_versions_own [OF i', of P] v by simp
qed

lemma listVersions_own:
  assumes s: "same_view (workspace r) db db'"
  shows "fst (listVersions A r db) = fst (listVersions A r db')"
  unfolding listVersions_def same_my_workflow [OF s, symmetric]
  by (auto split: option.split dest: my_versions [OF s])

interpretation list_versions: reading_route "listVersions A" for A
  by unfold_locales (simp add: listVersions_def split: option.split, rule listVersions_own)

lemma getVersion_own:
  assumes s: "same_view (workspace r) db db'"
  shows "fst (getVersion A r db) = fst (getVersion A r db')"
  unfolding getVersion_def same_my_workflow [OF s, symmetric]
  by (auto split: option.split simp: my_versions(2) [OF s])

interpretation get_version: reading_route "getVersion A" for A
  by unfold_locales (simp add: getVersion_def split: option.split, rule getVersion_own)

lemma listTriggers_own:
  assumes s: "same_view (workspace r) db db'"
  shows "fst (listTriggers X A r db) = fst (listTriggers X A r db')"
proof -
  have "filter (\<lambda>t. tr_workflow_id t = i \<and> (\<exists>w \<in> set (workflows d). w_id w = i \<and> w_workspace_id w = workspace r)) (triggers d) =
      filter (\<lambda>t. tr_workflow_id t = i \<and> (\<exists>w \<in> set (filter (\<lambda>w. w_workspace_id w = workspace r) (workflows d)). w_id w = i))
        (filter (\<lambda>t. tr_workspace_id t = workspace r) (triggers d))"
    if T: "tenancy d" for d i
  proof -
    have "tr_workspace_id t = workspace r"
      if "t \<in> set (triggers d)" "w \<in> set (workflows d)" "w_id w = tr_workflow_id t" "w_workspace_id w = workspace r" for t w
      using owner_of_workflow [OF T flow_of_trigger [OF T that(1)] that(2,3)] that(4) by simp
    then show ?thesis by (auto intro!: filter_cong)
  qed
  note own = this
  show ?thesis
    unfolding listTriggers_def own [OF same_viewD(1) [OF s]] own [OF same_viewD(2) [OF s]] same_viewD(4,5) [OF s]
    by (simp split: option.split)
qed

interpretation list_triggers: reading_route "listTriggers X A" for X A
  by unfold_locales (simp add: listTriggers_def split: option.split, rule listTriggers_own)

lemma run_cursor_own: "same_view (workspace r) db db' \<Longrightarrow> run_cursor A r db = run_cursor A r db'"
  unfolding run_cursor_def find_filter by (simp only: same_viewD(6))

lemma run_summary_own:
  assumes s: "same_view ws db db'" and q: "q \<in> set (runs db)" "r_workspace_id q = ws"
  shows "run_summary X A db q = run_summary X A db' q"
proof -
  have "(r_id q, ws) \<in> run_owners db" using q by (auto simp: run_owners_def)
  then show ?thesis
    by (simp only: run_summary_def error_summary_def same_run_version [OF s q] same_run_tasks [OF s])
qed

lemma listRuns_own:
  assumes s: "same_view (workspace r) db db'"
  shows "fst (listRuns X A r db) = fst (listRuns X A r db')"
proof -
  have page: "page_of_runs (workspace r) i before n db = page_of_runs (workspace r) i before n db'" for i before n
  proof -
    have "filter (\<lambda>q. r_workflow_id q = i \<and> r_workspace_id q = workspace r \<and> P q) (runs db) =
        filter (\<lambda>q. r_workflow_id q = i \<and> r_workspace_id q = workspace r \<and> P q) (runs db')" for P
      by (rule filter_within [OF same_viewD(6) [OF s]]) simp
    then show ?thesis by (simp only: page_of_runs_def)
  qed
  have "run_summary X A db q = run_summary X A db' q" if "q \<in> set (page_of_runs (workspace r) i before n db)" for q i before n
    using that by (intro run_summary_own [OF s]) (auto simp: page_of_runs_def newest_first_def dest!: in_set_takeD)
  then have "map (run_summary X A db) (page_of_runs (workspace r) i before n db) =
      map (run_summary X A db') (page_of_runs (workspace r) i before n db')" for i before n
    unfolding page [symmetric] by (rule map_cong [OF refl])
  then show ?thesis
    unfolding listRuns_def run_cursor_own [OF s] by (simp split: option.split sum.split)
qed

interpretation list_runs: reading_route "listRuns X A" for X A
  by unfold_locales (simp add: listRuns_def split: option.split sum.split, rule listRuns_own)

lemma fetchRun_own:
  assumes s: "same_view ws db db'"
  shows "fetchRun ws i db = fetchRun ws i db'"
proof (cases "find (\<lambda>q. r_id q = i \<and> r_workspace_id q = ws) (runs db)")
  case None
  moreover from None have "find (\<lambda>q. r_id q = i \<and> r_workspace_id q = ws) (runs db') = None"
    unfolding find_filter by (simp only: same_viewD(6) [OF s])
  ultimately show ?thesis by (simp add: fetchRun_def)
next
  case (Some q)
  then have q: "q \<in> set (runs db)" "r_workspace_id q = ws" "r_id q = i" by (auto dest: find_SomeD)
  from Some have Some': "find (\<lambda>q. r_id q = i \<and> r_workspace_id q = ws) (runs db') = Some q"
    unfolding find_filter by (simp only: same_viewD(6) [OF s])
  have "find (\<lambda>w. w_id w = r_workflow_id q) (workflows d) =
      find (\<lambda>w. w_id w = r_workflow_id q) (filter (\<lambda>w. w_workspace_id w = ws) (workflows d))"
    if T: "tenancy d" and own: "(r_workflow_id q, ws) \<in> flow_owners d" for d
    using owner_of_workflow [OF T own] by (intro find_in_filter) simp
  note flows = this
  have "find (\<lambda>w. w_id w = r_workflow_id q) (workflows db) = find (\<lambda>w. w_id w = r_workflow_id q) (workflows db')"
    using flows [OF same_viewD(1) [OF s]] flows [OF same_viewD(2) [OF s]] same_viewD(4) [OF s]
      flow_of_run [OF same_viewD(1) [OF s] q(1)] flow_of_run [OF same_viewD(2) [OF s] same_run [OF s q(1,2)]] q(2) by simp
  moreover have "run_tasks db i = run_tasks db' i"
    using q by (intro same_run_tasks [OF s]) (auto simp: run_owners_def)
  ultimately show ?thesis
    by (simp add: fetchRun_def Some Some' same_run_version [OF s q(1,2)] split: option.split)
qed

lemma getRun_own: "same_view (workspace r) db db' \<Longrightarrow> fst (getRun X A r db) = fst (getRun X A r db')"
  by (simp add: getRun_def fetchRun_own split: option.split sum.split)

interpretation get_run: reading_route "getRun X A" for X A
  by unfold_locales (simp add: getRun_def split: option.split sum.split, rule getRun_own)

section \<open>The routes\<close>

text \<open>The part of \<^verbatim>\<open>Routes\<close> over workflows and runs, in its order, and \<^verbatim>\<open>triggerRoutes\<close>.\<close>

definition workflowRoutes ::
  "externals \<Rightarrow> api_env \<Rightarrow> (json \<Rightarrow> json) \<Rightarrow> (string \<Rightarrow> bool) \<Rightarrow> (string \<times> db_handler) list" where
  "workflowRoutes X A jsonb_in Has =
     [(''GET /v1/workflows'', listWorkflows X),
      (''POST /v1/workflows'', createWorkflow X jsonb_in Has),
      (''GET /v1/workflows/{id}'', getWorkflow X A),
      (''PATCH /v1/workflows/{id}'', updateWorkflow X A),
      (''DELETE /v1/workflows/{id}'', deleteWorkflow A),
      (''PUT /v1/workflows/{id}/definition'', putDefinition X A jsonb_in Has),
      (''GET /v1/workflows/{id}/versions'', listVersions A),
      (''GET /v1/workflows/{id}/versions/{version}'', getVersion A),
      (''POST /v1/workflows/{id}/runs'', startRun X A),
      (''GET /v1/workflows/{id}/runs'', listRuns X A),
      (''GET /v1/runs/{id}'', getRun X A),
      (''POST /v1/runs/{id}/cancel'', cancelRun A),
      (''POST /v1/runs/{id}/retry'', retryRun X A)]"

definition triggerRoutes :: "externals \<Rightarrow> api_env \<Rightarrow> cron_env \<Rightarrow> (string \<times> db_handler) list" where
  "triggerRoutes X A C =
     [(''GET /v1/workflows/{id}/triggers'', listTriggers X A),
      (''POST /v1/workflows/{id}/triggers'', createTrigger X A C),
      (''PATCH /v1/triggers/{id}'', updateTrigger X A C),
      (''DELETE /v1/triggers/{id}'', deleteTrigger A)]"

definition dbRoutes ::
  "externals \<Rightarrow> api_env \<Rightarrow> cron_env \<Rightarrow> (json \<Rightarrow> json) \<Rightarrow> (string \<Rightarrow> bool) \<Rightarrow> (string \<times> db_handler) list" where
  "dbRoutes X A C jsonb_in Has = workflowRoutes X A jsonb_in Has @ triggerRoutes X A C"

lemmas dbRoutes_defs = dbRoutes_def workflowRoutes_def triggerRoutes_def

lemma dbRoutes_within:
  assumes h: "(p, h) \<in> set (dbRoutes X A C jsonb_in Has)" and T: "tenancy db"
  shows "within (workspace r) db (snd (h r db))"
  using h unfolding dbRoutes_defs
  by (auto simp: list_workflows.stays [OF T] create_workflow.stays [OF T] get_workflow.stays [OF T] update_workflow.stays [OF T]
      delete_workflow_route.stays [OF T] put_definition.stays [OF T] list_versions.stays [OF T] get_version.stays [OF T]
      start_run.stays [OF T] list_runs.stays [OF T] get_run.stays [OF T] cancel_run.stays [OF T] retry_run.stays [OF T]
      list_triggers.stays [OF T] create_trigger.stays [OF T] update_trigger_route.stays [OF T] delete_trigger_route.stays [OF T])

lemma dbRoutes_GET:
  assumes h: "(p, h) \<in> set (dbRoutes X A C jsonb_in Has)" and get: "HasPrefix p ''GET ''"
    and s: "same_view (workspace r) db db'"
  shows "fst (h r db) = fst (h r db')"
  using h get unfolding dbRoutes_defs
  by (auto intro: list_workflows.own_rows [OF s] get_workflow.own_rows [OF s] list_versions.own_rows [OF s]
      get_version.own_rows [OF s] list_runs.own_rows [OF s] get_run.own_rows [OF s] list_triggers.own_rows [OF s])

fun serve :: "(db_handler \<times> request) list \<Rightarrow> db \<Rightarrow> db" where
  "serve [] db = db"
| "serve ((h, r) # qs) db = serve qs (snd (h r db))"

lemma serve_view:
  assumes "tenancy db"
    "\<And>h r. (h, r) \<in> set qs \<Longrightarrow> (\<exists>p. (p, h) \<in> set (dbRoutes X A C jsonb_in Has)) \<and> workspace r \<noteq> ws"
  shows "same_view ws (serve qs db) db"
  using assms
proof (induction qs arbitrary: db)
  case Nil then show ?case by (simp add: same_view_def)
next
  case (Cons q qs)
  obtain h r where q: "q = (h, r)" by (cases q)
  then obtain p where p: "(p, h) \<in> set (dbRoutes X A C jsonb_in Has)" and r: "workspace r \<noteq> ws" using Cons.prems(2) by auto
  have w: "within (workspace r) db (snd (h r db))" by (rule dbRoutes_within [OF p Cons.prems(1)])
  then have "view ws (snd (h r db)) = view ws db" using Cons.prems(1) r by (intro within_view) auto
  moreover have "same_view ws (serve qs (snd (h r db))) (snd (h r db))"
    by (rule Cons.IH [OF within_tenancy [OF w]]) (use Cons.prems(2) in auto)
  ultimately show ?case using Cons.prems(1) by (simp add: q same_view_def)
qed

text \<open>
  C10. Workspaces are isolated. Whatever requests principals of other workspaces send to the routes
  over workflows, versions, triggers and runs, in whatever order, the rows of a workspace stay as they
  are (its workflows with their versions, its triggers, runs, tasks and suspensions), every read
  route answers its members as before, and the ownership columns stay in agreement.
\<close>

theorem workspaces_are_isolated:
  assumes "tenancy db"
    and "\<And>h r. (h, r) \<in> set qs \<Longrightarrow> (\<exists>p. (p, h) \<in> set (dbRoutes X A C jsonb_in Has)) \<and> workspace r \<noteq> ws"
    and "(p, h) \<in> set (dbRoutes X A C jsonb_in Has)" "HasPrefix p ''GET ''" "workspace r = ws"
  shows "view ws (serve qs db) = view ws db \<and> fst (h r (serve qs db)) = fst (h r db) \<and> tenancy (serve qs db)"
proof -
  have s: "same_view (workspace r) (serve qs db) db" unfolding assms(5) by (rule serve_view [OF assms(1,2)])
  with dbRoutes_GET [OF assms(3,4) s] assms(5) show ?thesis by (simp add: same_view_def)
qed

definition demo_caller :: "uuid \<Rightarrow> request" where
  "demo_caller ws = demo_request\<lparr>rq_values := [(''id'', ''3'')], rq_auth := Some (demo_principal\<lparr>a_WorkspaceID := ws\<rparr>)\<rparr>"

lemma demo_tenancy: "tenancy demo_db"
  by (simp add: tenancy_def owner_defs demo_db_def demo_run_def empty_db_def)

lemma workspaces_are_isolated_witness:
  "view 7 (serve [(deleteWorkflow demo_env, demo_caller 8)] demo_db) = view 7 demo_db \<and>
   fst (getRun demo_X demo_env (demo_caller 7) (serve [(deleteWorkflow demo_env, demo_caller 8)] demo_db)) =
     fst (getRun demo_X demo_env (demo_caller 7) demo_db) \<and>
   tenancy (serve [(deleteWorkflow demo_env, demo_caller 8)] demo_db)"
proof (rule workspaces_are_isolated [where X = demo_X and A = demo_env and C = demo_cron and jsonb_in = id and Has = "\<lambda>_. True"
      and p = "''GET /v1/runs/{id}''", OF demo_tenancy])
  have ws: "workspace (demo_caller ws) = ws" for ws by (simp add: demo_caller_def workspace_def authFrom_def demo_request_def)
  then show "workspace (demo_caller 7) = 7" .
  show "(''GET /v1/runs/{id}'', getRun demo_X demo_env) \<in> set (dbRoutes demo_X demo_env demo_cron id (\<lambda>_. True))"
    by (simp add: dbRoutes_defs)
  show "HasPrefix ''GET /v1/runs/{id}'' ''GET ''" by code_simp
  fix h r assume "(h, r) \<in> set [(deleteWorkflow demo_env, demo_caller 8)]"
  then have hr: "h = deleteWorkflow demo_env" "r = demo_caller 8" by simp_all
  have "(''DELETE /v1/workflows/{id}'', h) \<in> set (dbRoutes demo_X demo_env demo_cron id (\<lambda>_. True))"
    by (simp add: dbRoutes_defs hr(1))
  moreover have "workspace r \<noteq> 7" by (simp add: hr(2) ws)
  ultimately show "(\<exists>p. (p, h) \<in> set (dbRoutes demo_X demo_env demo_cron id (\<lambda>_. True))) \<and> workspace r \<noteq> 7" by blast
qed

end
