(* ===== verification/Mcp_Server.thy ===== *)
theory Mcp_Server
  imports Isolation
begin

text \<open>
  The workspace MCP server (\<^verbatim>\<open>internal/api/mcpserver.go\<close>): a request is authenticated by its bearer
  token, which fixes the workspace of the three tools. What the SDK decodes from the request is the
  tool call; \<open>None\<close> as a call stands for any other protocol message, which the SDK answers without the
  store. Waiting for a run sees the store as it is at the ticks of the poll, which the other
  processes have moved on meanwhile: the observations are an argument.
\<close>

section \<open>The tools\<close>

record runWorkflowInput =
  in_Workflow :: string
  in_Input :: json
  in_WaitSeconds :: int

datatype tool_call = ListWorkflows | RunWorkflow runWorkflowInput | GetRunStatus string

text \<open>
  \<^verbatim>\<open>run_workflow\<close>, its start and its wait. The first observation is made right after the start.
\<close>

definition run_workflow ::
  "externals \<Rightarrow> timestamp \<Rightarrow> uuid \<Rightarrow> runWorkflowInput \<Rightarrow> (timestamp \<times> db) list \<Rightarrow> db \<Rightarrow> json result option \<times> db" where
  "run_workflow X now wsID inp later db =
     (case mcpRunWorkflow X now wsID (in_Workflow inp) (in_Input inp) db of
        Inl e \<Rightarrow> (Some (Inl e), db)
      | Inr (runID, db') \<Rightarrow>
          (case wait_seconds (in_WaitSeconds inp) of
             None \<Rightarrow> (Some (Inr (JObj [(''run_id'', JStr (uuid_String X runID)), (''status'', JStr ''queued'')])), db')
           | Some w \<Rightarrow> (wait_for_run X wsID runID (now + w * Second) later, db')))"

text \<open>\<^verbatim>\<open>addWorkspaceTools\<close>: the handler of each tool, bound to the workspace.\<close>

fun addWorkspaceTools ::
  "externals \<Rightarrow> api_env \<Rightarrow> timestamp \<Rightarrow> uuid \<Rightarrow> tool_call \<Rightarrow> (timestamp \<times> db) list \<Rightarrow> db \<Rightarrow> json result option \<times> db" where
  "addWorkspaceTools X A now wsID ListWorkflows later db = (Some (Inr (mcpListWorkflows X wsID db)), db)"
| "addWorkspaceTools X A now wsID (RunWorkflow inp) later db = run_workflow X now wsID inp later db"
| "addWorkspaceTools X A now wsID (GetRunStatus i) later db = (Some (mcpGetRunStatus X A wsID i db), db)"

datatype mcp_reply = Rejected response | Protocol | Tool "json result option"

definition MCPHandler ::
  "externals \<Rightarrow> api_env \<Rightarrow> tool_call option \<Rightarrow> (timestamp \<times> db) list \<Rightarrow> request \<Rightarrow> server \<times> db \<Rightarrow> mcp_reply \<times> server \<times> db" where
  "MCPHandler X A call later r sdb =
     (case sdb of (s, db) \<Rightarrow>
        (case authenticateToken X r s of
           (None, s') \<Rightarrow> (Rejected (s_json 401 (JObj [(''error'', JStr ''invalid or missing API token'')])), s', db)
         | (Some wsID, s') \<Rightarrow>
             (case call of
                None \<Rightarrow> (Protocol, s', db)
              | Some c \<Rightarrow>
                  (let (out, db') = addWorkspaceTools X A (rq_now r) wsID c later db in (Tool out, s', db')))))"

section \<open>Workspaces\<close>

lemma mcpRunWorkflow_Inr:
  assumes "mcpRunWorkflow X now wsID arg input db = Inr (i, db')"
  obtains w created where "w \<in> set (workflows db)" "w_workspace_id w = wsID" "w_is_enabled w"
    "StartRunOpts X now wsID (w_id w) input zero_opts db = Inr (i, created, db')"
  using assms
  by (auto simp: mcpRunWorkflow_def Let_def split: if_splits option.splits sum.splits dest!: find_SomeD)

lemma tools_within:
  assumes T: "tenancy db" shows "within ws db (snd (addWorkspaceTools X A now ws c later db))"
proof (cases c)
  case (RunWorkflow inp)
  have "within ws db db'" if "mcpRunWorkflow X now ws arg input db = Inr (i, db')" for arg input i db'
    using that by (rule mcpRunWorkflow_Inr) (rule within_StartRunOpts [OF T])
  then show ?thesis
    by (auto simp: RunWorkflow run_workflow_def within_refl T split: sum.splits option.splits)
qed (simp_all add: within_refl T)

lemma mcpListWorkflows_own:
  assumes s: "same_view ws db db'"
  shows "mcpListWorkflows X ws db = mcpListWorkflows X ws db'"
proof -
  have "current_version w db = current_version w db'"
    if "w \<in> set (sort_key w_name (filter (\<lambda>w. w_workspace_id w = ws) (workflows db)))" for w
    using same_current_version [OF s] that by simp
  note rows = this
  show ?thesis
    unfolding mcpListWorkflows_def same_viewD(4) [OF s, symmetric]
    by (intro arg_cong [where f = "\<lambda>xs. JArr (concat xs)"] map_cong refl) (simp only: rows)
qed

lemma mcpGetRunStatus_own:
  "same_view ws db db' \<Longrightarrow> mcpGetRunStatus X A ws i db = mcpGetRunStatus X A ws i db'"
  by (simp add: mcpGetRunStatus_def fetchRun_own split: option.split)

lemma authenticateToken_Some:
  assumes "authenticateToken X r s = (Some ws, s')"
  shows "\<exists>t \<in> set (api_tokens s). at_workspace_id t = ws \<and>
    at_token_hash t = hashToken X (TrimSpace (drop (length bearer) (Header_Get r ''Authorization'')))"
  using assms by (auto simp: authenticateToken_def Let_def split: if_splits option.splits dest!: find_SomeD)

text \<open>
  An MCP client acts only in the workspace of its token. Either the bearer token is not one
  of the stored ones, the answer is 401 and the store stays as it is; or a stored token has that hash,
  and whatever tool is called, the rows of every workspace but that of the token stay as they are.
  The listing and the status of a run are read from the rows of that workspace alone.
\<close>

lemma mcp_client_stays_in_its_workspace:
  assumes T: "tenancy db" and run: "MCPHandler X A call later r (s, db) = (reply, s', db')"
  shows "(\<exists>rs. reply = Rejected rs \<and> rs_status rs = 401 \<and> db' = db) \<or>
    (\<exists>t \<in> set (api_tokens s).
       at_token_hash t = hashToken X (TrimSpace (drop (length bearer) (Header_Get r ''Authorization''))) \<and>
       tenancy db' \<and> (\<forall>ws. ws \<noteq> at_workspace_id t \<longrightarrow> view ws db' = view ws db) \<and>
       (\<forall>d. same_view (at_workspace_id t) db d \<longrightarrow>
          mcpListWorkflows X (at_workspace_id t) db = mcpListWorkflows X (at_workspace_id t) d \<and>
          (\<forall>i. mcpGetRunStatus X A (at_workspace_id t) i db = mcpGetRunStatus X A (at_workspace_id t) i d)))"
proof (cases "authenticateToken X r s")
  case (Pair auth s1)
  show ?thesis
  proof (cases auth)
    case None
    with run Pair show ?thesis by (auto simp: MCPHandler_def s_json_def)
  next
    case (Some ws)
    with Pair obtain t where t: "t \<in> set (api_tokens s)" "at_workspace_id t = ws"
        "at_token_hash t = hashToken X (TrimSpace (drop (length bearer) (Header_Get r ''Authorization'')))"
      using authenticateToken_Some [of X r s ws s1] by auto
    have "within ws db db'"
    proof (cases call)
      case None with run Pair Some T show ?thesis by (simp add: MCPHandler_def within_refl)
    next
      case (Some c)
      with run Pair \<open>auth = Some ws\<close> have "db' = snd (addWorkspaceTools X A (rq_now r) ws c later db)"
        by (simp add: MCPHandler_def split: prod.splits)
      then show ?thesis using tools_within [OF T] by simp
    qed
    then have "tenancy db'" "view v db' = view v db" if "v \<noteq> ws" for v
      using within_view [OF _ T that] by (auto intro: within_tenancy)
    with t \<open>within ws db db'\<close> mcpListWorkflows_own mcpGetRunStatus_own show ?thesis by (blast intro: within_tenancy)
  qed
qed

definition demo_token :: token_row where
  "demo_token = \<lparr>at_id = 1, at_workspace_id = 8, at_name = ''ci'', at_token_hash = hashToken demo_X ''oak_k'',
     at_prefix = ''oak_k'', at_created_by = None, at_created_at = 0, at_last_used_at = None\<rparr>"

section \<open>Waiting\<close>

text \<open>
  The wait of \<^verbatim>\<open>run_workflow\<close> ends: as soon as one tick lies past the longest wait of sixty seconds,
  the tool has answered, and outputs are only given for a run that is over.
\<close>

lemma wait_for_run_answers:
  "(t, d) \<in> set later \<Longrightarrow> deadline < t \<Longrightarrow> wait_for_run X ws i deadline later \<noteq> None"
proof (induction later)
  case (Cons p later)
  obtain now db where p: "p = (now, db)" by (cases p)
  show ?case
  proof (cases "deadline < now")
    case True then show ?thesis by (simp add: p Let_def split: sum.split)
  next
    case False
    with Cons have "wait_for_run X ws i deadline later \<noteq> None" by (auto simp: p)
    then show ?thesis by (simp add: p Let_def split: sum.split)
  qed
qed simp

lemma wait_seconds_bounded: "wait_seconds w = Some s \<Longrightarrow> 1 \<le> s \<and> s \<le> 60"
  by (auto simp: wait_seconds_def split: if_splits)

lemma run_workflow_answers_within_a_minute:
  assumes "(t, d) \<in> set later" "now + 60 * Second < t"
  shows "fst (run_workflow X now ws inp later db) \<noteq> None"
proof -
  have "wait_for_run X ws i (now + w * Second) later \<noteq> None" if "wait_seconds (in_WaitSeconds inp) = Some w" for w i
  proof (rule wait_for_run_answers [OF assms(1)])
    have "now + w * Second \<le> now + 60 * Second" using wait_seconds_bounded [OF that] by (simp add: Second_def)
    then show "now + w * Second < t" using assms(2) by simp
  qed
  then show ?thesis by (auto simp: run_workflow_def split: sum.split option.split)
qed

lemma isTerminal_run_status: "isTerminal (run_status_text st) = run_terminal st"
  by (cases st) (simp_all add: isTerminal_def)

lemma wait_for_run_outputs:
  assumes "wait_for_run X ws i deadline later = Some (Inr (JObj ms))" "map_of ms ''outputs'' \<noteq> None"
  shows "\<exists>(t, d) \<in> set later. \<exists>q. fetchRun ws i d = Inr q \<and> run_terminal (r_status (rd_run q))"
  using assms(1)
proof (induction later)
  case (Cons p later)
  obtain now db where p: "p = (now, db)" by (cases p)
  then obtain q where q: "fetchRun ws i db = Inr q" using Cons.prems by (cases "fetchRun ws i db") auto
  show ?case
  proof (cases "run_terminal (r_status (rd_run q))")
    case True with q show ?thesis by (auto simp: p)
  next
    case False
    then have "\<not> isTerminal (run_status_text (r_status (rd_run q)))" by (simp only: isTerminal_run_status not_False_eq_True)
    moreover from this have "\<not> deadline < now" using Cons.prems assms(2) by (auto simp: p q Let_def)
    ultimately have "wait_for_run X ws i deadline later = Some (Inr (JObj ms))" using Cons.prems by (simp add: p q Let_def)
    with Cons.IH show ?thesis by auto
  qed
qed simp

end
