(* ===== verification/Vault.thy ===== *)
theory Vault
  imports Store Go_Json Http
begin

text \<open>
  The vault (\<^verbatim>\<open>internal/vault/vault.go\<close>): the master key, sealing and opening of secrets under
  AES-256-GCM, and the three lookups the executors and the engine use. The cipher is a parameter
  (\<open>aead\<close>): sealing and opening under a key and a nonce. The tables \<^verbatim>\<open>secrets\<close> and
  \<^verbatim>\<open>mcp_servers\<close> are the record \<open>resources\<close>.
\<close>

section \<open>Tables\<close>

record secret_row =
  sk_id :: uuid
  sk_workspace_id :: uuid
  sk_name :: string
  sk_type :: string
  sk_provider :: "string option"
  sk_encrypted_data :: string
  sk_key_id :: string
  sk_created_by :: "uuid option"

record mcp_row =
  mc_id :: uuid
  mc_workspace_id :: uuid
  mc_name :: string
  mc_url :: string
  mc_auth_encrypted :: "string option"
  mc_key_id :: "string option"
  mc_is_enabled :: bool
  mc_created_by :: "uuid option"

record resources =
  secrets :: "secret_row list"
  mcp_servers :: "mcp_row list"

section \<open>The master key\<close>

definition KeyID :: string where
  "KeyID = ''local-v1''"

definition devKey :: string where
  "devKey = ''0b5e8836f9aeaf6e6a3e2bd1b1f0c39d8a1c2e4f5a6b7c8d9e0f1a2b3c4d5e6f''"

definition hex_val :: "char \<Rightarrow> nat option" where
  "hex_val c =
     (if is_digit c then Some (of_char c - 48)
      else if CHR ''a'' \<le> c \<and> c \<le> CHR ''f'' then Some (of_char c - 87)
      else if CHR ''A'' \<le> c \<and> c \<le> CHR ''F'' then Some (of_char c - 55)
      else None)"

fun hex_DecodeString :: "string \<Rightarrow> string option" where
  "hex_DecodeString [] = Some []"
| "hex_DecodeString [c] = None"
| "hex_DecodeString (c # d # s) =
     (case (hex_val c, hex_val d, hex_DecodeString s) of
        (Some h, Some l, Some bs) \<Rightarrow> Some (char_of (16 * h + l) # bs)
      | _ \<Rightarrow> None)"

record vault =
  vt_key :: string
  vt_usingDevKey :: bool

definition vault_New :: "string \<Rightarrow> vault result" where
  "vault_New hexKey =
     (let usingDevKey = (hexKey = []) in
      case hex_DecodeString (if usingDevKey then devKey else hexKey) of
        None \<Rightarrow> Inl (Errorf ''OARLOCK_MASTER_KEY must be 64 hex chars (32 bytes)'')
      | Some key \<Rightarrow>
          if length key \<noteq> 32 then Inl (Errorf ''OARLOCK_MASTER_KEY must be 64 hex chars (32 bytes)'')
          else Inr \<lparr>vt_key = key, vt_usingDevKey = usingDevKey\<rparr>)"

definition DevKey :: "vault \<Rightarrow> bool" where
  "DevKey v = vt_usingDevKey v"

section \<open>Sealing and opening\<close>

record aead =
  gcm_Seal :: "string \<Rightarrow> string \<Rightarrow> string \<Rightarrow> string"          \<comment> \<open>key, nonce, plaintext\<close>
  gcm_Open :: "string \<Rightarrow> string \<Rightarrow> string \<Rightarrow> string option"   \<comment> \<open>key, nonce, ciphertext\<close>

text \<open>The contract of the cipher: what is sealed under a key and a nonce opens under them.\<close>

definition opens_what_it_seals :: "aead \<Rightarrow> bool" where
  "opens_what_it_seals A \<longleftrightarrow> (\<forall>k n p. gcm_Open A k n (gcm_Seal A k n p) = Some p)"

definition NonceSize :: nat where
  "NonceSize = 12"

definition aes_NewCipher :: "string \<Rightarrow> string result" where
  "aes_NewCipher key =
     (if length key \<in> {16, 24, 32} then Inr key else Inl (Errorf ''crypto/aes: invalid key size''))"

text \<open>\<open>rnd\<close> is what \<^verbatim>\<open>rand.Read\<close> puts into the nonce, \<open>None\<close> when it fails.\<close>

definition Encrypt :: "aead \<Rightarrow> vault \<Rightarrow> string option \<Rightarrow> string \<Rightarrow> string result" where
  "Encrypt A v rnd plain =
     rbind (aes_NewCipher (vt_key v)) (\<lambda>key.
       case rnd of
         None \<Rightarrow> Inl (Errorf ''rand.Read'')
       | Some bytes \<Rightarrow> (let nonce = take NonceSize bytes in Inr (nonce @ gcm_Seal A key nonce plain)))"

definition Decrypt :: "aead \<Rightarrow> vault \<Rightarrow> string \<Rightarrow> string result" where
  "Decrypt A v sealed =
     rbind (aes_NewCipher (vt_key v)) (\<lambda>key.
       if length sealed < NonceSize then Inl (Errorf ''ciphertext too short'')
       else case gcm_Open A key (take NonceSize sealed) (drop NonceSize sealed) of
         None \<Rightarrow> Inl (Errorf ''cipher: message authentication failed'')
       | Some plain \<Rightarrow> Inr plain)"

record secretPayload =
  Value :: string
  APIKey :: string

definition payload_json :: "secretPayload \<Rightarrow> json" where
  "payload_json p =
     JObj ((''value'', JStr (Value p)) # (if APIKey p = [] then [] else [(''api_key'', JStr (APIKey p))]))"

definition payload_value :: "secretPayload \<Rightarrow> string" where
  "payload_value p = (if Value p \<noteq> [] then Value p else APIKey p)"

definition SealSecret :: "aead \<Rightarrow> vault \<Rightarrow> string option \<Rightarrow> string \<Rightarrow> string result" where
  "SealSecret A v rnd val =
     (case Marshal (payload_json \<lparr>Value = val, APIKey = []\<rparr>) of
        Inr raw \<Rightarrow> Encrypt A v rnd raw
      | Inl _ \<Rightarrow> Encrypt A v rnd [])"

text \<open>\<^verbatim>\<open>json.Unmarshal\<close> into the payload.\<close>

definition payload_of :: "json \<Rightarrow> secretPayload result" where
  "payload_of j =
     (if body_is_struct (Some j) \<and>
         list_all (\<lambda>k. field_ok dec_string [] k (body_members (Some j))) [''value'', ''api_key'']
      then Inr \<lparr>Value = field dec_string [] ''value'' (body_members (Some j)),
                APIKey = field dec_string [] ''api_key'' (body_members (Some j))\<rparr>
      else Inl type_error)"

definition openSecret :: "externals \<Rightarrow> aead \<Rightarrow> vault \<Rightarrow> string \<Rightarrow> string \<Rightarrow> string result" where
  "openSecret X A v name sealed =
     (case Decrypt A v sealed of
        Inl _ \<Rightarrow> Inl (Errorf (''secret '' @ quoted name @ '': decrypt failed (master key changed?)''))
      | Inr raw \<Rightarrow>
          rbind (json_Unmarshal X raw) (\<lambda>j. rbind (payload_of j) (\<lambda>p. Inr (payload_value p))))"

section \<open>Lookups\<close>

definition resolve_APIKey :: "externals \<Rightarrow> aead \<Rightarrow> vault \<Rightarrow> resources \<Rightarrow> uuid \<Rightarrow> string \<Rightarrow> (string \<times> string) result" where
  "resolve_APIKey X A v R ws name =
     (case find (\<lambda>s. sk_workspace_id s = ws \<and> sk_name s = name \<and> sk_type s = ''api_key'') (secrets R) of
        None \<Rightarrow> Inl (Errorf (''API key secret '' @ quoted name @ '' not found''))
      | Some s \<Rightarrow>
          (case sk_provider s of
             None \<Rightarrow> Inl (Errorf (''API key secret '' @ quoted name @ '' not found''))
           | Some provider \<Rightarrow>
               rbind (openSecret X A v name (sk_encrypted_data s)) (\<lambda>key. Inr (provider, key))))"

definition workspace_rows :: "resources \<Rightarrow> uuid \<Rightarrow> secret_row list" where
  "workspace_rows R ws = filter (\<lambda>s. sk_workspace_id s = ws) (secrets R)"

definition WorkspaceSecrets :: "externals \<Rightarrow> aead \<Rightarrow> vault \<Rightarrow> resources \<Rightarrow> uuid \<Rightarrow> (string \<times> string) list result" where
  "WorkspaceSecrets X A v R ws =
     rfold (\<lambda>out s. rbind (openSecret X A v (sk_name s) (sk_encrypted_data s))
         (\<lambda>val. Inr (AList.update (sk_name s) val out)))
       [] (workspace_rows R ws)"

definition resolve_Server :: "aead \<Rightarrow> vault \<Rightarrow> resources \<Rightarrow> uuid \<Rightarrow> string \<Rightarrow> (string \<times> string) result" where
  "resolve_Server A v R ws name =
     (case find (\<lambda>m. mc_workspace_id m = ws \<and> mc_name m = name) (mcp_servers R) of
        None \<Rightarrow> Inl (Errorf (''mcp server '' @ quoted name @ '' not found''))
      | Some m \<Rightarrow>
          if \<not> mc_is_enabled m then Inl (Errorf (''mcp server '' @ quoted name @ '' is disabled''))
          else case mc_auth_encrypted m of
            None \<Rightarrow> Inr (mc_url m, [])
          | Some sealed \<Rightarrow>
              if sealed = [] then Inr (mc_url m, [])
              else (case Decrypt A v sealed of
                  Inl _ \<Rightarrow> Inl (Errorf (''mcp server '' @ quoted name @ '': decrypt failed''))
                | Inr raw \<Rightarrow> Inr (mc_url m, raw)))"

section \<open>Facts\<close>

lemma vault_New_key: "vault_New hexKey = Inr v \<Longrightarrow> length (vt_key v) = 32"
  by (auto simp: vault_New_def Let_def split: option.splits if_splits)

lemma Decrypt_Encrypt:
  assumes "opens_what_it_seals A" "Encrypt A v (Some bytes) plain = Inr sealed" "NonceSize \<le> length bytes"
  shows "Decrypt A v sealed = Inr plain"
  using assms by (auto simp: Encrypt_def Decrypt_def rbind_Inr_iff Let_def opens_what_it_seals_def)

lemma Encrypt_Some:
  assumes "Encrypt A v rnd plain = Inr sealed"
  obtains bytes where "rnd = Some bytes"
  using assms by (cases rnd) (auto simp: Encrypt_def rbind_Inr_iff)

lemma Encrypt_succeeds: "length (vt_key v) = 32 \<Longrightarrow> \<exists>sealed. Encrypt A v (Some bytes) plain = Inr sealed"
  by (simp add: Encrypt_def aes_NewCipher_def Let_def)

text \<open>
  What the decoder has to give back for the documents that \<^verbatim>\<open>SealSecret\<close> writes: the string that
  was encoded. \<^verbatim>\<open>encoding/json\<close> does for every valid UTF-8 text.
\<close>

definition payload_text :: "string \<Rightarrow> string" where
  "payload_text val = CHR 0x7B # quote ''value'' @ '':'' @ quote val @ [CHR 0x7D]"


definition decodes_payload :: "externals \<Rightarrow> string \<Rightarrow> bool" where
  "decodes_payload X val \<longleftrightarrow> json_Unmarshal X (payload_text val) = Inr (JObj [(''value'', JStr val)])"

lemma openSecret_SealSecret:
  assumes "opens_what_it_seals A" "SealSecret A v (Some bytes) val = Inr sealed" "NonceSize \<le> length bytes"
    and "decodes_payload X val"
  shows "openSecret X A v name sealed = Inr val"
proof -
  have "Marshal (payload_json \<lparr>Value = val, APIKey = []\<rparr>) = Inr (payload_text val)"
    by (simp add: payload_json_def payload_text_def)
  then have "Decrypt A v sealed = Inr (payload_text val)"
    using Decrypt_Encrypt [OF assms(1) _ assms(3), of v "payload_text val"] assms(2) by (simp add: SealSecret_def)
  moreover have "payload_of (JObj [(''value'', JStr val)]) = Inr \<lparr>Value = val, APIKey = []\<rparr>"
    by (simp add: payload_of_def ToLower_def char_lower_def)
  ultimately show ?thesis
    using assms(4) by (simp add: openSecret_def decodes_payload_def payload_value_def)
qed

text \<open>The map of all secrets: every row must open, and the name of a row gives its value.\<close>

lemma secrets_fold:
  assumes "rfold (\<lambda>out s. rbind (f s) (\<lambda>val. Inr (AList.update (sk_name s) val out))) out0 ss = Inr out"
    and "distinct (map sk_name ss)"
  shows "(\<forall>s \<in> set ss. \<exists>val. f s = Inr val \<and> map_of out (sk_name s) = Some val) \<and>
    (\<forall>n. n \<notin> sk_name ` set ss \<longrightarrow> map_of out n = map_of out0 n)"
  using assms
proof (induction ss arbitrary: out0)
  case (Cons s ss)
  then obtain val where val: "f s = Inr val"
    "rfold (\<lambda>out s. rbind (f s) (\<lambda>val. Inr (AList.update (sk_name s) val out))) (AList.update (sk_name s) val out0) ss = Inr out"
    by (auto simp: rbind_Inr_iff)
  from Cons.IH [OF val(2)] Cons.prems(2) have IH:
    "\<forall>s \<in> set ss. \<exists>val. f s = Inr val \<and> map_of out (sk_name s) = Some val"
    "\<forall>n. n \<notin> sk_name ` set ss \<longrightarrow> map_of out n = map_of (AList.update (sk_name s) val out0) n" by auto
  with val(1) Cons.prems(2) show ?case by (auto simp: update_conv)
qed simp

lemma secrets_fold_succeeds:
  "\<forall>s \<in> set ss. \<exists>val. f s = Inr val \<Longrightarrow>
    \<exists>out. rfold (\<lambda>out s. rbind (f s) (\<lambda>val. Inr (AList.update (sk_name s) val out))) out0 ss = Inr out"
proof (induction ss arbitrary: out0)
  case (Cons s ss)
  then obtain val where "f s = Inr val" by auto
  with Cons show ?case by simp
qed simp

lemma WorkspaceSecrets_Inr_iff:
  assumes "distinct (map sk_name (workspace_rows R ws))"
  shows "(\<exists>out. WorkspaceSecrets X A v R ws = Inr out) \<longleftrightarrow>
    (\<forall>s \<in> set (workspace_rows R ws). \<exists>val. openSecret X A v (sk_name s) (sk_encrypted_data s) = Inr val)"
  using secrets_fold [OF _ assms, of "\<lambda>s. openSecret X A v (sk_name s) (sk_encrypted_data s)" "[]"]
    secrets_fold_succeeds [of "workspace_rows R ws" "\<lambda>s. openSecret X A v (sk_name s) (sk_encrypted_data s)" "[]"]
  unfolding WorkspaceSecrets_def by blast

lemma WorkspaceSecrets_lookup:
  assumes "WorkspaceSecrets X A v R ws = Inr out" "distinct (map sk_name (workspace_rows R ws))"
    and "s \<in> set (workspace_rows R ws)"
  shows "\<exists>val. openSecret X A v (sk_name s) (sk_encrypted_data s) = Inr val \<and> map_of out (sk_name s) = Some val"
  using secrets_fold [OF assms(1) [unfolded WorkspaceSecrets_def] assms(2)] assms(3) by blast

end
