(* ===== verification/Mcp_Client.thy ===== *)
theory Mcp_Client
  imports Go_Json
begin

text \<open>
  The client of external MCP servers (\<^verbatim>\<open>internal/mcpclient/client.go\<close>): connect, list the tools or
  call one, disconnect. The protocol is the SDK's (\<open>mcp_sdk\<close>); a session is the endpoint and the
  header it was opened with.
\<close>

record tool_info =
  ti_Name :: string
  ti_Description :: string
  ti_InputSchema :: json

datatype content = TextContent string | OtherContent

record call_result =
  cr_Content :: "content list"
  cr_IsError :: bool
  cr_StructuredContent :: "json option"

type_synonym session = "string \<times> string"

record mcp_sdk =
  sdk_Connect :: "string \<Rightarrow> string \<Rightarrow> session result"
  sdk_ListTools :: "session \<Rightarrow> tool_info list result"
  sdk_CallTool :: "session \<Rightarrow> string \<Rightarrow> (string \<times> json) list \<Rightarrow> call_result result"

definition connect :: "mcp_sdk \<Rightarrow> string \<Rightarrow> string \<Rightarrow> session result" where
  "connect S url authHeader =
     (case sdk_Connect S url authHeader of
        Inl e \<Rightarrow> Inl (Wrapf (''mcp connect '' @ url) e)
      | Inr s \<Rightarrow> Inr s)"

definition ListTools :: "mcp_sdk \<Rightarrow> string \<Rightarrow> string \<Rightarrow> tool_info list result" where
  "ListTools S url authHeader =
     rbind (connect S url authHeader) (\<lambda>s.
       case sdk_ListTools S s of
         Inl e \<Rightarrow> Inl (Wrapf ''mcp tools/list'' e)
       | Inr tools \<Rightarrow> Inr tools)"

fun content_texts :: "content list \<Rightarrow> string list" where
  "content_texts [] = []"
| "content_texts (TextContent t # cs) = t # content_texts cs"
| "content_texts (OtherContent # cs) = content_texts cs"

definition CallTool :: "mcp_sdk \<Rightarrow> string \<Rightarrow> string \<Rightarrow> string \<Rightarrow> (string \<times> json) list \<Rightarrow> json result" where
  "CallTool S url authHeader tool args =
     rbind (connect S url authHeader) (\<lambda>s.
       case sdk_CallTool S s tool args of
         Inl e \<Rightarrow> Inl (Wrapf (''mcp tools/call '' @ tool) e)
       | Inr res \<Rightarrow>
           let txt = joined [CHR 0x0A] (content_texts (cr_Content res)) in
           if cr_IsError res
           then Inl (Errorf (''mcp tool '' @ tool @ '': '' @ (if txt = [] then ''tool returned an error'' else txt)))
           else (case cr_StructuredContent res of
               Some v \<Rightarrow> Inr v
             | None \<Rightarrow> Inr (JObj [(''text'', JStr txt)])))"

definition tool_json :: "tool_info \<Rightarrow> json" where
  "tool_json t = JObj [(''name'', JStr (ti_Name t)), (''description'', JStr (ti_Description t)),
     (''input_schema'', ti_InputSchema t)]"

end
