(* ===== verification/Resources_Api.thy ===== *)
theory Resources_Api
  imports Vault Mcp_Client Triggers_Api
begin

text \<open>
  Workspace resources over HTTP (\<^verbatim>\<open>internal/api/resources.go\<close>): secrets and MCP servers, both
  referenced by name from step configurations. A handler is a function from the engine's store
  (read only), a request and the resource tables to a response and the new tables. What Postgres
  and the cipher contribute is the record \<open>resource_env\<close>: the text form of a jsonb value, the order of
  the collation, the AEAD, and the MCP SDK. Creation times are not kept.
\<close>

record resource_env =
  re_X :: externals
  re_api :: api_env
  re_aead :: aead
  re_vault :: vault
  re_sdk :: mcp_sdk
  re_jsonb_text :: "json \<Rightarrow> string"        \<comment> \<open>the cast \<^verbatim>\<open>::text\<close> of a jsonb value\<close>
  re_collation_key :: "string \<Rightarrow> string"   \<comment> \<open>\<^verbatim>\<open>order by name\<close>\<close>

type_synonym resource_handler = "resource_env \<Rightarrow> db \<Rightarrow> request \<Rightarrow> resources \<Rightarrow> response \<times> resources"

section \<open>References from workflow definitions\<close>

definition json_get :: "json \<Rightarrow> string \<Rightarrow> json option" where
  "json_get j k = (case j of JObj ms \<Rightarrow> map_of ms k | _ \<Rightarrow> None)"

text \<open>The operator \<^verbatim>\<open>->>\<close>: \<open>None\<close> is SQL null.\<close>

definition json_text :: "resource_env \<Rightarrow> json option \<Rightarrow> string option" where
  "json_text E v =
     (case v of
        None \<Rightarrow> None
      | Some JNull \<Rightarrow> None
      | Some (JStr s) \<Rightarrow> Some s
      | Some j \<Rightarrow> Some (re_jsonb_text E j))"

text \<open>
  \<^verbatim>\<open>jsonb_array_elements(coalesce(definition->'steps', '[]'))\<close>: a value that is no array is an error.
\<close>

definition step_elements :: "json \<Rightarrow> json list option" where
  "step_elements d =
     (case json_get d ''steps'' of
        None \<Rightarrow> Some []
      | Some (JArr xs) \<Rightarrow> Some xs
      | Some _ \<Rightarrow> None)"

text \<open>\<^verbatim>\<open>like\<close> with a pattern whose only wildcard is the final \<^verbatim>\<open>%\<close>.\<close>

definition like_prefix :: "string \<Rightarrow> string option \<Rightarrow> bool" where
  "like_prefix pat v = (case v of None \<Rightarrow> False | Some s \<Rightarrow> HasPrefix s (butlast pat))"

definition current_definitions :: "db \<Rightarrow> uuid \<Rightarrow> (string \<times> json) list" where
  "current_definitions db ws =
     List.map_filter (\<lambda>w. map_option (\<lambda>v. (w_name w, v_definition v)) (Option.bind (w_current_version_id w) (find_version db)))
       (filter (\<lambda>w. w_workspace_id w = ws) (workflows db))"

definition step_refers :: "resource_env \<Rightarrow> string \<Rightarrow> string \<Rightarrow> string \<Rightarrow> json \<Rightarrow> bool" where
  "step_refers E typePrefix configKey val st \<longleftrightarrow>
     like_prefix typePrefix (json_text E (json_get st ''type'')) \<and>
     json_text E (Option.bind (json_get st ''config'') (\<lambda>c. json_get c configKey)) = Some val"

definition sorted_names :: "resource_env \<Rightarrow> string list \<Rightarrow> string list" where
  "sorted_names E ns = sort_key (re_collation_key E) (remdups ns)"

text \<open>\<open>None\<close>: the query fails.\<close>

definition referencingWorkflows :: "resource_env \<Rightarrow> db \<Rightarrow> request \<Rightarrow> string \<Rightarrow> string \<Rightarrow> string \<Rightarrow> string list option" where
  "referencingWorkflows E db r typePrefix configKey val =
     (let defs = current_definitions db (workspace r) in
      if list_ex (\<lambda>(n, d). step_elements d = None) defs then None
      else Some (sorted_names E (map fst
        (filter (\<lambda>(n, d). list_ex (step_refers E typePrefix configKey val)
           (case step_elements d of Some xs \<Rightarrow> xs | None \<Rightarrow> [])) defs))))"

definition secret_name_char :: "char \<Rightarrow> bool" where
  "secret_name_char c \<longleftrightarrow>
     (CHR ''a'' \<le> c \<and> c \<le> CHR ''z'') \<or> (CHR ''A'' \<le> c \<and> c \<le> CHR ''Z'') \<or> is_digit c \<or> c = CHR ''_'' \<or> c = CHR ''-''"

definition secretNamePattern :: "string \<Rightarrow> bool" where
  "secretNamePattern s \<longleftrightarrow> s \<noteq> [] \<and> list_all secret_name_char s"

text \<open>
  The regular expression \<^verbatim>\<open>secrets\.<name>($|[^a-zA-Z0-9_-])\<close> for a name of that alphabet, found
  anywhere in the text.
\<close>

definition mention_at :: "string \<Rightarrow> string \<Rightarrow> bool" where
  "mention_at name s \<longleftrightarrow>
     HasPrefix s (''secrets.'' @ name) \<and>
     (case drop (length (''secrets.'' @ name)) s of [] \<Rightarrow> True | c # _ \<Rightarrow> \<not> secret_name_char c)"

fun mentions :: "string \<Rightarrow> string \<Rightarrow> bool" where
  "mentions name [] = mention_at name []"
| "mentions name (c # s) = (mention_at name (c # s) \<or> mentions name s)"

definition workflowsMentioning :: "resource_env \<Rightarrow> db \<Rightarrow> request \<Rightarrow> string \<Rightarrow> string list" where
  "workflowsMentioning E db r name =
     sorted_names E (map fst
       (filter (\<lambda>(n, d). mentions name (re_jsonb_text E d)) (current_definitions db (workspace r))))"

section \<open>Secrets\<close>

definition allowedProviders :: "string \<Rightarrow> bool" where
  "allowedProviders p \<longleftrightarrow> p \<in> {''anthropic'', ''openai'', ''openrouter''}"

definition ellipsis :: string where
  "ellipsis = [CHR 0xE2, CHR 0x80, CHR 0xA6]"

definition value_hint :: "string option \<Rightarrow> string" where
  "value_hint v =
     (case v of None \<Rightarrow> [] | Some s \<Rightarrow> if 4 < length s then ellipsis @ drop (length s - 4) s else [])"

definition listSecrets :: resource_handler where
  "listSecrets E db r R =
     (let al = (case WorkspaceSecrets (re_X E) (re_aead E) (re_vault E) R (workspace r) of Inr m \<Rightarrow> m | Inl _ \<Rightarrow> []) in
      (s_json 200 (JArr (map (\<lambda>c. JObj
         ([(''id'', JStr (uuid_String (re_X E) (sk_id c))), (''name'', JStr (sk_name c)), (''type'', JStr (sk_type c))] @
          (case sk_provider c of None \<Rightarrow> [] | Some p \<Rightarrow> if p = [] then [] else [(''provider'', JStr p)]) @
          [(''value_hint'', JStr (value_hint (map_of al (sk_name c))))]))
         (sort_key (\<lambda>s. re_collation_key E (sk_name s)) (workspace_rows R (workspace r))))), R))"

text \<open>
  \<^verbatim>\<open>insert into secrets\<close>: refused by the keys and by the two checks on type and provider.
\<close>

definition insert_secret :: "secret_row \<Rightarrow> resources \<Rightarrow> resources result" where
  "insert_secret s R =
     (if sk_id s \<in> sk_id ` set (secrets R) \<or>
         (\<exists>s' \<in> set (secrets R). sk_workspace_id s' = sk_workspace_id s \<and> sk_name s' = sk_name s)
      then Inl UniqueViolation
      else if sk_type s \<notin> {''generic'', ''api_key''} \<or> (sk_type s = ''api_key'' \<and> sk_provider s = None)
      then Inl (Errorf ''violates check constraint'')
      else Inr (R\<lparr>secrets := secrets R @ [s]\<rparr>))"

definition create_secret_row ::
  "resource_env \<Rightarrow> request \<Rightarrow> string \<Rightarrow> string \<Rightarrow> string option \<Rightarrow> resources \<Rightarrow> response \<times> resources" where
  "create_secret_row E r name typ provider R =
     (case SealSecret (re_aead E) (re_vault E) (rq_rand r) (TrimSpace (string_field r ''value'')) of
        Inl _ \<Rightarrow> (s_error 500 [], R)
      | Inr sealed \<Rightarrow>
          let s = \<lparr>sk_id = gen_random_uuid (re_X E) (map sk_id (secrets R)), sk_workspace_id = workspace r,
                   sk_name = name, sk_type = typ, sk_provider = provider, sk_encrypted_data = sealed,
                   sk_key_id = KeyID, sk_created_by = userIDOrNil (authFrom r)\<rparr> in
          (case insert_secret s R of
             Inl _ \<Rightarrow> (s_error 409 (''a secret named '' @ quoted name @ '' already exists''), R)
           | Inr R' \<Rightarrow> (s_json 201 (JObj [(''id'', JStr (uuid_String (re_X E) (sk_id s)))]), R')))"

definition createSecret :: resource_handler where
  "createSecret E db r R =
     (let name = TrimSpace (string_field r ''name''); typ = string_field r ''type'';
          provider = string_field r ''provider'' in
      if \<not> strings_ok r [''name'', ''type'', ''provider'', ''value''] \<or> name = [] \<or>
         TrimSpace (string_field r ''value'') = []
      then (s_error 400 ''name, type, and value are required'', R)
      else if \<not> secretNamePattern name
      then (s_error 422 ''name must be alphanumeric/_/- (it is referenced as secrets.<name> in expressions)'', R)
      else if typ = ''api_key'' then
        (if \<not> allowedProviders provider
         then (s_error 422 ''api_key secrets need a provider: anthropic, openai, or openrouter'', R)
         else create_secret_row E r name typ (Some provider) R)
      else if typ = ''generic'' then create_secret_row E r name typ None R
      else (s_error 422 ''type must be generic or api_key'', R))"

definition my_secret :: "uuid \<Rightarrow> uuid \<Rightarrow> secret_row \<Rightarrow> bool" where
  "my_secret i ws s \<longleftrightarrow> sk_id s = i \<and> sk_workspace_id s = ws"

definition rotateSecret :: resource_handler where
  "rotateSecret E db r R =
     (case ae_uuid_Parse (re_api E) (PathValue r ''id'') of
        None \<Rightarrow> (s_error 400 ''invalid secret id'', R)
      | Some i \<Rightarrow>
          if \<not> strings_ok r [''value''] \<or> TrimSpace (string_field r ''value'') = []
          then (s_error 400 ''value is required'', R)
          else (case SealSecret (re_aead E) (re_vault E) (rq_rand r) (TrimSpace (string_field r ''value'')) of
              Inl _ \<Rightarrow> (s_error 500 [], R)
            | Inr sealed \<Rightarrow>
                if \<not> list_ex (my_secret i (workspace r)) (secrets R) then (s_error 404 ''secret not found'', R)
                else (s_json 200 (JObj [(''id'', JStr (uuid_String (re_X E) i))]),
                  R\<lparr>secrets := map (\<lambda>s. if my_secret i (workspace r) s
                       then s\<lparr>sk_encrypted_data := sealed, sk_key_id := KeyID\<rparr> else s) (secrets R)\<rparr>)))"

text \<open>The loop over \<^verbatim>\<open>append(refs, textRefs...)\<close> keeps the first occurrence of each name.\<close>

definition first_occurrences :: "string list \<Rightarrow> string list" where
  "first_occurrences ns = foldl (\<lambda>al n. if n \<in> set al then al else al @ [n]) [] ns"

definition in_use :: "string \<Rightarrow> string list \<Rightarrow> response" where
  "in_use msg ns =
     s_json 409 (JObj [(''error'', JStr (msg @ '' is used by '' @ Itoa (int (length ns)) @ '' workflow(s)'')),
       (''workflows'', JArr (map JStr ns))])"

definition deleteSecret :: resource_handler where
  "deleteSecret E db r R =
     (case ae_uuid_Parse (re_api E) (PathValue r ''id'') of
        None \<Rightarrow> (s_error 400 ''invalid secret id'', R)
      | Some i \<Rightarrow>
          (case find (my_secret i (workspace r)) (secrets R) of
             None \<Rightarrow> (s_error 404 ''secret not found'', R)
           | Some s \<Rightarrow>
               (case referencingWorkflows E db r ''ai.%'' ''api_key'' (sk_name s) of
                  None \<Rightarrow> (s_error 500 [], R)
                | Some refs \<Rightarrow>
                    let al = first_occurrences (refs @ workflowsMentioning E db r (sk_name s)) in
                    if al \<noteq> [] then (in_use (''secret '' @ quoted (sk_name s)) al, R)
                    else (WriteHeader 204,
                      R\<lparr>secrets := filter (\<lambda>s. \<not> my_secret i (workspace r) s) (secrets R)\<rparr>))))"

section \<open>MCP servers\<close>

definition workspace_servers :: "resources \<Rightarrow> uuid \<Rightarrow> mcp_row list" where
  "workspace_servers R ws = filter (\<lambda>m. mc_workspace_id m = ws) (mcp_servers R)"

definition listMCPServers :: resource_handler where
  "listMCPServers E db r R =
     (s_json 200 (JArr (map (\<lambda>m. JObj
        [(''id'', JStr (uuid_String (re_X E) (mc_id m))), (''name'', JStr (mc_name m)), (''url'', JStr (mc_url m)),
         (''has_auth'', JBool (mc_auth_encrypted m \<noteq> None)), (''is_enabled'', JBool (mc_is_enabled m))])
        (sort_key (\<lambda>m. re_collation_key E (mc_name m)) (workspace_servers R (workspace r))))), R)"

definition server_url_ok :: "string \<Rightarrow> bool" where
  "server_url_ok u \<longleftrightarrow> HasPrefix u ''http://'' \<or> HasPrefix u ''https://''"

definition mcpServerReq_ok :: "request \<Rightarrow> bool" where
  "mcpServerReq_ok r \<longleftrightarrow>
     strings_ok r [''name'', ''url''] \<and> opt_strings_ok r [''auth_header''] \<and> opt_bools_ok r [''is_enabled'']"

definition mcpServerReq_validate :: "request \<Rightarrow> string option" where
  "mcpServerReq_validate r =
     (if TrimSpace (string_field r ''name'') = [] then Some ''name is required''
      else if \<not> server_url_ok (TrimSpace (string_field r ''url''))
      then Some ''url must start with http:// or https://''
      else None)"

definition sealAuth :: "resource_env \<Rightarrow> request \<Rightarrow> string option result" where
  "sealAuth E r =
     (case opt_string_field r ''auth_header'' of
        None \<Rightarrow> Inr None
      | Some h \<Rightarrow>
          if TrimSpace h = [] then Inr None
          else rbind (Encrypt (re_aead E) (re_vault E) (rq_rand r) (TrimSpace h)) (\<lambda>b. Inr (Some b)))"

definition mcp_name_taken :: "mcp_row \<Rightarrow> mcp_row list \<Rightarrow> bool" where
  "mcp_name_taken m ms \<longleftrightarrow>
     (\<exists>m' \<in> set ms. mc_id m' \<noteq> mc_id m \<and> mc_workspace_id m' = mc_workspace_id m \<and> mc_name m' = mc_name m)"

definition insert_mcp :: "mcp_row \<Rightarrow> resources \<Rightarrow> resources result" where
  "insert_mcp m R =
     (if mc_id m \<in> mc_id ` set (mcp_servers R) \<or> mcp_name_taken m (mcp_servers R) then Inl UniqueViolation
      else Inr (R\<lparr>mcp_servers := mcp_servers R @ [m]\<rparr>))"

definition createMCPServer :: resource_handler where
  "createMCPServer E db r R =
     (if \<not> mcpServerReq_ok r then (s_error 400 ''invalid body'', R)
      else case mcpServerReq_validate r of
        Some e \<Rightarrow> (s_error 422 e, R)
      | None \<Rightarrow>
          (case sealAuth E r of
             Inl _ \<Rightarrow> (s_error 500 [], R)
           | Inr sealed \<Rightarrow>
               let m = \<lparr>mc_id = gen_random_uuid (re_X E) (map mc_id (mcp_servers R)), mc_workspace_id = workspace r,
                        mc_name = TrimSpace (string_field r ''name''), mc_url = TrimSpace (string_field r ''url''),
                        mc_auth_encrypted = sealed, mc_key_id = Some KeyID, mc_is_enabled = True,
                        mc_created_by = userIDOrNil (authFrom r)\<rparr> in
               (case insert_mcp m R of
                  Inl _ \<Rightarrow> (s_error 409 (''an MCP server named '' @ quoted (string_field r ''name'') @ '' already exists''), R)
                | Inr R' \<Rightarrow> (s_json 201 (JObj [(''id'', JStr (uuid_String (re_X E) (mc_id m)))]), R'))))"

definition tools_response :: "tool_info list result \<Rightarrow> response" where
  "tools_response res =
     (case res of
        Inl e \<Rightarrow> s_json 502 (JObj [(''error'', JStr (err_text e))])
      | Inr tools \<Rightarrow> s_json 200 (JArr (map tool_json tools)))"

definition testMCPServer :: resource_handler where
  "testMCPServer E db r R =
     (if \<not> strings_ok r [''url''] \<or> \<not> opt_strings_ok r [''auth_header''] then (s_error 400 ''invalid body'', R)
      else let url = TrimSpace (string_field r ''url'') in
        if \<not> server_url_ok url then (s_error 422 ''url must start with http:// or https://'', R)
        else (tools_response (ListTools (re_sdk E) url
            (case opt_string_field r ''auth_header'' of None \<Rightarrow> [] | Some h \<Rightarrow> TrimSpace h)), R))"

definition my_mcp :: "uuid \<Rightarrow> uuid \<Rightarrow> mcp_row \<Rightarrow> bool" where
  "my_mcp i ws m \<longleftrightarrow> mc_id m = i \<and> mc_workspace_id m = ws"

definition update_mcp :: "uuid \<Rightarrow> uuid \<Rightarrow> (mcp_row \<Rightarrow> mcp_row) \<Rightarrow> resources \<Rightarrow> resources result" where
  "update_mcp i ws f R =
     (let ms = map (\<lambda>m. if my_mcp i ws m then f m else m) (mcp_servers R) in
      if list_ex (\<lambda>m. my_mcp i ws m \<and> mcp_name_taken m ms) ms then Inl UniqueViolation
      else Inr (R\<lparr>mcp_servers := ms\<rparr>))"

definition write_mcp :: "resource_env \<Rightarrow> request \<Rightarrow> uuid \<Rightarrow> resources \<Rightarrow> response \<times> resources" where
  "write_mcp E r i R =
     (let enabled = (case opt_bool_field r ''is_enabled'' of Some b \<Rightarrow> b | None \<Rightarrow> True);
          f = (\<lambda>m. m\<lparr>mc_name := TrimSpace (string_field r ''name''), mc_url := TrimSpace (string_field r ''url''),
                     mc_is_enabled := enabled\<rparr>);
          done' = (\<lambda>res. case res of
             Inl e \<Rightarrow> (s_error 409 (err_text e), R)
           | Inr R' \<Rightarrow> (s_json 200 (JObj [(''id'', JStr (uuid_String (re_X E) i))]), R')) in
      if opt_string_field r ''auth_header'' \<noteq> None
      then (case sealAuth E r of
          Inl _ \<Rightarrow> (s_error 500 [], R)
        | Inr sealed \<Rightarrow> done' (update_mcp i (workspace r) (\<lambda>m. (f m)\<lparr>mc_auth_encrypted := sealed\<rparr>) R))
      else done' (update_mcp i (workspace r) f R))"

definition updateMCPServer :: resource_handler where
  "updateMCPServer E db r R =
     (case ae_uuid_Parse (re_api E) (PathValue r ''id'') of
        None \<Rightarrow> (s_error 400 ''invalid mcp server id'', R)
      | Some i \<Rightarrow>
          if \<not> mcpServerReq_ok r then (s_error 400 ''invalid body'', R)
          else case mcpServerReq_validate r of
            Some e \<Rightarrow> (s_error 422 e, R)
          | None \<Rightarrow>
              (case find (my_mcp i (workspace r)) (mcp_servers R) of
                 None \<Rightarrow> (s_error 404 ''mcp server not found'', R)
               | Some m \<Rightarrow>
                   if mc_name m \<noteq> TrimSpace (string_field r ''name'')
                   then (case referencingWorkflows E db r ''mcp.%'' ''server'' (mc_name m) of
                       None \<Rightarrow> (s_error 500 [], R)
                     | Some refs \<Rightarrow>
                         if refs \<noteq> [] then (in_use (''cannot rename: '' @ quoted (mc_name m)) refs, R)
                         else write_mcp E r i R)
                   else write_mcp E r i R))"

definition deleteMCPServer :: resource_handler where
  "deleteMCPServer E db r R =
     (case ae_uuid_Parse (re_api E) (PathValue r ''id'') of
        None \<Rightarrow> (s_error 400 ''invalid mcp server id'', R)
      | Some i \<Rightarrow>
          (case find (my_mcp i (workspace r)) (mcp_servers R) of
             None \<Rightarrow> (s_error 404 ''mcp server not found'', R)
           | Some m \<Rightarrow>
               (case referencingWorkflows E db r ''mcp.%'' ''server'' (mc_name m) of
                  None \<Rightarrow> (s_error 500 [], R)
                | Some refs \<Rightarrow>
                    if refs \<noteq> [] then (in_use (''MCP server '' @ quoted (mc_name m)) refs, R)
                    else (WriteHeader 204,
                      R\<lparr>mcp_servers := filter (\<lambda>m. \<not> my_mcp i (workspace r) m) (mcp_servers R)\<rparr>))))"

definition listMCPServerTools :: resource_handler where
  "listMCPServerTools E db r R =
     (case ae_uuid_Parse (re_api E) (PathValue r ''id'') of
        None \<Rightarrow> (s_error 400 ''invalid mcp server id'', R)
      | Some i \<Rightarrow>
          (case find (my_mcp i (workspace r)) (mcp_servers R) of
             None \<Rightarrow> (s_error 404 ''mcp server not found'', R)
           | Some m \<Rightarrow>
               (case resolve_Server (re_aead E) (re_vault E) R (workspace r) (mc_name m) of
                  Inl e \<Rightarrow> (s_error 422 (err_text e), R)
                | Inr (url, auth) \<Rightarrow> (tools_response (ListTools (re_sdk E) url auth), R))))"

definition resourceRoutes :: "(string \<times> resource_handler) list" where
  "resourceRoutes =
     [(''GET /v1/secrets'', listSecrets), (''POST /v1/secrets'', createSecret),
      (''PUT /v1/secrets/{id}'', rotateSecret), (''DELETE /v1/secrets/{id}'', deleteSecret),
      (''GET /v1/mcp-servers'', listMCPServers), (''POST /v1/mcp-servers'', createMCPServer),
      (''POST /v1/mcp-servers/test'', testMCPServer), (''PUT /v1/mcp-servers/{id}'', updateMCPServer),
      (''DELETE /v1/mcp-servers/{id}'', deleteMCPServer), (''GET /v1/mcp-servers/{id}/tools'', listMCPServerTools)]"

end
