(* ===== verification/Resources_Facts.thy ===== *)
theory Resources_Facts
  imports Resources_Api
begin

text \<open>
  What the resource handlers guarantee: the rows stay well typed under every sequence of requests (a
  locale for a route that keeps the invariant, interpreted for every route), a stored secret is the
  value the engine binds and redacts, a secret some current definition refers to is not deleted, and
  an MCP server resolves to what was saved.
\<close>

section \<open>Well-typed rows\<close>

definition provider_fits :: "string \<Rightarrow> string option \<Rightarrow> bool" where
  "provider_fits typ provider \<longleftrightarrow>
     (case provider of None \<Rightarrow> typ = ''generic'' | Some p \<Rightarrow> typ = ''api_key'' \<and> allowedProviders p)"

lemma provider_fits_simps [simp]:
  "provider_fits ''generic'' None" "provider_fits ''api_key'' (Some p) = allowedProviders p"
  by (simp_all add: provider_fits_def)

definition secret_ok :: "secret_row \<Rightarrow> bool" where
  "secret_ok s \<longleftrightarrow>
     secretNamePattern (sk_name s) \<and> sk_key_id s = KeyID \<and> provider_fits (sk_type s) (sk_provider s)"

definition mcp_ok :: "mcp_row \<Rightarrow> bool" where
  "mcp_ok m \<longleftrightarrow> mc_name m \<noteq> [] \<and> server_url_ok (mc_url m)"

definition secret_slot :: "secret_row \<Rightarrow> uuid \<times> string" where
  "secret_slot s = (sk_workspace_id s, sk_name s)"

definition mcp_slot :: "mcp_row \<Rightarrow> uuid \<times> string" where
  "mcp_slot m = (mc_workspace_id m, mc_name m)"

definition resources_ok :: "resources \<Rightarrow> bool" where
  "resources_ok R \<longleftrightarrow>
     distinct (map sk_id (secrets R)) \<and> distinct (map secret_slot (secrets R)) \<and> list_all secret_ok (secrets R) \<and>
     distinct (map mc_id (mcp_servers R)) \<and> distinct (map mcp_slot (mcp_servers R)) \<and> list_all mcp_ok (mcp_servers R)"

definition empty_resources :: resources where
  "empty_resources = \<lparr>secrets = [], mcp_servers = []\<rparr>"

lemma secret_ok_reseal: "secret_ok s \<Longrightarrow> secret_ok (s\<lparr>sk_encrypted_data := d, sk_key_id := KeyID\<rparr>)"
  by (simp add: secret_ok_def)

lemma resources_ok_filter:
  "resources_ok R \<Longrightarrow> resources_ok (R\<lparr>secrets := filter P (secrets R)\<rparr>)"
  "resources_ok R \<Longrightarrow> resources_ok (R\<lparr>mcp_servers := filter Q (mcp_servers R)\<rparr>)"
  by (auto simp: resources_ok_def distinct_map_filter list_all_iff)

lemma insert_secret_ok:
  assumes "insert_secret s R = Inr R'" "resources_ok R" "secret_ok s"
  shows "resources_ok R'"
proof -
  have new: "sk_id s \<notin> sk_id ` set (secrets R)"
    "\<not> (\<exists>s' \<in> set (secrets R). sk_workspace_id s' = sk_workspace_id s \<and> sk_name s' = sk_name s)"
    and R': "R' = R\<lparr>secrets := secrets R @ [s]\<rparr>"
    using assms(1) by (auto simp: insert_secret_def split: if_splits)
  have "secret_slot s \<notin> secret_slot ` set (secrets R)"
  proof
    assume "secret_slot s \<in> secret_slot ` set (secrets R)"
    then obtain s' where "s' \<in> set (secrets R)" "secret_slot s = secret_slot s'" by blast
    with new(2) show False by (auto simp: secret_slot_def)
  qed
  with new(1) R' assms(2,3) show ?thesis by (simp add: resources_ok_def)
qed

lemma insert_mcp_ok:
  assumes "insert_mcp m R = Inr R'" "resources_ok R" "mcp_ok m"
  shows "resources_ok R'"
proof -
  have new: "mc_id m \<notin> mc_id ` set (mcp_servers R)" "\<not> mcp_name_taken m (mcp_servers R)"
    and R': "R' = R\<lparr>mcp_servers := mcp_servers R @ [m]\<rparr>"
    using assms(1) by (auto simp: insert_mcp_def split: if_splits)
  have "mcp_slot m \<notin> mcp_slot ` set (mcp_servers R)"
  proof
    assume "mcp_slot m \<in> mcp_slot ` set (mcp_servers R)"
    then obtain m' where m': "m' \<in> set (mcp_servers R)" "mcp_slot m = mcp_slot m'" by blast
    then have "mc_id m' \<noteq> mc_id m" using new(1) by (metis imageI)
    with m' have "mcp_name_taken m (mcp_servers R)"
      unfolding mcp_name_taken_def by (intro bexI [of _ m']) (simp_all add: mcp_slot_def)
    with new(2) show False by simp
  qed
  with new(1) R' assms(2,3) show ?thesis by (simp add: resources_ok_def)
qed

lemma update_mcp_ok:
  assumes upd: "update_mcp i ws f R = Inr R'" and ok: "resources_ok R"
    and f: "\<And>m. mc_id (f m) = mc_id m" "\<And>m. mc_workspace_id (f m) = mc_workspace_id m" "\<And>m. mcp_ok (f m)"
  shows "resources_ok R'"
proof -
  let ?ms = "map (\<lambda>m. if my_mcp i ws m then f m else m) (mcp_servers R)"
  have R': "R' = R\<lparr>mcp_servers := ?ms\<rparr>" and free: "\<forall>m \<in> set ?ms. my_mcp i ws m \<longrightarrow> \<not> mcp_name_taken m ?ms"
    using upd by (auto simp: update_mcp_def Let_def list_ex_iff split: if_splits)
  have ids: "map mc_id ?ms = map mc_id (mcp_servers R)" using f(1) by auto
  have my: "my_mcp i ws (f m) = my_mcp i ws m" for m using f(1,2) by (simp add: my_mcp_def)
  have "inj_on mcp_slot (set ?ms)"
  proof (rule inj_onI)
    fix a b assume a: "a \<in> set ?ms" and b: "b \<in> set ?ms" and same: "mcp_slot a = mcp_slot b"
    have dist: "a = b" if "mc_id a = mc_id b"
      using ok that a b distinct_map_inj_on_set [of mc_id ?ms a b] unfolding ids by (simp add: resources_ok_def)
    have taken: "mc_id x = mc_id y" if "x \<in> set ?ms" "y \<in> set ?ms" "my_mcp i ws x" "mcp_slot x = mcp_slot y" for x y
      using bspec [OF free that(1)] that(2-4) unfolding mcp_name_taken_def mcp_slot_def by (metis prod.inject)
    show "a = b"
    proof (cases "my_mcp i ws a \<or> my_mcp i ws b")
      case True
      then have "mc_id a = mc_id b" using taken [OF a b] taken [OF b a] same by auto
      then show ?thesis by (rule dist)
    next
      case False
      obtain a0 where a0: "a0 \<in> set (mcp_servers R)" "a = (if my_mcp i ws a0 then f a0 else a0)" using a by auto
      obtain b0 where b0: "b0 \<in> set (mcp_servers R)" "b = (if my_mcp i ws b0 then f b0 else b0)" using b by auto
      have "a = a0" "b = b0" using False a0 b0 my by (auto split: if_splits)
      with ok a0 b0 same distinct_map_inj_on_set [of mcp_slot "mcp_servers R" a0 b0] show ?thesis
        by (simp add: resources_ok_def)
    qed
  qed
  moreover have "distinct ?ms"
    using ok ids by (metis distinct_map resources_ok_def)
  ultimately have "distinct (map mcp_slot ?ms)" by (simp only: distinct_map)
  moreover have "list_all mcp_ok ?ms" using ok f(3) by (auto simp: resources_ok_def list_all_iff)
  moreover have "distinct (map mc_id ?ms)" using ok unfolding ids by (simp add: resources_ok_def)
  ultimately show ?thesis using ok by (simp add: resources_ok_def R' del: map_map)
qed

locale resource_route =
  fixes h :: resource_handler
  assumes keeps_ok: "resources_ok R \<Longrightarrow> resources_ok (snd (h E db r R))"
begin

text \<open>Any sequence of requests to the route keeps the rows well typed, whatever the engine does in between.\<close>

lemma serve_all: "resources_ok R \<Longrightarrow> resources_ok (foldl (\<lambda>R (db, r). snd (h E db r R)) R rs)"
proof (induction rs arbitrary: R)
  case (Cons p rs)
  then show ?case using keeps_ok by (cases p) simp
qed simp

end

interpretation listSecrets_route: resource_route listSecrets
  by unfold_locales (simp add: listSecrets_def)

interpretation createSecret_route: resource_route createSecret
proof
  fix E db r R assume ok: "resources_ok R"
  have row: "resources_ok (snd (create_secret_row E r name ty provider R))"
    if "secretNamePattern name" "provider_fits ty provider"
    for name ty provider
    using ok that
    by (auto simp: create_secret_row_def Let_def secret_ok_def split: sum.splits intro!: insert_secret_ok [OF _ ok])
  show "resources_ok (snd (createSecret E db r R))" by (auto simp: createSecret_def Let_def ok intro!: row)
qed

interpretation rotateSecret_route: resource_route rotateSecret
proof
  fix E db r R assume ok: "resources_ok R"
  have "resources_ok (R\<lparr>secrets := map (\<lambda>s. if my_secret i ws s then s\<lparr>sk_encrypted_data := d, sk_key_id := KeyID\<rparr> else s) (secrets R)\<rparr>)"
    for i ws d
  proof -
    let ?f = "\<lambda>s. if my_secret i ws s then s\<lparr>sk_encrypted_data := d, sk_key_id := KeyID\<rparr> else s"
    have "map sk_id (map ?f (secrets R)) = map sk_id (secrets R)" "map secret_slot (map ?f (secrets R)) = map secret_slot (secrets R)"
      by (auto simp: secret_slot_def)
    moreover have "secret_ok (?f s)" if "s \<in> set (secrets R)" for s
      using ok that by (simp add: resources_ok_def list_all_iff secret_ok_reseal)
    then have "list_all secret_ok (map ?f (secrets R))" unfolding list_all_iff set_map by blast
    ultimately show ?thesis using ok by (simp add: resources_ok_def del: map_map map_eq_conv)
  qed
  with ok show "resources_ok (snd (rotateSecret E db r R))"
    by (auto simp: rotateSecret_def split: option.splits sum.splits)
qed

interpretation deleteSecret_route: resource_route deleteSecret
  by unfold_locales (auto simp: deleteSecret_def Let_def resources_ok_filter split: option.splits)

interpretation listMCPServers_route: resource_route listMCPServers
  by unfold_locales (simp add: listMCPServers_def)

interpretation createMCPServer_route: resource_route createMCPServer
  by unfold_locales
    (auto simp: createMCPServer_def mcpServerReq_validate_def mcp_ok_def Let_def insert_mcp_ok
      split: option.splits sum.splits if_splits)

interpretation testMCPServer_route: resource_route testMCPServer
  by unfold_locales (simp add: testMCPServer_def Let_def)

lemma write_mcp_ok:
  assumes ok: "resources_ok R" and valid: "mcpServerReq_validate r = None"
  shows "resources_ok (snd (write_mcp E r i R))"
proof -
  have row: "mcp_ok (m\<lparr>mc_name := TrimSpace (string_field r ''name''), mc_url := TrimSpace (string_field r ''url''), mc_is_enabled := b\<rparr>)"
    "mcp_ok (m\<lparr>mc_name := TrimSpace (string_field r ''name''), mc_url := TrimSpace (string_field r ''url''), mc_is_enabled := b,
       mc_auth_encrypted := a\<rparr>)" for m b a
    using valid by (simp_all add: mcpServerReq_validate_def mcp_ok_def split: if_splits)
  have "resources_ok R'" if "update_mcp i (workspace r) f R = Inr R'" "\<And>m. mc_id (f m) = mc_id m"
    "\<And>m. mc_workspace_id (f m) = mc_workspace_id m" "\<And>m. mcp_ok (f m)" for f R'
    using update_mcp_ok [OF that(1) ok that(2-)] .
  with ok row show ?thesis
    by (auto simp: write_mcp_def Let_def split: sum.splits)
qed

interpretation updateMCPServer_route: resource_route updateMCPServer
  by unfold_locales (auto simp: updateMCPServer_def write_mcp_ok split: option.splits)

interpretation deleteMCPServer_route: resource_route deleteMCPServer
  by unfold_locales (auto simp: deleteMCPServer_def resources_ok_filter split: option.splits)

interpretation listMCPServerTools_route: resource_route listMCPServerTools
  by unfold_locales (auto simp: listMCPServerTools_def split: option.splits sum.splits)

text \<open>A step is a request to one of the routes of \<^verbatim>\<open>resourceRoutes\<close>, at any state of the engine.\<close>

inductive resource_step :: "resource_env \<Rightarrow> resources \<Rightarrow> resources \<Rightarrow> bool" for E where
  serve: "(route, h) \<in> set resourceRoutes \<Longrightarrow> h E db r R = (resp, R') \<Longrightarrow> resource_step E R R'"

lemma resource_step_ok:
  assumes "resource_step E R R'" "resources_ok R"
  shows "resources_ok R'"
  using assms(1)
proof cases
  case (serve route h db r resp)
  then have "resource_route h"
    using listSecrets_route.resource_route_axioms createSecret_route.resource_route_axioms
      rotateSecret_route.resource_route_axioms deleteSecret_route.resource_route_axioms
      listMCPServers_route.resource_route_axioms createMCPServer_route.resource_route_axioms
      testMCPServer_route.resource_route_axioms updateMCPServer_route.resource_route_axioms
      deleteMCPServer_route.resource_route_axioms listMCPServerTools_route.resource_route_axioms
    by (auto simp: resourceRoutes_def)
  from resource_route.keeps_ok [OF this assms(2), of E db r] serve(2) show ?thesis by simp
qed


section \<open>A sample environment\<close>

text \<open>A cipher that appends the key to the plaintext stands for AES-GCM.\<close>

definition demo_aead :: aead where
  "demo_aead = \<lparr>gcm_Seal = (\<lambda>k n p. p @ k),
     gcm_Open = (\<lambda>k n c. let p = take (length c - length k) c in if c = p @ k then Some p else None)\<rparr>"

lemma demo_aead_opens: "opens_what_it_seals demo_aead"
  by (simp add: opens_what_it_seals_def demo_aead_def)

definition demo_vault :: vault where
  "demo_vault = \<lparr>vt_key = replicate 32 (CHR ''k''), vt_usingDevKey = False\<rparr>"

definition demo_api :: api_env where
  "demo_api = \<lparr>ae_IDKey = (\<lambda>pw salt it m p n. []), ae_uuid_Parse = (\<lambda>s. if s = ''1'' then Some 1 else None), ae_timestamptz_text = (\<lambda>t. [])\<rparr>"

definition demo_payload_X :: externals where
  "demo_payload_X = \<lparr>gen_random_uuid = (\<lambda>ids. Suc (foldl max 0 ids)), uuid_String = nat_digits,
     jsonb_ok = (\<lambda>_. True),
     json_Unmarshal = (\<lambda>s. if s = payload_text ''hunter2'' then Inr (JObj [(''value'', JStr ''hunter2'')]) else Inl type_error),
     goja_RunString = (\<lambda>_ _. Inr JNull), sha256_Sum256 = (\<lambda>s. s)\<rparr>"

definition demo_resource_env :: resource_env where
  "demo_resource_env = \<lparr>re_X = demo_payload_X, re_api = demo_api, re_aead = demo_aead, re_vault = demo_vault,
     re_sdk = \<lparr>sdk_Connect = (\<lambda>u h. Inr (u, h)), sdk_ListTools = (\<lambda>s. Inr []),
       sdk_CallTool = (\<lambda>s t a. Inr \<lparr>cr_Content = [], cr_IsError = False, cr_StructuredContent = None\<rparr>)\<rparr>,
     re_jsonb_text = (\<lambda>j. case Marshal j of Inr s \<Rightarrow> s | Inl _ \<Rightarrow> []), re_collation_key = (\<lambda>s. s)\<rparr>"


definition demo_member :: authInfo where
  "demo_member = \<lparr>a_Kind = principalSession, a_UserID = 2, a_Email = [], a_UserName = None, a_WorkspaceID = 7,
     a_WorkspaceName = [], a_WorkspaceSlug = [], a_Role = ''member'', a_MustChangePassword = False, a_sessionTokenHash = []\<rparr>"

definition demo_resource_request :: "(string \<times> string) list \<Rightarrow> (string \<times> json) list \<Rightarrow> request" where
  "demo_resource_request vals body =
     \<lparr>rq_now = 5, rq_salt = None, rq_rand = Some (replicate 12 (CHR ''n'')), rq_path = [], rq_values = vals, rq_query = [],
      rq_header = [], rq_cookie = None, rq_remote_addr = [], rq_tls = False, rq_raw = [], rq_body = Some (JObj body),
      rq_auth = Some demo_member\<rparr>"

definition demo_create :: request where
  "demo_create = demo_resource_request []
     [(''name'', JStr ''db''), (''type'', JStr ''generic''), (''value'', JStr '' hunter2'')]"

definition demo_stored :: resources where
  "demo_stored = snd (createSecret demo_resource_env demo_db demo_create empty_resources)"

section \<open>Properties\<close>

text \<open>
  C21. Rows stay well typed. Through any sequence of requests to the resource routes, interleaved with
  anything the engine does, names are unique within a workspace, every secret is named by letters,
  digits, underscores and dashes, an API key has one of the known providers and no other secret has
  one, and every MCP server has a name and an http or https address.
\<close>

theorem resource_rows_stay_well_typed:
  assumes "(resource_step E)\<^sup>*\<^sup>* R R'" and "resources_ok R"
  shows "resources_ok R'"
  using assms by (induction rule: rtranclp_induct) (auto intro: resource_step_ok)

theorem resource_rows_stay_well_typed_witness: "resources_ok demo_stored"
proof (rule resource_rows_stay_well_typed)
  have "createSecret demo_resource_env demo_db demo_create empty_resources =
      (fst (createSecret demo_resource_env demo_db demo_create empty_resources), demo_stored)"
    by (simp add: demo_stored_def)
  then have "resource_step demo_resource_env empty_resources demo_stored"
    by (rule resource_step.serve [rotated]) (simp add: resourceRoutes_def, blast)
  then show "(resource_step demo_resource_env)\<^sup>*\<^sup>* empty_resources demo_stored" by blast
  show "resources_ok empty_resources" by (simp add: resources_ok_def empty_resources_def)
qed

lemma workspace_names_distinct: "resources_ok R \<Longrightarrow> distinct (map sk_name (workspace_rows R ws))"
proof -
  assume "resources_ok R"
  then have "distinct (map secret_slot (workspace_rows R ws))"
    by (simp add: resources_ok_def workspace_rows_def distinct_map_filter)
  then have "distinct (map snd (map secret_slot (workspace_rows R ws)))"
    by (subst distinct_map) (auto simp: inj_on_def workspace_rows_def secret_slot_def)
  then show ?thesis by (simp add: secret_slot_def comp_def)
qed

text \<open>A row of the workspace holds a sealed value, and every other row opens: the map has the value.\<close>

lemma workspace_binds:
  assumes ok: "resources_ok R" and s: "s \<in> set (secrets R)" "sk_workspace_id s = ws"
    and this_opens: "openSecret X A v (sk_name s) (sk_encrypted_data s) = Inr val"
    and others: "\<forall>q \<in> set (secrets R). sk_workspace_id q = ws \<and> sk_name q \<noteq> sk_name s \<longrightarrow>
      (\<exists>x. openSecret X A v (sk_name q) (sk_encrypted_data q) = Inr x)"
  shows "\<exists>out. WorkspaceSecrets X A v R ws = Inr out \<and> map_of out (sk_name s) = Some val"
proof -
  note dist = workspace_names_distinct [OF ok, of ws]
  have mem: "s \<in> set (workspace_rows R ws)" using s by (simp add: workspace_rows_def)
  have "q = s" if "q \<in> set (workspace_rows R ws)" "sk_name q = sk_name s" for q
    using distinct_map_inj_on_set [OF dist that(1) mem that(2)] .
  then have "\<forall>q \<in> set (workspace_rows R ws). \<exists>x. openSecret X A v (sk_name q) (sk_encrypted_data q) = Inr x"
    using this_opens others by (auto simp: workspace_rows_def)
  then obtain out where out: "WorkspaceSecrets X A v R ws = Inr out"
    using WorkspaceSecrets_Inr_iff [OF dist] by blast
  from WorkspaceSecrets_lookup [OF out dist mem] this_opens out show ?thesis by auto
qed

lemma createSecret_201:
  assumes "createSecret E db r R = (resp, R')" "rs_status resp = 201"
  obtains (stored) sealed s where
    "SealSecret (re_aead E) (re_vault E) (rq_rand r) (TrimSpace (string_field r ''value'')) = Inr sealed"
    "R' = R\<lparr>secrets := secrets R @ [s]\<rparr>" "sk_workspace_id s = workspace r"
    "sk_name s = TrimSpace (string_field r ''name'')" "sk_encrypted_data s = sealed"
proof -
  have row: thesis if "create_secret_row E r (TrimSpace (string_field r ''name'')) ty p R = (resp, R')" for ty p
  proof -
    show thesis
    proof (cases "SealSecret (re_aead E) (re_vault E) (rq_rand r) (TrimSpace (string_field r ''value''))")
      case (Inl e)
      with that assms(2) show ?thesis by (auto simp: create_secret_row_def s_error_def s_json_def)
    next
      case (Inr sealed)
      let ?s = "\<lparr>sk_id = gen_random_uuid (re_X E) (map sk_id (secrets R)), sk_workspace_id = workspace r,
         sk_name = TrimSpace (string_field r ''name''), sk_type = ty, sk_provider = p, sk_encrypted_data = sealed,
         sk_key_id = KeyID, sk_created_by = userIDOrNil (authFrom r)\<rparr>"
      have "insert_secret ?s R = Inr R'"
        using that assms(2) Inr
        by (cases "insert_secret ?s R") (auto simp: create_secret_row_def Let_def s_error_def s_json_def)
      then have "R' = R\<lparr>secrets := secrets R @ [?s]\<rparr>" by (simp add: insert_secret_def split: if_splits)
      then show ?thesis by (rule stored [OF Inr]) simp_all
    qed
  qed
  show thesis
    using assms row by (auto simp: createSecret_def Let_def s_error_def s_json_def split: if_splits)
qed


lemma rotateSecret_200:
  assumes "rotateSecret E db r R = (resp, R')" "rs_status resp = 200"
  obtains (rotated) i sealed where "ae_uuid_Parse (re_api E) (PathValue r ''id'') = Some i"
    "SealSecret (re_aead E) (re_vault E) (rq_rand r) (TrimSpace (string_field r ''value'')) = Inr sealed"
    "R' = R\<lparr>secrets := map (\<lambda>s. if my_secret i (workspace r) s
       then s\<lparr>sk_encrypted_data := sealed, sk_key_id := KeyID\<rparr> else s) (secrets R)\<rparr>"
  using assms
  by (auto simp: rotateSecret_def s_error_def s_json_def split: option.splits sum.splits if_splits)

text \<open>
  C19. What is stored is what tasks are given. After a secret has been created, or its value rotated,
  under a name, loading the secrets of the workspace, which the engine does before every task to bind
  and to redact them, gives exactly the submitted value, without the surrounding white space, for
  that name; provided the cipher opens what it sealed, the random source filled the nonce, the JSON
  decoder inverts the encoder on this value, and the other secrets of the workspace still open.
\<close>

theorem stored_secret_is_what_tasks_get:
  assumes stored: "createSecret E db r R = (resp, R') \<and> rs_status resp = 201 \<and> name = TrimSpace (string_field r ''name'') \<or>
      rotateSecret E db r R = (resp, R') \<and> rs_status resp = 200 \<and>
      (\<exists>i s. ae_uuid_Parse (re_api E) (PathValue r ''id'') = Some i \<and> s \<in> set (secrets R) \<and> my_secret i (workspace r) s \<and> name = sk_name s)"
    and ok: "resources_ok R" and cipher: "opens_what_it_seals (re_aead E)"
    and nonce: "rq_rand r = Some bytes" "NonceSize \<le> length bytes"
    and codec: "decodes_payload (re_X E) (TrimSpace (string_field r ''value''))"
    and others: "\<forall>q \<in> set (secrets R). sk_workspace_id q = workspace r \<and> sk_name q \<noteq> name \<longrightarrow>
      (\<exists>x. openSecret (re_X E) (re_aead E) (re_vault E) (sk_name q) (sk_encrypted_data q) = Inr x)"
  shows "\<exists>out. WorkspaceSecrets (re_X E) (re_aead E) (re_vault E) R' (workspace r) = Inr out \<and>
    map_of out name = Some (TrimSpace (string_field r ''value''))"
proof -
  have opened: "openSecret (re_X E) (re_aead E) (re_vault E) n sealed = Inr (TrimSpace (string_field r ''value''))"
    if "SealSecret (re_aead E) (re_vault E) (rq_rand r) (TrimSpace (string_field r ''value'')) = Inr sealed" for sealed n
    using openSecret_SealSecret [OF cipher _ nonce(2) codec] that nonce(1) by simp
  from stored show ?thesis
  proof (elim disjE conjE exE)
    assume c: "createSecret E db r R = (resp, R')" "rs_status resp = 201" and name: "name = TrimSpace (string_field r ''name'')"
    have "resources_ok R'" using createSecret_route.keeps_ok [OF ok, of E db r] c(1) by simp
    moreover obtain sealed s where s: "SealSecret (re_aead E) (re_vault E) (rq_rand r) (TrimSpace (string_field r ''value'')) = Inr sealed"
      "R' = R\<lparr>secrets := secrets R @ [s]\<rparr>" "sk_workspace_id s = workspace r" "sk_name s = name" "sk_encrypted_data s = sealed"
      using createSecret_201 [OF c] name by metis
    moreover have "\<forall>q \<in> set (secrets R'). sk_workspace_id q = workspace r \<and> sk_name q \<noteq> sk_name s \<longrightarrow>
        (\<exists>x. openSecret (re_X E) (re_aead E) (re_vault E) (sk_name q) (sk_encrypted_data q) = Inr x)"
      using others s(2,4) by auto
    ultimately show ?thesis
      using workspace_binds [of R' s "workspace r"] opened [OF s(1)] by auto
  next
    fix i s
    assume c: "rotateSecret E db r R = (resp, R')" "rs_status resp = 200"
      and i: "ae_uuid_Parse (re_api E) (PathValue r ''id'') = Some i"
      and s: "s \<in> set (secrets R)" "my_secret i (workspace r) s" "name = sk_name s"
    have ok': "resources_ok R'" using rotateSecret_route.keeps_ok [OF ok, of E db r] c(1) by simp
    from c show ?thesis
    proof (rule rotateSecret_200)
      fix i' sealed
      assume i': "ae_uuid_Parse (re_api E) (PathValue r ''id'') = Some i'"
        and seal: "SealSecret (re_aead E) (re_vault E) (rq_rand r) (TrimSpace (string_field r ''value'')) = Inr sealed"
        and R': "R' = R\<lparr>secrets := map (\<lambda>s. if my_secret i' (workspace r) s
           then s\<lparr>sk_encrypted_data := sealed, sk_key_id := KeyID\<rparr> else s) (secrets R)\<rparr>"
      let ?s = "s\<lparr>sk_encrypted_data := sealed, sk_key_id := KeyID\<rparr>"
      have "?s \<in> set (secrets R')" using s i i' by (auto simp: R')
      moreover have "\<exists>x. openSecret (re_X E) (re_aead E) (re_vault E) (sk_name q) (sk_encrypted_data q) = Inr x"
        if q: "q \<in> set (secrets R')" "sk_workspace_id q = workspace r" "sk_name q \<noteq> name" for q
      proof -
        obtain p where p: "p \<in> set (secrets R)"
          "q = (if my_secret i' (workspace r) p then p\<lparr>sk_encrypted_data := sealed, sk_key_id := KeyID\<rparr> else p)"
          using q(1) by (auto simp: R')
        show ?thesis using others opened [OF seal] p q(2,3) by (cases "my_secret i' (workspace r) p") auto
      qed
      ultimately show ?thesis
        using workspace_binds [OF ok', of ?s "workspace r"] opened [OF seal] s(2,3) by (auto simp: my_secret_def)
    qed
  qed
qed

theorem stored_secret_is_what_tasks_get_witness:
  "\<exists>out. WorkspaceSecrets demo_payload_X demo_aead demo_vault demo_stored 7 = Inr out \<and> map_of out ''db'' = Some ''hunter2''"
proof -
  let ?E = demo_resource_env
  let ?res = "fst (createSecret ?E demo_db demo_create empty_resources)"
  have c: "createSecret ?E demo_db demo_create empty_resources = (?res, demo_stored) \<and> rs_status ?res = 201 \<and>
      ''db'' = TrimSpace (string_field demo_create ''name'')"
  proof (intro conjI)
    show "createSecret ?E demo_db demo_create empty_resources = (?res, demo_stored)" by (simp add: demo_stored_def)
  qed code_simp+
  have v: "workspace demo_create = 7" "TrimSpace (string_field demo_create ''value'') = ''hunter2''" by code_simp+
  have E: "re_X ?E = demo_payload_X" "re_aead ?E = demo_aead" "re_vault ?E = demo_vault"
    by (simp_all add: demo_resource_env_def)
  note e = E v
  have h: "resources_ok empty_resources" "rq_rand demo_create = Some (replicate 12 (CHR ''n''))"
    "NonceSize \<le> length (replicate 12 (CHR ''n''))" "decodes_payload demo_payload_X ''hunter2''"
    "\<forall>q \<in> set (secrets empty_resources). sk_workspace_id q = 7 \<and> sk_name q \<noteq> ''db'' \<longrightarrow>
      (\<exists>x. openSecret demo_payload_X demo_aead demo_vault (sk_name q) (sk_encrypted_data q) = Inr x)"
    by (simp_all add: resources_ok_def empty_resources_def demo_create_def demo_resource_request_def NonceSize_def
        decodes_payload_def demo_payload_X_def)
  from stored_secret_is_what_tasks_get [of ?E demo_db demo_create empty_resources ?res demo_stored "''db''", OF disjI1 [OF c], unfolded e,
      OF h(1) demo_aead_opens h(2-5)] show ?thesis .
qed


text \<open>The search of the pattern, read as the pattern: the name in full, and not a longer one.\<close>

definition secret_ref :: "string \<Rightarrow> string" where
  "secret_ref name = ''secrets.'' @ name"

definition word_ends :: "string \<Rightarrow> bool" where
  "word_ends b \<longleftrightarrow> (case b of [] \<Rightarrow> True | c # _ \<Rightarrow> \<not> secret_name_char c)"

definition mentioned_in :: "string \<Rightarrow> string \<Rightarrow> bool" where
  "mentioned_in name txt0 \<longleftrightarrow> (\<exists>a b. txt0 = a @ secret_ref name @ b \<and> word_ends b)"

lemma mention_at_iff: "mention_at name s \<longleftrightarrow> (\<exists>b. s = secret_ref name @ b \<and> word_ends b)"
  by (auto simp: mention_at_def HasPrefix_iff secret_ref_def word_ends_def)

lemma mentioned_in_Cons:
  "mentioned_in name (c # s) \<longleftrightarrow> (\<exists>b. c # s = secret_ref name @ b \<and> word_ends b) \<or> mentioned_in name s"
proof
  assume "mentioned_in name (c # s)"
  then obtain a b where ab: "c # s = a @ secret_ref name @ b" "word_ends b" unfolding mentioned_in_def by (elim exE conjE)
  show "(\<exists>b. c # s = secret_ref name @ b \<and> word_ends b) \<or> mentioned_in name s"
    using ab by (cases a) (auto simp: mentioned_in_def)
next
  assume "(\<exists>b. c # s = secret_ref name @ b \<and> word_ends b) \<or> mentioned_in name s"
  then show "mentioned_in name (c # s)"
  proof (elim disjE exE conjE)
    fix b
    assume "c # s = secret_ref name @ b" "word_ends b"
    then show ?thesis unfolding mentioned_in_def by (intro exI [of _ "[]"] exI [of _ b]) simp
  next
    assume "mentioned_in name s"
    then obtain a b where "s = a @ secret_ref name @ b" "word_ends b" unfolding mentioned_in_def by (elim exE conjE)
    then show ?thesis unfolding mentioned_in_def by (intro exI [of _ "c # a"] exI [of _ b]) simp
  qed
qed

lemma mentions_iff: "mentions name s \<longleftrightarrow> mentioned_in name s"
proof (induction s)
  case Nil
  show ?case by (auto simp: mention_at_iff mentioned_in_def)
next
  case (Cons c s)
  then show ?case by (simp only: mentions.simps mention_at_iff mentioned_in_Cons)
qed

definition refers_to_secret :: "resource_env \<Rightarrow> string \<Rightarrow> json \<Rightarrow> bool" where
  "refers_to_secret E name d \<longleftrightarrow>
     (\<exists>st \<in> set (case step_elements d of Some xs \<Rightarrow> xs | None \<Rightarrow> []). step_refers E ''ai.%'' ''api_key'' name st) \<or>
     mentioned_in name (re_jsonb_text E d)"

lemma set_first_occurrences [simp]: "set (first_occurrences ns) = set ns"
proof -
  have "set (foldl (\<lambda>al n. if n \<in> set al then al else al @ [n]) acc ns) = set acc \<union> set ns" for acc
    by (induction ns arbitrary: acc) auto
  then show ?thesis by (simp add: first_occurrences_def)
qed

lemma first_occurrences_Nil [simp]: "first_occurrences ns = [] \<longleftrightarrow> ns = []"
  using set_first_occurrences [of ns] by (metis set_empty)

lemma sorted_names_Nil [simp]: "sorted_names E ns = [] \<longleftrightarrow> ns = []"
  by (simp add: sorted_names_def flip: set_empty)

text \<open>
  C20. A secret in use cannot be deleted. When the caller's workspace has the secret, a deletion removes
  exactly its row and answers 204 if and only if the reference query succeeds and no current
  definition of the workspace names the secret, as the \<^verbatim>\<open>api_key\<close> of an \<^verbatim>\<open>ai.*\<close> step or as
  \<^verbatim>\<open>secrets.<name>\<close> in its text, where a longer name that starts with this one does not count;
  otherwise nothing is deleted. The query fails when some current definition has a \<^verbatim>\<open>steps\<close> member
  that is no array.
\<close>

theorem secret_in_use_cannot_be_deleted:
  assumes "ae_uuid_Parse (re_api E) (PathValue r ''id'') = Some i"
    and "find (my_secret i (workspace r)) (secrets R) = Some s"
    and "deleteSecret E db r R = (resp, R')"
  shows "let defs = set (map snd (current_definitions db (workspace r)));
      failing = (\<exists>d \<in> defs. step_elements d = None); used = (\<exists>d \<in> defs. refers_to_secret E (sk_name s) d) in
    (if failing then rs_status resp = 500 \<and> R' = R
     else if used then rs_status resp = 409 \<and> R' = R
     else rs_status resp = 204 \<and> R' = R\<lparr>secrets := filter (\<lambda>s. \<not> my_secret i (workspace r) s) (secrets R)\<rparr>)"
proof -
  let ?defs = "current_definitions db (workspace r)"
  let ?steps = "\<lambda>d. case step_elements d of Some xs \<Rightarrow> xs | None \<Rightarrow> []"
  let ?refs = "filter (\<lambda>(n, d). list_ex (step_refers E ''ai.%'' ''api_key'' (sk_name s)) (?steps d)) ?defs"
  let ?text = "filter (\<lambda>(n, d). mentions (sk_name s) (re_jsonb_text E d)) ?defs"
  have failing: "list_ex (\<lambda>(n, d). step_elements d = None) ?defs = (\<exists>d \<in> set (map snd ?defs). step_elements d = None)"
    by (force simp: list_ex_iff)
  have "(?refs = [] \<and> ?text = []) = (\<not> (\<exists>d \<in> set (map snd ?defs). refers_to_secret E (sk_name s) d))"
    unfolding refers_to_secret_def by (fastforce simp: filter_empty_conv list_ex_iff mentions_iff)
  moreover have "deleteSecret E db r R =
      (if list_ex (\<lambda>(n, d). step_elements d = None) ?defs then (s_error 500 [], R)
       else let al = first_occurrences (sorted_names E (map fst ?refs) @ sorted_names E (map fst ?text)) in
         if al \<noteq> [] then (in_use (''secret '' @ quoted (sk_name s)) al, R)
         else (WriteHeader 204, R\<lparr>secrets := filter (\<lambda>s. \<not> my_secret i (workspace r) s) (secrets R)\<rparr>))"
    by (simp add: deleteSecret_def assms(1,2) referencingWorkflows_def workflowsMentioning_def)
  ultimately show ?thesis
    using assms(3) unfolding Let_def failing
    by (auto simp: s_error_def s_json_def WriteHeader_def in_use_def Let_def split: if_splits)
qed

definition demo_delete :: request where
  "demo_delete = demo_resource_request [(''id'', ''1'')] []"

theorem secret_in_use_cannot_be_deleted_witness:
  "rs_status (fst (deleteSecret demo_resource_env demo_db demo_delete demo_stored)) = 204"
proof -
  let ?s = "hd (secrets demo_stored)"
  have p: "ae_uuid_Parse (re_api demo_resource_env) (PathValue demo_delete ''id'') = Some 1"
    by (simp add: demo_resource_env_def demo_api_def demo_delete_def demo_resource_request_def PathValue_def)
  have st: "workspace demo_delete = 7" "current_definitions demo_db 7 = [(''w'', demo_json)]" "secrets demo_stored = [?s]"
    "my_secret 1 7 ?s" "sk_name ?s = ''db''" "step_elements demo_json \<noteq> None"
    by code_simp+
  have f: "find (my_secret 1 (workspace demo_delete)) (secrets demo_stored) = Some ?s"
    by (subst st(3)) (use st(1,4) in simp)
  have none: "\<not> refers_to_secret demo_resource_env ''db'' demo_json"
  proof -
    have "\<not> list_ex (step_refers demo_resource_env ''ai.%'' ''api_key'' ''db'') (case step_elements demo_json of Some xs \<Rightarrow> xs | None \<Rightarrow> [])"
      "\<not> mentions ''db'' (re_jsonb_text demo_resource_env demo_json)" by code_simp+
    then show ?thesis by (simp add: refers_to_secret_def mentions_iff list_ex_iff)
  qed
  have "deleteSecret demo_resource_env demo_db demo_delete demo_stored =
      (fst (deleteSecret demo_resource_env demo_db demo_delete demo_stored),
       snd (deleteSecret demo_resource_env demo_db demo_delete demo_stored))" by simp
  from secret_in_use_cannot_be_deleted [OF p f this] none show ?thesis
    unfolding Let_def st(1,2,5) using st(6) by simp
qed

end
