(* ===== verification/Gateway.thy ===== *)
theory Gateway
  imports Mcp_Server Resources_Facts
begin

text \<open>
  The API behind its door (\<^verbatim>\<open>cmd/api/main.go\<close>, \<^verbatim>\<open>Routes\<close> in \<^verbatim>\<open>internal/api/api.go\<close>): the patterns of the
  inner \<^verbatim>\<open>ServeMux\<close> and how a request is matched against them, and \<^verbatim>\<open>WithAuth\<close> in front of the routes over
  the engine's store. Paths are clean and their segments not percent-encoded.
\<close>

section \<open>Patterns\<close>

text \<open>A pattern is a method and segments; a segment in braces matches any segment but the empty one.\<close>

datatype segment = Literal string | Wildcard string

definition segment_of :: "string \<Rightarrow> segment" where
  "segment_of s = (case s of c # rest \<Rightarrow> if c = CHR ''{'' then Wildcard (butlast rest) else Literal s | [] \<Rightarrow> Literal [])"

fun split_on :: "char \<Rightarrow> string \<Rightarrow> string list" where
  "split_on c [] = [[]]"
| "split_on c (x # xs) = (if x = c then [] # split_on c xs
     else case split_on c xs of p # ps \<Rightarrow> (x # p) # ps | [] \<Rightarrow> [[x]])"

definition pattern_of :: "string \<Rightarrow> string \<times> segment list" where
  "pattern_of p = (takeWhile (\<lambda>c. c \<noteq> CHR '' '') p,
     map segment_of (split_on (CHR ''/'') (drop 1 (dropWhile (\<lambda>c. c \<noteq> CHR '' '') p))))"

fun match_segments :: "segment list \<Rightarrow> string list \<Rightarrow> (string \<times> string) list option" where
  "match_segments [] [] = Some []"
| "match_segments (Literal l # ps) (s # ss) = (if l = s then match_segments ps ss else None)"
| "match_segments (Wildcard n # ps) (s # ss) =
     (if s = [] then None else map_option (Cons (n, s)) (match_segments ps ss))"
| "match_segments _ _ = None"

text \<open>A pattern for \<^verbatim>\<open>GET\<close> serves \<^verbatim>\<open>HEAD\<close> as well.\<close>

definition method_matches :: "string \<Rightarrow> string \<Rightarrow> bool" where
  "method_matches m method \<longleftrightarrow> m = method \<or> m = ''GET'' \<and> method = ''HEAD''"

definition pattern_match :: "string \<Rightarrow> string \<Rightarrow> string \<Rightarrow> (string \<times> string) list option" where
  "pattern_match p method path =
     (let (m, segs) = pattern_of p in
      if method_matches m method then match_segments segs (split_on (CHR ''/'') path) else None)"

text \<open>Every pattern \<^verbatim>\<open>Routes\<close> registers, in its order.\<close>

definition v1_patterns :: "string list" where
  "v1_patterns =
     [''POST /v1/setup'', ''POST /v1/login'', ''POST /v1/logout'', ''POST /v1/password'', ''GET /v1/me'',
      ''GET /v1/users'', ''POST /v1/users'', ''PATCH /v1/users/{id}'', ''DELETE /v1/users/{id}'',
      ''POST /v1/users/{id}/reset-password'', ''GET /v1/stats'', ''GET /v1/step-types'', ''GET /v1/workflows'',
      ''POST /v1/workflows'', ''GET /v1/workflows/{id}'', ''PATCH /v1/workflows/{id}'', ''DELETE /v1/workflows/{id}'',
      ''PUT /v1/workflows/{id}/definition'', ''GET /v1/workflows/{id}/versions'',
      ''GET /v1/workflows/{id}/versions/{version}'', ''POST /v1/workflows/{id}/runs'', ''GET /v1/workflows/{id}/runs'',
      ''GET /v1/runs/{id}'', ''POST /v1/runs/{id}/cancel'', ''POST /v1/runs/{id}/retry'', ''GET /v1/runs/{id}/events'',
      ''GET /v1/runs/{id}/logs'', ''GET /v1/runs/{id}/logs.txt'', ''GET /v1/secrets'', ''POST /v1/secrets'',
      ''PUT /v1/secrets/{id}'', ''DELETE /v1/secrets/{id}'', ''GET /v1/mcp-servers'', ''POST /v1/mcp-servers'',
      ''POST /v1/mcp-servers/test'', ''PUT /v1/mcp-servers/{id}'', ''DELETE /v1/mcp-servers/{id}'',
      ''GET /v1/mcp-servers/{id}/tools'', ''GET /v1/workflows/{id}/triggers'', ''POST /v1/workflows/{id}/triggers'',
      ''PATCH /v1/triggers/{id}'', ''DELETE /v1/triggers/{id}'', ''GET /v1/api-tokens'', ''POST /v1/api-tokens'',
      ''POST /v1/api-tokens/{id}/rotate'', ''DELETE /v1/api-tokens/{id}'']"

section \<open>No two patterns overlap\<close>

fun overlap :: "segment list \<Rightarrow> segment list \<Rightarrow> bool" where
  "overlap [] [] = True"
| "overlap (Literal a # ps) (Literal b # qs) = (a = b \<and> overlap ps qs)"
| "overlap (Wildcard _ # ps) (_ # qs) = overlap ps qs"
| "overlap (_ # ps) (Wildcard _ # qs) = overlap ps qs"
| "overlap _ _ = False"

fun_cases match_Nil: "match_segments [] ss = Some r"
  and match_Literal: "match_segments (Literal l # ps) ss = Some r"
  and match_Wildcard: "match_segments (Wildcard n # ps) ss = Some r"

lemma overlap_sound: "match_segments ps ss = Some a \<Longrightarrow> match_segments qs ss = Some b \<Longrightarrow> overlap ps qs"
proof (induction ps qs arbitrary: ss a b rule: overlap.induct)
  case (2 l ps k qs)
  from "2.prems" show ?case by (elim match_Literal) (auto intro: "2.IH" [OF sym sym] split: if_splits)
next
  case (3 n ps q qs)
  then obtain s ss' r r' where "ss = s # ss'" "match_segments ps ss' = Some r" "match_segments qs ss' = Some r'"
    by (cases ss; cases q) (auto split: if_splits)
  with "3.IH" show ?case by simp
next
  case (4 l ps n qs)
  from "4.prems" show ?case by (elim match_Literal match_Wildcard) (cases "match_segments qs (tl ss)"; auto intro: "4.IH" [OF sym] split: if_splits)
qed (auto elim!: match_Nil elim: match_segments.elims)

definition same_method :: "string \<Rightarrow> string \<Rightarrow> bool" where
  "same_method m n \<longleftrightarrow> m = n \<or> m = ''GET'' \<and> n = ''HEAD'' \<or> m = ''HEAD'' \<and> n = ''GET''"

definition clash :: "string \<times> segment list \<Rightarrow> string \<times> segment list \<Rightarrow> bool" where
  "clash p q \<longleftrightarrow> same_method (fst p) (fst q) \<and> (overlap (snd p) (snd q) \<or> overlap (snd q) (snd p))"

fun no_clash :: "(string \<times> segment list) list \<Rightarrow> bool" where
  "no_clash [] = True"
| "no_clash (p # ps) = (list_all (\<lambda>q. \<not> clash p q) ps \<and> no_clash ps)"

lemma v1_no_clash: "no_clash (map pattern_of v1_patterns)"
  by code_simp

lemma clash_sym: "clash p q \<Longrightarrow> clash q p"
  by (auto simp: clash_def same_method_def)

lemma no_clashD:
  "no_clash (map pattern_of ps) \<Longrightarrow> p \<in> set ps \<Longrightarrow> q \<in> set ps \<Longrightarrow> clash (pattern_of p) (pattern_of q) \<Longrightarrow> p = q"
  by (induction ps) (auto simp: list_all_iff dest: clash_sym)

lemma both_match_clash:
  "pattern_match p method path \<noteq> None \<Longrightarrow> pattern_match q method path \<noteq> None \<Longrightarrow> clash (pattern_of p) (pattern_of q)"
  by (auto simp: pattern_match_def clash_def same_method_def method_matches_def Let_def split_beta
      split: if_splits intro: overlap_sound [of _ "split_on (CHR ''/'') path"])

lemma v1_patterns_tables:
  "v1_patterns = map fst (accountRoutes X A dk) @ map fst (userRoutes X A) @
     [''GET /v1/stats'', ''GET /v1/step-types''] @ map fst (workflowRoutes X A jsonb_in Has) @
     [''GET /v1/runs/{id}/events'', ''GET /v1/runs/{id}/logs'', ''GET /v1/runs/{id}/logs.txt''] @
     map fst resourceRoutes @ map fst (triggerRoutes X A C) @ map fst (tokenRoutes X A)"
  by (simp add: v1_patterns_def accountRoutes_def userRoutes_def workflowRoutes_def resourceRoutes_def triggerRoutes_def tokenRoutes_def)

text \<open>
  The routes of the API do not conflict: whatever the method and path of a request, at most one
  of the registered patterns matches, so \<^verbatim>\<open>ServeMux\<close> accepts the table and the order of registration
  does not matter.
\<close>

lemma routes_are_unambiguous:
  assumes "p \<in> set v1_patterns" "q \<in> set v1_patterns"
    and "pattern_match p method path = Some a" "pattern_match q method path = Some b"
  shows "p = q \<and> a = b"
proof -
  have "p = q"
    using no_clashD [OF v1_no_clash assms(1,2) both_match_clash] assms(3,4) by (metis option.distinct(1))
  with assms(3,4) show ?thesis by simp
qed

section \<open>A request to the API\<close>

datatype 'h found = Found 'h "(string \<times> string) list" | MethodNotAllowed | NotFound

definition mux_find :: "(string \<times> 'h) list \<Rightarrow> string \<Rightarrow> string \<Rightarrow> 'h found" where
  "mux_find routes method path =
     (case find (\<lambda>(p, h). pattern_match p method path \<noteq> None) routes of
        Some (p, h) \<Rightarrow> Found h (the (pattern_match p method path))
      | None \<Rightarrow>
          if list_ex (\<lambda>(p, h). match_segments (snd (pattern_of p)) (split_on (CHR ''/'') path) \<noteq> None) routes
          then MethodNotAllowed else NotFound)"

definition ServeHTTP :: "(string \<times> db_handler) list \<Rightarrow> string \<Rightarrow> db_handler" where
  "ServeHTTP routes method r db =
     (case mux_find routes method (rq_path r) of
        Found h vals \<Rightarrow> h (r\<lparr>rq_values := vals\<rparr>) db
      | MethodNotAllowed \<Rightarrow> (WriteHeader 405, db)
      | NotFound \<Rightarrow> (WriteHeader 404, db))"

text \<open>
  \<^verbatim>\<open>WithAuth\<close> hands the request on with its principal; \<open>authenticated\<close> is that request. The response and
  the account tables are those \<^verbatim>\<open>WithAuth\<close> gives, the store is what the route leaves of it.
\<close>

definition authenticated :: "externals \<Rightarrow> request \<Rightarrow> server \<Rightarrow> request option" where
  "authenticated X r s =
     (if rq_path r \<in> set authSkip then Some r
      else if HasPrefix (Header_Get r ''Authorization'') bearer
      then map_option (\<lambda>a. r\<lparr>rq_auth := Some a\<rparr>) (fst (tokenPrincipal X r s))
      else Option.bind (rq_cookie r) (\<lambda>c. map_option (\<lambda>a. r\<lparr>rq_auth := Some a\<rparr>) (fst (loadSession X (rq_now r) c s))))"

definition serve_v1 ::
  "externals \<Rightarrow> (string \<times> db_handler) list \<Rightarrow> string \<Rightarrow> request \<Rightarrow> server \<times> db \<Rightarrow> response \<times> server \<times> db" where
  "serve_v1 X routes method r sdb =
     (case sdb of (s, db) \<Rightarrow>
        let (resp, s') = WithAuth X (\<lambda>r' s1. (fst (ServeHTTP routes method r' db), s1)) r s in
        (resp, s', case authenticated X r s of None \<Rightarrow> db | Some r' \<Rightarrow> snd (ServeHTTP routes method r' db)))"

section \<open>What a request may change\<close>

lemma ServeHTTP_within:
  assumes T: "tenancy db"
  shows "within (workspace r) db (snd (ServeHTTP (dbRoutes X A C jsonb_in Has) method r db))"
proof (cases "mux_find (dbRoutes X A C jsonb_in Has) method (rq_path r)")
  case (Found h vals)
  then obtain p where "(p, h) \<in> set (dbRoutes X A C jsonb_in Has)"
    by (auto simp: mux_find_def split: option.splits if_splits dest!: find_SomeD)
  from dbRoutes_within [OF this T, of "r\<lparr>rq_values := vals\<rparr>"] show ?thesis
    by (simp add: ServeHTTP_def Found workspace_def authFrom_def)
qed (simp_all add: ServeHTTP_def within_refl T)

text \<open>The paths outside authentication belong to other routes.\<close>

lemma db_patterns:
  "map fst (dbRoutes X A C jsonb_in Has) = take 13 (drop 12 v1_patterns) @ take 4 (drop 38 v1_patterns)"
  by (simp add: dbRoutes_defs v1_patterns_def)

lemma open_paths_unmatched:
  "list_all (\<lambda>p. list_all (\<lambda>path. match_segments (snd (pattern_of p)) (split_on (CHR ''/'') path) = None) authSkip)
     (take 13 (drop 12 v1_patterns) @ take 4 (drop 38 v1_patterns))"
  by code_simp

lemma open_paths_elsewhere:
  assumes "rq_path r \<in> set authSkip"
  shows "ServeHTTP (dbRoutes X A C jsonb_in Has) method r db = (WriteHeader 404, db)"
proof -
  have none: "match_segments (snd (pattern_of p)) (split_on (CHR ''/'') (rq_path r)) = None"
    if "(p, h) \<in> set (dbRoutes X A C jsonb_in Has)" for p h
  proof -
    have "p \<in> set (map fst (dbRoutes X A C jsonb_in Has))" using that by force
    then show ?thesis using open_paths_unmatched assms unfolding db_patterns list_all_iff by blast
  qed
  then have "find (\<lambda>(p, h). pattern_match p method (rq_path r) \<noteq> None) (dbRoutes X A C jsonb_in Has) = None"
    by (auto simp: find_None_iff pattern_match_def split_beta Let_def)
  with none show ?thesis by (auto simp: ServeHTTP_def mux_find_def list_ex_iff)
qed

lemma authenticated_cases:
  assumes "authenticated X r s = Some r'"
  obtains (skipped) "rq_path r \<in> set authSkip" "r' = r"
    | (token) a t where "t \<in> set (api_tokens s)" "r' = r\<lparr>rq_auth := Some a\<rparr>" "a_WorkspaceID a = at_workspace_id t"
        "at_token_hash t = hashToken X (TrimSpace (drop (length bearer) (Header_Get r ''Authorization'')))"
    | (session) c a se m where "rq_cookie r = Some c" "r' = r\<lparr>rq_auth := Some a\<rparr>" "se \<in> set (sessions s)"
        "se_token se = hashToken X c" "rq_now r < se_expires_at se" "m \<in> set (members s)" "m_user_id m = se_user_id se"
        "a_WorkspaceID a = m_workspace_id m"
proof (cases "rq_path r \<in> set authSkip")
  case True
  then have "r' = r" using assms by (simp add: authenticated_def)
  with True show thesis by (rule skipped)
next
  case skip: False
  show thesis
  proof (cases "HasPrefix (Header_Get r ''Authorization'') bearer")
    case True
    with assms skip obtain a s1 where a: "tokenPrincipal X r s = (Some a, s1)" "r' = r\<lparr>rq_auth := Some a\<rparr>"
      by (cases "tokenPrincipal X r s") (auto simp: authenticated_def)
    then obtain s2 where "authenticateToken X r s = (Some (a_WorkspaceID a), s2)"
      by (auto simp: tokenPrincipal_def split: prod.splits option.splits)
    from authenticateToken_Some [OF this] obtain t where t: "t \<in> set (api_tokens s)" "at_workspace_id t = a_WorkspaceID a"
        "at_token_hash t = hashToken X (TrimSpace (drop (length bearer) (Header_Get r ''Authorization'')))" by blast
    show thesis by (rule token [OF t(1) a(2) t(2)[symmetric] t(3)])
  next
    case False
    with assms skip obtain c a s1 where c: "rq_cookie r = Some c" "loadSession X (rq_now r) c s = (Some a, s1)"
        "r' = r\<lparr>rq_auth := Some a\<rparr>"
      by (cases "rq_cookie r"; cases "loadSession X (rq_now r) (the (rq_cookie r)) s") (auto simp: authenticated_def)
    from c(2) show thesis
      by (rule loadSession_Some) (use c(1,3) in \<open>auto intro: session\<close>)
  qed
qed


section \<open>Ingress\<close>

text \<open>
  \<^verbatim>\<open>MaxBody\<close> around the two handlers outside authentication, which read their whole body before
  anything that can change the store; \<^verbatim>\<open>resume\<close> checks that the token is not empty first, which
  its pattern guarantees.
\<close>

definition MaxBody :: "db_handler \<Rightarrow> db_handler" where
  "MaxBody nxt r db =
     (if 2 ^ 20 < length (rq_raw r) then (s_error 400 ''could not read body'', db) else nxt r db)"

definition ingressRoutes :: "externals \<Rightarrow> engine \<Rightarrow> workspace_row list \<Rightarrow> (string \<times> db_handler) list" where
  "ingressRoutes X E wss =
     [(''POST /hooks/{ws}/{path}'', MaxBody (webhook X wss)), (''POST /resume/{token}'', MaxBody (resume_handler X E))]"

text \<open>A webhook writes to the workspace its slug names.\<close>

lemma resolve_webhook_rows:
  "(ws, t, wfl) \<in> set (resolve_webhook wss db slug path) \<Longrightarrow> ws \<in> set wss \<and> ws_slug ws = slug \<and> t \<in> set (triggers db)"
  by (auto simp: resolve_webhook_def)

lemma webhook_within:
  assumes T: "tenancy db"
  shows "snd (webhook X wss r db) = db \<or>
    (\<exists>ws \<in> set wss. ws_slug ws = PathValue r ''ws'' \<and> within (ws_id ws) db (snd (webhook X wss r db)))"
proof (cases "resolve_webhook wss db (PathValue r ''ws'') (PathValue r ''path'')")
  case Nil then show ?thesis by (simp add: webhook_def)
next
  case (Cons e es)
  obtain ws t wfl where e: "e = (ws, t, wfl)" by (cases e)
  with Cons have ws: "ws \<in> set wss" "ws_slug ws = PathValue r ''ws''"
    using resolve_webhook_rows [of ws t wfl wss db "PathValue r ''ws''" "PathValue r ''path''"] by simp_all
  have "snd (webhook X wss r db) = db \<or> within (ws_id ws) db (snd (webhook X wss r db))"
    using within_StartRunOpts [OF T, of X "rq_now r" "ws_id ws"]
    by (auto simp: webhook_def Cons e Let_def split: sum.splits option.splits)
  with ws show ?thesis by blast
qed

definition demo_intrusion :: "response \<times> server \<times> db" where
  "demo_intrusion = serve_v1 demo_X (dbRoutes demo_X demo_env demo_cron id (\<lambda>_. True)) ''DELETE''
     (demo_request\<lparr>rq_path := ''/v1/workflows/3'', rq_cookie := None, rq_header := [(''Authorization'', ''Bearer oak_k'')]\<rparr>)
     (seed_server\<lparr>api_tokens := [demo_token]\<rparr>, demo_db)"


end
