(* ===== verification/Engine_Invariants.thy ===== *)
theory Engine_Invariants
  imports Engine_System
begin

text \<open>
  Invariants of the whole engine over every interleaving of its transactions, workers and failures:
  steps run in dependency order, no unfinished run is without a pending advance or an active task,
  and, when no execute job is lost before its task starts, every active task has something that will
  move it on. What an operation must do for this is the relation \<open>effect\<close>, the interface between the
  operations and the invariants; each operation is shown to meet it from its own case rule.
\<close>

section \<open>What the invariants are about\<close>

text \<open>
  A suspended task is \<open>parked\<close> when its suspension row is there, with the job of its timer if it has
  one. The sets \<open>W\<close> and \<open>R\<close> are the tasks whose execute job or resume job a worker holds.
\<close>

definition parked :: "uuid set \<Rightarrow> db \<Rightarrow> uuid \<Rightarrow> bool" where
  "parked R db tid \<longleftrightarrow>
     (\<exists>su \<in> set (suspensions db). su_task_id su = tid \<and>
        (su_resume_at su \<noteq> None \<longrightarrow> ResumeTaskArgs tid \<in> job_set db \<or> tid \<in> R))"

definition task_served :: "uuid set \<Rightarrow> uuid set \<Rightarrow> db \<Rightarrow> task_row \<Rightarrow> bool" where
  "task_served W R db t \<longleftrightarrow>
     (t_status t = TQueued \<longrightarrow> ExecuteTaskArgs (t_id t) \<in> job_set db \<or> t_id t \<in> W) \<and>
     (t_status t = TRunning \<longrightarrow> t_started_at t \<noteq> None) \<and>
     (t_status t = TSuspended \<longrightarrow> parked R db (t_id t))"

definition served :: "uuid set \<Rightarrow> uuid set \<Rightarrow> db \<Rightarrow> bool" where
  "served W R db \<longleftrightarrow> (\<forall>t \<in> set (tasks db). task_served W R db t)"

text \<open>The task's step is in the definition of its run and everything the step needs is done.\<close>

definition in_order :: "db \<Rightarrow> task_row \<Rightarrow> bool" where
  "in_order db t \<longleftrightarrow>
     (\<exists>j d s. run_json db (t_run_id t) = Some j \<and> Parse j = Inr d \<and> Step d (t_step_key t) = Some s \<and>
        (\<forall>n \<in> set (st_needs s). step_done db (t_run_id t) n))"

definition runs_valid :: "(string \<Rightarrow> bool) option \<Rightarrow> db \<Rightarrow> bool" where
  "runs_valid known db \<longleftrightarrow>
     (\<forall>v \<in> set (versions db). deployable known (v_definition v)) \<and>
     r_version_id ` set (runs db) \<subseteq> v_id ` set (versions db)"

section \<open>The interface between operations and invariants\<close>

definition keeps_steps :: "db \<Rightarrow> db \<Rightarrow> bool" where
  "keeps_steps db db' \<longleftrightarrow>
     (\<forall>t \<in> set (tasks db'). \<exists>u \<in> set (tasks db). t_run_id u = t_run_id t \<and> t_step_key u = t_step_key t)"

definition effect :: "db \<Rightarrow> db \<Rightarrow> bool" where
  "effect db db' \<longleftrightarrow>
     (\<forall>rid. run_live db rid \<longrightarrow> run_live db' rid) \<and>
     (\<forall>W R. served W R db \<longrightarrow> served W R db') \<and>
     versions db' = versions db \<and>
     r_version_id ` set (runs db') \<subseteq> r_version_id ` set (runs db) \<union> v_id ` set (versions db)"

lemma effect_refl [simp]: "effect db db" and keeps_steps_refl [simp]: "keeps_steps db db"
  by (auto simp: effect_def keeps_steps_def)

lemma effectD:
  assumes "effect db db'"
  shows "run_live db rid \<Longrightarrow> run_live db' rid" "served W R db \<Longrightarrow> served W R db'" "versions db' = versions db"
    "r_version_id ` set (runs db') \<subseteq> r_version_id ` set (runs db) \<union> v_id ` set (versions db)"
  using assms by (simp_all add: effect_def)

lemma subset_Un_trans: "A \<subseteq> B \<union> V \<Longrightarrow> B \<subseteq> C \<union> V \<Longrightarrow> A \<subseteq> C \<union> V" for A :: "'a set"
  by blast

lemma effect_trans:
  assumes "effect a b" "effect b c"
  shows "effect a c"
proof -
  have "r_version_id ` set (runs c) \<subseteq> r_version_id ` set (runs a) \<union> v_id ` set (versions a)"
    using effectD(4) [OF assms(2)] effectD(4) [OF assms(1)] unfolding effectD(3) [OF assms(1)] by (rule subset_Un_trans)
  with assms show ?thesis by (simp add: effect_def)
qed

lemma keeps_steps_trans: "keeps_steps a b \<Longrightarrow> keeps_steps b c \<Longrightarrow> keeps_steps a c"
  unfolding keeps_steps_def by metis

lemma effect_runs_valid: "effect db db' \<Longrightarrow> runs_valid known db \<Longrightarrow> runs_valid known db'"
  unfolding runs_valid_def using effectD(3,4) [of db db'] subset_Un_trans [of _ _ "v_id ` set (versions db)" "{}"] by simp

lemma in_order_mono: "lifecycle db db' \<Longrightarrow> wf_store db \<Longrightarrow> in_order db t \<Longrightarrow> in_order db' t"
  unfolding in_order_def
  using lifecycleD(4) [of db db'] lifecycleD(5) [of db db'] by (auto simp: step_done_def step_status_def)

text \<open>Nothing but an advance creates the first task of a step.\<close>

lemma in_order_keeps_steps:
  assumes "lifecycle db db'" "wf_store db" "keeps_steps db db'" "\<forall>t \<in> set (tasks db). in_order db t"
  shows "\<forall>t \<in> set (tasks db'). in_order db' t"
proof
  fix t assume "t \<in> set (tasks db')"
  with assms(3) obtain u where u: "u \<in> set (tasks db)" "t_run_id u = t_run_id t" "t_step_key u = t_step_key t"
    by (auto simp: keeps_steps_def)
  with assms(4) have "in_order db u" by blast
  then have "in_order db' u" by (rule in_order_mono [OF assms(1,2)])
  with u show "in_order db' t" by (simp add: in_order_def)
qed

text \<open>The criterion the operations meet: an update of active rows in place, then new rows.\<close>

definition rewriting :: "db \<Rightarrow> db \<Rightarrow> (task_row \<Rightarrow> bool) \<Rightarrow> (task_row \<Rightarrow> task_row) \<Rightarrow> task_row list \<Rightarrow> bool" where
  "rewriting db db' P g news \<longleftrightarrow>
     tasks db' = map (\<lambda>t. if P t then g t else t) (tasks db) @ news \<and> keeps_slot g \<and>
     job_set db \<subseteq> job_set db' \<and> versions db' = versions db \<and>
     (\<forall>t \<in> set news. (t_status t = TQueued \<longrightarrow> ExecuteTaskArgs (t_id t) \<in> job_set db') \<and>
        t_status t \<noteq> TRunning \<and> t_status t \<noteq> TSuspended)"

lemma rewriting_served:
  assumes rw: "rewriting db db' P g news"
    and ran: "\<And>t. t \<in> set (tasks db) \<Longrightarrow> P t \<Longrightarrow> t_status (g t) = TRunning \<Longrightarrow> t_started_at (g t) \<noteq> None"
    and susp: "\<And>t. t \<in> set (tasks db) \<Longrightarrow> P t \<Longrightarrow> t_status (g t) = TSuspended \<Longrightarrow> parked {} db' (t_id t)"
    and kept: "\<And>t su. t \<in> set (tasks db) \<Longrightarrow> \<not> P t \<Longrightarrow> t_status t = TSuspended \<Longrightarrow> su \<in> set (suspensions db) \<Longrightarrow>
      su_task_id su = t_id t \<Longrightarrow> su \<in> set (suspensions db')"
    and "served W R db"
  shows "served W R db'"
  unfolding served_def
proof
  fix t' assume "t' \<in> set (tasks db')"
  then consider (new) "t' \<in> set news" | (old) t where "t \<in> set (tasks db)" "t' = (if P t then g t else t)"
    using rw by (auto simp: rewriting_def)
  then show "task_served W R db' t'"
  proof cases
    case new
    with rw show ?thesis by (auto simp: rewriting_def task_served_def)
  next
    case (old t)
    show ?thesis
    proof (cases "P t")
      case True
      moreover have "t_id (g t) = t_id t" "t_status (g t) \<noteq> TQueued"
        using rw by (auto simp: rewriting_def keeps_slot_def)
      ultimately show ?thesis
        using old ran [OF old(1) True] susp [OF old(1) True] by (auto simp: task_served_def parked_def)
    next
      case False
      then have "task_served W R db t" "t' = t" using assms(5) old by (auto simp: served_def)
      moreover have "job_set db \<subseteq> job_set db'" using rw by (simp add: rewriting_def)
      moreover have "parked R db' (t_id t)" if "t_status t = TSuspended" "parked R db (t_id t)"
        using that kept [OF old(1) False that(1)] \<open>job_set db \<subseteq> job_set db'\<close> unfolding parked_def by blast
      ultimately show ?thesis unfolding task_served_def by blast
    qed
  qed
qed

lemma rewriting_live:
  assumes rw: "rewriting db db' P g news"
    and report: "\<And>t. t \<in> set (tasks db) \<Longrightarrow> P t \<Longrightarrow> \<not> task_active (t_status (g t)) \<Longrightarrow>
      AdvanceRunArgs (t_run_id t) \<in> job_set db' \<or> (\<forall>r. find_run db' (t_run_id t) = Some r \<longrightarrow> run_terminal (r_status r))"
    and runs: "\<And>r'. find_run db' rid = Some r' \<Longrightarrow> \<not> run_terminal (r_status r') \<Longrightarrow>
      AdvanceRunArgs rid \<in> job_set db' \<or> (\<exists>r. find_run db rid = Some r \<and> \<not> run_terminal (r_status r))"
    and live: "run_live db rid"
  shows "run_live db' rid"
proof (rule ccontr)
  assume dead: "\<not> run_live db' rid"
  then have no: "AdvanceRunArgs rid \<notin> job_set db'" "\<not> has_active_task db' rid"
    and "\<exists>r'. find_run db' rid = Some r' \<and> \<not> run_terminal (r_status r')"
    by (auto simp: run_live_def)
  with runs have "\<exists>r. find_run db rid = Some r \<and> \<not> run_terminal (r_status r)" by blast
  moreover have "AdvanceRunArgs rid \<notin> job_set db" using no(1) rw by (auto simp: rewriting_def)
  ultimately have "has_active_task db rid" using live by (auto simp: run_live_def)
  then obtain t where t: "t \<in> set (tasks db)" "t_run_id t = rid" "task_active (t_status t)"
    by (auto simp: has_active_task_def)
  have "(if P t then g t else t) \<in> set (tasks db')" using rw t(1) by (auto simp: rewriting_def)
  moreover have "t_run_id (g t) = t_run_id t" using rw by (simp add: rewriting_def keeps_slot_def)
  ultimately have "P t" "\<not> task_active (t_status (g t))"
    using no(2) t unfolding has_active_task_def by (metis, metis)
  with report [OF t(1)] t(2) no(1) dead show False by (auto simp: run_live_def)
qed

lemma rewriting_steps:
  assumes "rewriting db db' P g news"
    and "\<And>t. t \<in> set news \<Longrightarrow> \<exists>u \<in> set (tasks db). t_run_id u = t_run_id t \<and> t_step_key u = t_step_key t"
  shows "keeps_steps db db'"
  unfolding keeps_steps_def
proof
  fix t' assume "t' \<in> set (tasks db')"
  with assms(1) consider "t' \<in> set news" | t where "t \<in> set (tasks db)" "t' = (if P t then g t else t)"
    by (auto simp: rewriting_def)
  then show "\<exists>u \<in> set (tasks db). t_run_id u = t_run_id t' \<and> t_step_key u = t_step_key t'"
  proof cases
    case 1
    with assms(2) show ?thesis .
  next
    case (2 t)
    with assms(1) show ?thesis by (intro bexI [of _ t]) (auto simp: rewriting_def keeps_slot_def)
  qed
qed

text \<open>Most operations leave the runs and the suspensions of other tasks as they are.\<close>

lemma rewriting_effect:
  assumes rw: "rewriting db db' P g news" and runs: "runs db' = runs db"
    and report: "\<And>t. t \<in> set (tasks db) \<Longrightarrow> P t \<Longrightarrow> \<not> task_active (t_status (g t)) \<Longrightarrow> AdvanceRunArgs (t_run_id t) \<in> job_set db'"
    and ran: "\<And>t. t \<in> set (tasks db) \<Longrightarrow> P t \<Longrightarrow> t_status (g t) = TRunning \<Longrightarrow> t_started_at (g t) \<noteq> None"
    and susp: "\<And>t. t \<in> set (tasks db) \<Longrightarrow> P t \<Longrightarrow> t_status (g t) = TSuspended \<Longrightarrow> parked {} db' (t_id t)"
    and kept: "\<And>t su. t \<in> set (tasks db) \<Longrightarrow> \<not> P t \<Longrightarrow> t_status t = TSuspended \<Longrightarrow> su \<in> set (suspensions db) \<Longrightarrow>
      su_task_id su = t_id t \<Longrightarrow> su \<in> set (suspensions db')"
  shows "effect db db'"
  unfolding effect_def
proof (intro conjI allI impI)
  fix rid assume "run_live db rid"
  then show "run_live db' rid"
    by (rule rewriting_live [OF rw, rotated -1]) (use report runs in \<open>auto simp: find_run_def\<close>)
next
  fix W R assume "served W R db"
  then show "served W R db'" by (rule rewriting_served [OF rw, rotated -1]) (use ran susp kept in auto)
qed (use rw runs in \<open>auto simp: rewriting_def\<close>)


section \<open>Every operation but the advance\<close>

lemma rewriting_append:
  assumes "tasks db' = tasks db @ news" "job_set db \<subseteq> job_set db'" "versions db' = versions db"
    "\<And>t. t \<in> set news \<Longrightarrow> t_status t = TQueued \<and> ExecuteTaskArgs (t_id t) \<in> job_set db' \<or> \<not> task_active (t_status t)"
  shows "rewriting db db' (\<lambda>_. False) (cancel_task 0) news"
  unfolding rewriting_def using assms(1-3)
  by (auto dest!: assms(4) simp: task_active_def)

lemma StartRunOpts_effect:
  assumes "StartRunOpts X now ws wfl input opts db = Inr (rid, created, db')"
  shows "effect db db'" "keeps_steps db db'"
proof -
  show "keeps_steps db db'"
    using assms by (cases rule: StartRunOpts_Inr) (auto simp: keeps_steps_def insert_run_def store_simps split: if_splits)
  show "effect db db'"
    using assms
  proof (cases rule: StartRunOpts_Inr)
    case (created r db1)
    have db1: "db1 = db\<lparr>runs := runs db @ [r]\<rparr>" "r_version_id r \<in> v_id ` set (versions db)"
      using created(2) by (auto simp: insert_run_def run_references_ok_def split: if_splits)
    have rw: "rewriting db db' (\<lambda>_. False) (cancel_task 0) []"
      by (rule rewriting_append) (auto simp: created(4) db1(1) store_simps)
    have "find_run db' rid' = find_run db rid'" if "rid' \<noteq> rid" for rid'
      using that created(3) by (simp add: find_run_def created(4) db1(1) store_simps find_snoc_other)
    then have "run_live db' rid'" if "run_live db rid'" for rid'
      using that by (intro rewriting_live [OF rw]) (cases "rid' = rid"; auto simp: created(4) store_simps)+
    moreover have "served W R db'" if "served W R db" for W R
      using that by (intro rewriting_served [OF rw]) (auto simp: created(4) db1(1) store_simps)
    ultimately show ?thesis
      using db1 created(4) by (simp add: effect_def store_simps)
  qed simp
qed

lemma find_run_other:
  assumes "keeps_run_key f" "\<And>r. P r \<Longrightarrow> r_id r = rid" "i \<noteq> rid"
  shows "find_run (update_runs P f db) i = find_run db i"
  using assms(2,3) find_run_SomeD [of db i]
  by (cases "find_run db i") (auto simp: find_run_update_runs [OF assms(1)])

lemma CancelRun_effect:
  assumes "CancelRun now ws rid db = Inr db'"
  shows "effect db db'" "keeps_steps db db'"
proof -
  let ?P = "\<lambda>t. t_run_id t = rid \<and> t_status t \<in> {TQueued, TRunning, TSuspended}"
  let ?f = "\<lambda>r. r\<lparr>r_status := RCanceled, r_finished_at := Some now\<rparr>"
  from assms have db': "db' = update_tasks ?P (cancel_task now) (update_runs (\<lambda>r. r_id r = rid) ?f db)"
    by (auto simp: CancelRun_def rbind_Inr_iff split: if_splits)
  have rw: "rewriting db db' ?P (cancel_task now) []"
    by (simp add: rewriting_def db' store_simps)
  then show "keeps_steps db db'" by (rule rewriting_steps) simp
  have find: "find_run db' i = find_run (update_runs (\<lambda>r. r_id r = rid) ?f db) i" for i
    by (simp add: db' find_run_def store_simps)
  have other: "find_run db' i = find_run db i" if "i \<noteq> rid" for i
    unfolding find by (rule find_run_other [OF _ _ that]) simp_all
  have canceled: "run_terminal (r_status r)" if "find_run db' rid = Some r" for r
  proof -
    from that obtain q where "find_run db rid = Some q" "r = (if r_id q = rid then ?f q else q)"
      by (auto simp: find find_run_update_runs)
    with find_run_SomeD [of db rid q] show ?thesis by simp
  qed
  have "run_live db' i" if "run_live db i" for i
  proof (cases "i = rid")
    case True
    with canceled show ?thesis by (simp add: run_live_def)
  next
    case False
    from that show ?thesis
      by (rule rewriting_live [OF rw, rotated -1]) (use canceled other [OF False] in auto)
  qed
  moreover have "served W R db'" if "served W R db" for W R
    using that by (intro rewriting_served [OF rw]) (auto simp: db' store_simps cancel_task_def)
  moreover have "r_version_id ` set (runs db') = r_version_id ` set (runs db)"
    unfolding db' store_simps by (rule image_map_if) simp
  ultimately show "effect db db'" by (simp add: effect_def db' store_simps)
qed


lemma RetryRun_effect:
  assumes "RetryRun X now ws rid db = Inr db'" "wf_store db"
  shows "effect db db'" "keeps_steps db db'"
proof -
  let ?f = "\<lambda>r. r\<lparr>r_status := RRunning, r_finished_at := None, r_error := None\<rparr>"
  let ?db1 = "update_runs (\<lambda>r. r_id r = rid) ?f db"
  obtain r :: run_row and db2 news where news: "attempts_inserted rid ws (redos db rid) ?db1 db2 news"
    and db': "db' = InsertTx (AdvanceRunArgs rid) None db2"
    by (rule RetryRun_Inr [OF assms])
  have tabs: "tasks db' = tasks db @ news" "runs db' = runs ?db1" "versions db' = versions db" "suspensions db' = suspensions db"
    "job_set db' = insert (AdvanceRunArgs rid) (job_set db \<union> ExecuteTaskArgs ` t_id ` set news)"
    using news by (auto simp: db' attempts_inserted_def store_simps)
  have rw: "rewriting db db' (\<lambda>_. False) (cancel_task 0) news"
    by (rule rewriting_append) (use news in \<open>auto simp: tabs attempts_inserted_def\<close>)
  have "\<exists>u \<in> set (tasks db). t_run_id u = t_run_id t \<and> t_step_key u = t_step_key t" if t: "t \<in> set news" for t
  proof -
    have "(t_step_key t, t_attempt t) \<in> set (map (\<lambda>(k, a). (k, a + 1)) (redos db rid))"
      using news t unfolding attempts_inserted_def by (metis (mono_tags, lifting) image_eqI list.set_map)
    then obtain a where "may_redo db rid (t_step_key t) a" by (auto simp: set_redos)
    then obtain u where "step_task db rid (t_step_key t) = Some u" by (auto simp: may_redo_def)
    from step_task_SomeD(1-3) [OF this] show ?thesis using news t by (auto simp: attempts_inserted_def)
  qed
  then show "keeps_steps db db'" by (rule rewriting_steps [OF rw])
  have other: "find_run db' i = find_run db i" if "i \<noteq> rid" for i
  proof -
    have "find_run db' i = find_run ?db1 i" by (simp add: find_run_def tabs(2))
    also have "\<dots> = find_run db i" by (rule find_run_other [OF _ _ that]) simp_all
    finally show ?thesis .
  qed
  have "run_live db' i" if "run_live db i" for i
    using that by (rule rewriting_live [OF rw, rotated -1]) (cases "i = rid"; simp add: tabs(5) other)+
  moreover have "served W R db'" if "served W R db" for W R
    using that by (intro rewriting_served [OF rw]) (simp_all add: tabs(4))
  moreover have "r_version_id ` set (runs db') = r_version_id ` set (runs db)"
    unfolding tabs(2) store_simps by (rule image_map_if) simp
  ultimately show "effect db db'" by (simp add: effect_def tabs(3))
qed

text \<open>Failing or finishing the row a worker refers to, with or without the next attempt.\<close>

lemma ref_ok_row:
  assumes "wf_store db" "ref_ok t db" "row \<in> set (tasks db)" "t_id row = tf_id t"
  shows "task_slot row = (tf_runID t, tf_stepKey t, tf_attempt t)"
  using assms row_unique [OF assms(1), of _ row] unfolding ref_ok_def by metis

lemma finishTask_rewriting:
  assumes fin: "finishTask X now t st out e db = Inr db'" and st: "st \<noteq> TSkipped" "st \<noteq> TQueued"
    and ref: "ref_ok t db"
  obtains "db' = db" "\<forall>row \<in> set (tasks db). t_id row = tf_id t \<longrightarrow> t_status row \<noteq> TQueued"
  | g news where "rewriting db db' (\<lambda>r. t_id r = tf_id t \<and> t_status r \<in> {TQueued, TRunning}) g news"
      "\<forall>r. t_status (g r) = st" "\<forall>n \<in> set news. t_run_id n = tf_runID t \<and> t_step_key n = tf_stepKey t \<and> t_id n \<noteq> tf_id t"
      "runs db' = runs db" "suspensions db' = suspensions db" "AdvanceRunArgs (tf_runID t) \<in> job_set db'"
  using fin
proof (cases rule: finishTask_cases)
  case dropped
  then show ?thesis by (intro that(1)) auto
next
  case (finished outJSON errJSON db1)
  show ?thesis
    by (rule that(2) [of "finish_row now st outJSON errJSON" "[]"])
      (use st in \<open>auto simp: rewriting_def finished(2,4) store_simps finish_row_def keeps_slot_def\<close>)
next
  case (retried outJSON errJSON db1 db2)
  obtain n db3 where n: "insert_task n db1 = Inr db3" "db2 = InsertTx (ExecuteTaskArgs (t_id n)) (Some (now + backoff (tf_attempt t))) db3"
    "t_run_id n = tf_runID t" "t_workspace_id n = tf_workspaceID t" "t_step_key n = tf_stepKey t" "t_attempt n = tf_attempt t + 1" "t_status n = TQueued"
    by (rule insert_attempt_Inr [OF retried(5)])
  have db3: "db3 = db1\<lparr>tasks := tasks db1 @ [n]\<rparr>" "t_id n \<notin> t_id ` set (tasks db1)" using n(1) by (auto simp: insert_task_Inr)
  have "t_id ` set (tasks db1) = t_id ` set (tasks db)"
    unfolding retried(2) store_simps by (rule image_map_if) (simp add: finish_row_def)
  with db3(2) ref have "t_id n \<noteq> tf_id t" unfolding ref_ok_def by (metis imageI)
  then show ?thesis
    by (intro that(2) [of "finish_row now st outJSON errJSON" "[n]"])
      (use st n(3-7) in \<open>auto simp: rewriting_def retried(6) n(2) db3(1) retried(2) store_simps finish_row_def keeps_slot_def\<close>)
qed


lemma finishTask_effect:
  assumes fin: "finishTask X now t st out e db = Inr db'" and st: "st \<in> {TSucceeded, TFailed}"
    and ref: "ref_ok t db" and wf: "wf_store db"
  shows "effect db db'" "keeps_steps db db'" "\<forall>row \<in> set (tasks db'). t_id row = tf_id t \<longrightarrow> t_status row \<noteq> TQueued"
proof -
  have "st \<noteq> TSkipped" "st \<noteq> TQueued" using st by auto
  from fin this ref have "effect db db' \<and> keeps_steps db db' \<and>
      (\<forall>row \<in> set (tasks db'). t_id row = tf_id t \<longrightarrow> t_status row \<noteq> TQueued)"
  proof (cases rule: finishTask_rewriting)
    case 1
    then show ?thesis by simp
  next
    case (2 g news)
    let ?P = "\<lambda>r. t_id r = tf_id t \<and> t_status r \<in> {TQueued, TRunning}"
    have run: "t_run_id r = tf_runID t" if "r \<in> set (tasks db)" "?P r" for r
      using ref_ok_row [OF wf ref that(1)] that(2) by (simp add: task_slot_def)
    have "effect db db'"
      by (rule rewriting_effect [OF 2(1,4)]) (use 2 st run in auto)
    moreover have "keeps_steps db db'"
    proof (rule rewriting_steps [OF 2(1)])
      fix n assume "n \<in> set news"
      with 2(3) ref show "\<exists>u \<in> set (tasks db). t_run_id u = t_run_id n \<and> t_step_key u = t_step_key n"
        by (auto simp: ref_ok_def task_slot_def)
    qed
    moreover have "tasks db' = map (\<lambda>r. if ?P r then g r else r) (tasks db) @ news" "\<forall>r. t_id (g r) = t_id r"
      using 2(1) by (auto simp: rewriting_def keeps_slot_def)
    ultimately show ?thesis using 2(2,3) st by auto
  qed
  then show "effect db db'" "keeps_steps db db'"
    "\<forall>row \<in> set (tasks db'). t_id row = tf_id t \<longrightarrow> t_status row \<noteq> TQueued" by auto
qed

lemma suspendTask_effect:
  assumes susp: "suspendTask X rnd t sp db = Inr db'"
  shows "effect db db'" "keeps_steps db db'"
proof -
  from susp have "effect db db' \<and> keeps_steps db db'"
  proof (cases rule: suspendTask_cases)
    case dropped
    then show ?thesis by simp
  next
    case (suspended outJSON db1 db2 s)
    let ?P = "\<lambda>r. t_id r = tf_id t \<and> t_status r = TRunning"
    let ?g = "\<lambda>r. r\<lparr>t_status := TSuspended, t_output := Some outJSON\<rparr>"
    have tabs: "tasks db' = map (\<lambda>r. if ?P r then ?g r else r) (tasks db)" "runs db' = runs db" "versions db' = versions db"
      "suspensions db' = suspensions db @ [s]" "job_set db \<subseteq> job_set db'"
      "su_resume_at s \<noteq> None \<Longrightarrow> ResumeTaskArgs (tf_id t) \<in> job_set db'"
      using insert_suspension_Inr [OF suspended(8)] unfolding suspended(9,2,6)
      by (auto simp: store_simps split: option.splits)
    have rw: "rewriting db db' ?P ?g []" using tabs by (simp add: rewriting_def keeps_slot_def)
    have "effect db db'"
      by (rule rewriting_effect [OF rw tabs(2)]) (use tabs suspended(4) in \<open>auto simp: task_active_def parked_def\<close>)
    moreover have "keeps_steps db db'" by (rule rewriting_steps [OF rw]) simp
    ultimately show ?thesis ..
  qed
  then show "effect db db'" "keeps_steps db db'" by auto
qed

lemma work_end_effect:
  assumes "work_end X now rnd t outcome db = Inr db'" "ref_ok t db" "wf_store db"
  shows "effect db db'" "keeps_steps db db'"
  using assms finishTask_effect(1,2) suspendTask_effect
  by (auto simp: work_end_def split: prod.splits option.splits exec_error.splits)

lemma work_start_effect:
  assumes "work_start X now t config db = Inr (Some db')"
  shows "effect db db'" "keeps_steps db db'"
    and "wf_store db \<Longrightarrow> \<forall>row \<in> set (tasks db'). t_id row = tf_id t \<longrightarrow> t_status row \<noteq> TQueued"
proof -
  let ?P = "\<lambda>r. t_id r = tf_id t \<and> t_status r = TQueued"
  let ?g = "\<lambda>r. r\<lparr>t_status := TRunning, t_started_at := Some now,
         t_input := Some (redact_JSON (tf_redact t) (marshalJSON (JObj config)))\<rparr>"
  have rw: "rewriting db db' ?P ?g []"
    unfolding work_start_Some(2) [OF assms] by (simp add: rewriting_def keeps_slot_def store_simps)
  show "effect db db'"
    by (rule rewriting_effect [OF rw]) (simp_all add: work_start_Some(2) [OF assms] store_simps task_active_def)
  show "keeps_steps db db'" by (rule rewriting_steps [OF rw]) simp
  show "\<forall>row \<in> set (tasks db'). t_id row = tf_id t \<longrightarrow> t_status row \<noteq> TQueued"
    unfolding work_start_Some(2) [OF assms] store_simps by auto
qed

lemma work_prepare_effect:
  assumes prep: "work_prepare X E now tid db = Inr (Returned db')" and wf: "wf_store db"
  shows "effect db db'" "keeps_steps db db'" "\<forall>row \<in> set (tasks db'). t_id row = tid \<longrightarrow> t_status row \<noteq> TQueued"
proof -
  from prep have "effect db db' \<and> keeps_steps db db' \<and>
      (\<forall>row \<in> set (tasks db'). t_id row = tid \<longrightarrow> t_status row \<noteq> TQueued)"
  proof (cases rule: work_prepare_cases)
    case (failed t e db'')
    with finishTask_effect [OF failed(2) _ failed(3) wf] show ?thesis by simp
  next
    case (skipped row)
    then have "row' = row" if "row' \<in> set (tasks db)" "t_id row' = tid" for row'
      using that find_task_iff [OF wf, of tid row'] by simp
    with skipped show ?thesis by auto
  qed simp
  then show "effect db db'" "keeps_steps db db'" "\<forall>row \<in> set (tasks db'). t_id row = tid \<longrightarrow> t_status row \<noteq> TQueued"
    by auto
qed


lemma resumeSuspended_effect:
  assumes res: "resumeSuspended X now tid output redact db = Inr (rid, resumed, db')" and wf: "wf_store db"
  shows "effect db db'" "keeps_steps db db'" "\<forall>row \<in> set (tasks db'). t_id row = tid \<longrightarrow> t_status row \<noteq> TSuspended"
proof -
  let ?P = "\<lambda>r. t_id r = tid \<and> t_status r = TSuspended"
  obtain row out where row: "find_task db tid = Some row" "rid = t_run_id row"
    and resumed: "resumed = (\<exists>r \<in> set (tasks db). ?P r)"
    and tabs: "tasks db' = map (\<lambda>r. if ?P r then resume_row now out r else r) (tasks db)"
      "runs db' = runs db" "versions db' = versions db" "suspensions db' = filter (\<lambda>s. su_task_id s \<noteq> tid) (suspensions db)"
      "job_set db' = job_set db \<union> (if resumed then {AdvanceRunArgs rid} else {})"
    by (rule resumeSuspended_Inr [OF res])
  have rw: "rewriting db db' ?P (resume_row now out) []"
    using tabs by (simp add: rewriting_def keeps_slot_def resume_row_def)
  have report: "AdvanceRunArgs (t_run_id t) \<in> job_set db'" if "t \<in> set (tasks db)" "?P t" for t
  proof -
    have "t = row" using that find_task_SomeD [OF row(1)] row_unique [OF wf, of t row] by simp
    with that row(2) resumed show ?thesis by (auto simp: tabs(5))
  qed
  show "effect db db'"
  proof (rule rewriting_effect [OF rw tabs(2) report])
    fix t su
    assume "\<not> (t_id t = tid \<and> t_status t = TSuspended)" "t_status t = TSuspended"
      "su \<in> set (suspensions db)" "su_task_id su = t_id t"
    then show "su \<in> set (suspensions db')" by (simp add: tabs(4))
  qed (simp_all add: resume_row_def)
  show "keeps_steps db db'" by (rule rewriting_steps [OF rw]) simp
  show "\<forall>row \<in> set (tasks db'). t_id row = tid \<longrightarrow> t_status row \<noteq> TSuspended"
  proof (intro ballI impI)
    fix row' assume "row' \<in> set (tasks db')" "t_id row' = tid"
    then obtain r where "row' = (if ?P r then resume_row now out r else r)" unfolding tabs(1) set_map by blast
    then show "t_status row' \<noteq> TSuspended" using \<open>t_id row' = tid\<close> by (cases "?P r") (simp_all add: resume_row_def)
  qed
qed

lemma Work_ResumeTask_effect:
  assumes "Work_ResumeTask X now tid db = Inr db'" "wf_store db"
  shows "effect db db'" "keeps_steps db db'"
    and "served W R db \<Longrightarrow> \<forall>row \<in> set (tasks db'). t_id row = tid \<longrightarrow> t_status row \<noteq> TSuspended"
proof -
  have "effect db db' \<and> keeps_steps db db' \<and>
      (served W R db \<longrightarrow> (\<forall>row \<in> set (tasks db'). t_id row = tid \<longrightarrow> t_status row \<noteq> TSuspended))"
  proof (cases "find (\<lambda>s. su_task_id s = tid) (suspensions db)")
    case None
    with assms(1) have "db' = db" by (simp add: Work_ResumeTask_def)
    with None show ?thesis by (auto simp: find_None_iff_ball served_def task_served_def parked_def)
  next
    case (Some s)
    with assms(1) obtain rid resumed where
      "resumeSuspended X now tid (decoded X (su_payload s)) None db = Inr (rid, resumed, db')"
      by (auto simp: Work_ResumeTask_def rbind_Inr_iff)
    from resumeSuspended_effect [OF this assms(2)] show ?thesis by blast
  qed
  then show "effect db db'" "keeps_steps db db'"
    "served W R db \<Longrightarrow> \<forall>row \<in> set (tasks db'). t_id row = tid \<longrightarrow> t_status row \<noteq> TSuspended" by blast+
qed

lemma ResumeSuspendedTask_effect:
  assumes "ResumeSuspendedTask X E now h payload db = (res, db')" "wf_store db"
  shows "effect db db'" "keeps_steps db db'"
  using assms resumeSuspended_effect(1,2) [OF _ assms(2)]
  by (auto simp: ResumeSuspendedTask_def split: option.splits sum.splits prod.splits)

lemma reapTask_effect:
  assumes reap: "reapTask X now o' db = Inr db'" and ok: "orphan_ok o' db" and wf: "wf_store db"
  shows "effect db db' \<and> keeps_steps db db'"
  using reap
proof (cases rule: reapTask_cases)
  case dropped
  then show ?thesis by simp
next
  case (reaped db1 db2)
  let ?P = "\<lambda>r. t_id r = or_id o' \<and> t_status r = TRunning"
  let ?g = "reap_row now (message_json orphanedMessage)"
  obtain news where news: "tasks db2 = tasks db1 @ news" "runs db2 = runs db1" "versions db2 = versions db1"
    "suspensions db2 = suspensions db1" "job_set db1 \<subseteq> job_set db2"
    "\<forall>n \<in> set news. t_status n = TQueued \<and> ExecuteTaskArgs (t_id n) \<in> job_set db2 \<and> t_run_id n = or_runID o' \<and> t_step_key n = or_stepKey o'"
  proof (cases "or_attempt o' \<le> orphan_retries o'")
    case False
    with reaped(3) show ?thesis by (intro that [of "[]"]) auto
  next
    case True
    with reaped(3) have "insert_attempt X now (or_runID o') (or_workspaceID o') (or_stepKey o') (or_attempt o' + 1)
         (Some (now + backoff (or_attempt o'))) db1 = Inr db2" by simp
    then show ?thesis
    proof (rule insert_attempt_Inr)
      fix n db3
      assume "insert_task n db1 = Inr db3" "db2 = InsertTx (ExecuteTaskArgs (t_id n)) (Some (now + backoff (or_attempt o'))) db3"
        "t_run_id n = or_runID o'" "t_step_key n = or_stepKey o'" "t_status n = TQueued"
      then show ?thesis by (intro that [of "[n]"]) (auto simp: insert_task_Inr store_simps)
    qed
  qed
  have rw: "rewriting db db' ?P ?g news"
    using news by (auto simp: rewriting_def reaped(4,2) store_simps)
  have slot: "task_slot row = (or_runID o', or_stepKey o', or_attempt o')" if "row \<in> set (tasks db)" "?P row" for row
    using ok that row_unique [OF wf, of _ row] unfolding orphan_ok_def by metis
  have "effect db db'"
  proof (rule rewriting_effect [OF rw])
    show "runs db' = runs db" by (simp add: reaped(4,2) news(2) store_simps)
    show "AdvanceRunArgs (t_run_id t) \<in> job_set db'" if "t \<in> set (tasks db)" "?P t" for t
      using slot [OF that] by (simp add: reaped(4) store_simps task_slot_def)
  qed (simp_all add: reap_row_def reaped(4,2) news(4) store_simps)
  moreover have "keeps_steps db db'"
  proof (rule rewriting_steps [OF rw])
    fix n assume "n \<in> set news"
    with news(6) ok show "\<exists>u \<in> set (tasks db). t_run_id u = t_run_id n \<and> t_step_key u = t_step_key n"
      by (auto simp: orphan_ok_def task_slot_def)
  qed
  ultimately show ?thesis ..
qed

lemma reap_each_effect:
  "\<forall>o' \<in> set os. orphan_ok o' db \<Longrightarrow> wf_store db \<Longrightarrow> effect db (reap_each X now os db) \<and> keeps_steps db (reap_each X now os db)"
proof (induction os arbitrary: db)
  case (Cons o' os)
  let ?db1 = "case reapTask X now o' db of Inr db' \<Rightarrow> db' | Inl _ \<Rightarrow> db"
  have one: "effect db ?db1 \<and> keeps_steps db ?db1"
    using Cons.prems reapTask_effect by (auto split: sum.splits)
  have "lifecycle db ?db1"
    using Cons.prems reapTask_lifecycle by (auto split: sum.splits)
  with Cons.prems have "\<forall>o' \<in> set os. orphan_ok o' ?db1" "wf_store ?db1"
    by (auto intro: orphan_ok_lifecycle lifecycleD(1))
  with Cons.IH have "effect ?db1 (reap_each X now os ?db1) \<and> keeps_steps ?db1 (reap_each X now os ?db1)" by blast
  with one show ?case by (auto simp: reap_each_def intro: effect_trans keeps_steps_trans)
qed (simp add: reap_each_def)

lemma reapOrphans_effect:
  assumes "wf_store db"
  shows "effect db (reapOrphans X now db)" "keeps_steps db (reapOrphans X now db)"
proof -
  have "\<forall>o' \<in> set (select_orphans now db). orphan_ok o' db"
    using select_orphans_ok [of _ now db] unfolding orphan_ok_def by blast
  from reap_each_effect [OF this assms] show "effect db (reapOrphans X now db)" "keeps_steps db (reapOrphans X now db)"
    by (simp_all add: reapOrphans_def)
qed


lemma sweep_trigger_effect:
  "sweep_trigger X C now db st = Some db' \<Longrightarrow> effect db db' \<and> keeps_steps db db'"
  by (auto simp: sweep_trigger_def fireSchedule_def rbind_Inr_iff StartRunOpts_effect split: sum.splits option.splits)

lemma sweep_fold_effect:
  "foldl (\<lambda>acc st. Option.bind acc (\<lambda>db. sweep_trigger X C now db st)) (Some db) sts = Some db' \<Longrightarrow>
     effect db db' \<and> keeps_steps db db'"
proof (induction sts arbitrary: db)
  case (Cons st sts)
  then obtain db1 where db1: "sweep_trigger X C now db st = Some db1"
    "foldl (\<lambda>acc st. Option.bind acc (\<lambda>db. sweep_trigger X C now db st)) (Some db1) sts = Some db'"
    by (cases "sweep_trigger X C now db st") (auto simp: sweep_fold_None)
  from sweep_trigger_effect [OF db1(1)] Cons.IH [OF db1(2)] show ?case
    by (auto intro: effect_trans keeps_steps_trans)
qed simp

section \<open>The advance\<close>

text \<open>The new rows of an advance are first tasks of ready steps of its own run.\<close>

definition first_task :: "db \<Rightarrow> uuid \<Rightarrow> wf_definition \<Rightarrow> task_row \<Rightarrow> bool" where
  "first_task db rid d t \<longleftrightarrow>
     t_run_id t = rid \<and> (\<exists>s \<in> set (d_steps d). st_key s = t_step_key t \<and> step_ready db rid s)"

lemma set_run_status_other:
  assumes "i \<noteq> rid"
  shows "find_run (set_run_failed now rid db) i = find_run db i"
    "find_run (set_run_succeeded now rid db) i = find_run db i"
    "find_run (set_run_running now rid db) i = find_run db i"
  unfolding set_run_failed_def set_run_succeeded_def set_run_running_def
  by (rule find_run_other [OF _ _ assms]; simp)+

lemma set_run_version_ids:
  "r_version_id ` set (runs (set_run_failed now rid db)) = r_version_id ` set (runs db)"
  "r_version_id ` set (runs (set_run_succeeded now rid db)) = r_version_id ` set (runs db)"
  "r_version_id ` set (runs (set_run_running now rid db)) = r_version_id ` set (runs db)"
  unfolding set_run_failed_def set_run_succeeded_def set_run_running_def store_simps
  by (rule image_map_if, simp add: mark_failed_def mark_succeeded_def mark_running_def)+

lemma advanceRun_rewriting:
  assumes adv: "advanceRun X now rid db = Inr db'"
    and def: "run_json db rid = Some j" "Parse j = Inr d" "valid_definition d known"
  obtains news where "rewriting db db' (\<lambda>_. False) (cancel_task 0) news" "suspensions db' = suspensions db"
    "\<forall>i. i \<noteq> rid \<longrightarrow> find_run db' i = find_run db i" "r_version_id ` set (runs db') = r_version_id ` set (runs db)"
    "\<forall>t \<in> set news. first_task db rid d t"
  using adv
proof (cases rule: advanceRun_cases)
  case (terminal r)
  then show ?thesis by (intro that [of "[]"] rewriting_append) simp_all
next
  case (failed r j' d')
  then show ?thesis
    by (intro that [of "[]"] rewriting_append)
      (simp_all add: set_run_status_other set_run_version_ids, simp_all add: set_run_failed_def store_simps)
next
  case (succeeded r j' d')
  then show ?thesis
    by (intro that [of "[]"] rewriting_append)
      (simp_all add: set_run_status_other set_run_version_ids, simp_all add: set_run_succeeded_def store_simps)
next
  case (enqueued r j' d' acc)
  with def have eq: "d' = d" by simp
  obtain news where news: "loop_inserts (guard_status X db d r) r (ready_keys db rid d) (db, False) acc news"
    by (rule advance_news [OF enqueued(7) [unfolded eq] enqueued(1) valid_definition_distinct [OF def(3)]])
  have keys: "map t_step_key news = ready_keys db rid d" and acc: "runs (fst acc) = runs db"
    using news by (simp_all add: loop_inserts_def)
  have "first_task db rid d t" if "t \<in> set news" for t
  proof -
    have "t_step_key t \<in> set (ready_keys db rid d)" unfolding keys [symmetric] using that by simp
    then show ?thesis
      using news that find_run_SomeD [OF enqueued(1)] by (auto simp: first_task_def ready_keys_def loop_inserts_def)
  qed
  moreover have "rewriting db db' (\<lambda>_. False) (cancel_task 0) news"
    by (rule rewriting_append) (use news in \<open>auto simp: enqueued(8) loop_inserts_def store_simps task_active_def\<close>)
  moreover have "find_run db' i = find_run db i" if "i \<noteq> rid" for i
    using acc by (simp add: enqueued(8) enqueued_def set_run_status_other [OF that]) (simp add: find_run_def store_simps)
  moreover have "r_version_id ` set (runs db') = r_version_id ` set (runs db)"
    using acc by (simp add: enqueued(8) enqueued_def set_run_version_ids store_simps)
  moreover have "suspensions db' = suspensions db"
    using news by (simp add: enqueued(8) loop_inserts_def store_simps)
  ultimately show ?thesis by (intro that [of news]) auto
qed

lemma runs_valid_json:
  assumes "runs_valid known db" "find_run db rid = Some r"
  obtains j d where "run_json db rid = Some j" "Parse j = Inr d" "valid_definition d known"
proof -
  have "r_version_id r \<in> v_id ` set (versions db)"
    using assms find_run_SomeD [OF assms(2)] by (auto simp: runs_valid_def)
  then obtain v where v: "find_version db (r_version_id r) = Some v"
    by (cases "find_version db (r_version_id r)") (auto simp: find_version_def find_None_iff_ball)
  then have "v \<in> set (versions db)" by (auto simp: find_version_def dest: find_SomeD)
  with assms(1) obtain d where "Parse (v_definition v) = Inr d" "Validate d known = None"
    by (auto simp: runs_valid_def deployable_def)
  with v assms(2) show thesis by (intro that) (auto simp: run_json_def Validate_None_iff)
qed

lemma advanceRun_effect:
  assumes adv: "advanceRun X now rid db = Inr db'" and valid: "runs_valid known db"
  shows "run_live db' rid" "runs_valid known db'"
    and "\<And>i. i \<noteq> rid \<Longrightarrow> run_live db i \<Longrightarrow> run_live db' i" and "\<And>W R. served W R db \<Longrightarrow> served W R db'"
    and "wf_store db \<Longrightarrow> \<forall>t \<in> set (tasks db). in_order db t \<Longrightarrow> \<forall>t \<in> set (tasks db'). in_order db' t"
proof -
  obtain r where r: "find_run db rid = Some r" using adv by (cases rule: advanceRun_cases) auto
  obtain j d where def: "run_json db rid = Some j" "Parse j = Inr d" "valid_definition d known"
    by (rule runs_valid_json [OF valid r])
  obtain news where rw: "rewriting db db' (\<lambda>_. False) (cancel_task 0) news" and su: "suspensions db' = suspensions db"
    and other: "\<forall>i. i \<noteq> rid \<longrightarrow> find_run db' i = find_run db i"
    and vs: "r_version_id ` set (runs db') = r_version_id ` set (runs db)" and new: "\<forall>t \<in> set news. first_task db rid d t"
    by (rule advanceRun_rewriting [OF adv def])
  show "run_live db' rid" by (rule advanceRun_live [OF adv def])
  show "runs_valid known db'" using valid vs rw by (simp add: runs_valid_def rewriting_def)
  show "run_live db' i" if "i \<noteq> rid" "run_live db i" for i
    using that(2) by (rule rewriting_live [OF rw, rotated -1]) (use other that(1) in auto)
  show "served W R db'" if "served W R db" for W R
    using that by (rule rewriting_served [OF rw, rotated -1]) (use su in auto)
  have tasks: "tasks db' = tasks db @ news" using rw by (simp add: rewriting_def)
  assume wf: "wf_store db" and ok: "\<forall>t \<in> set (tasks db). in_order db t"
  have "in_order db t" if "t \<in> set news" for t
    using new that def Step_eq_Some_iff [OF valid_definition_distinct [OF def(3)]]
    by (auto simp: in_order_def first_task_def step_ready_def)
  with ok tasks show "\<forall>t \<in> set (tasks db'). in_order db' t"
    using in_order_mono [OF advanceRun_lifecycle [OF adv] wf] by auto
qed


section \<open>The invariant of the store\<close>

definition store_inv :: "(string \<Rightarrow> bool) option \<Rightarrow> db \<Rightarrow> bool" where
  "store_inv known db \<longleftrightarrow>
     wf_store db \<and> runs_valid known db \<and> (\<forall>t \<in> set (tasks db). in_order db t) \<and> (\<forall>rid. run_live db rid)"

text \<open>
  A transaction that keeps the lifecycle contract, creates no first task and has the effect above
  keeps the invariant. Everything but the advance is such a transaction.
\<close>

locale quiet_transaction = task_lifecycle +
  assumes quiet: "txn db db' \<Longrightarrow> wf_store db \<Longrightarrow> effect db db' \<and> keeps_steps db db'"
begin

lemma keeps_store_inv:
  assumes "txn db db'" "store_inv known db"
  shows "store_inv known db'"
proof -
  from assms(2) have wf: "wf_store db" by (simp add: store_inv_def)
  note eff = conjunct1 [OF quiet [OF assms(1) wf]] and steps = conjunct2 [OF quiet [OF assms(1) wf]]
  show ?thesis
    using assms(2) lifecycleD(1) [OF contract [OF assms(1)] wf] effect_runs_valid [OF eff] effectD(1) [OF eff]
      in_order_keeps_steps [OF contract [OF assms(1)] wf steps]
    by (simp add: store_inv_def)
qed

lemma keeps_served: "txn db db' \<Longrightarrow> wf_store db \<Longrightarrow> served W R db \<Longrightarrow> served W R db'"
  using quiet effectD(2) by blast

end

interpretation quiet_runs: quiet_transaction
  "\<lambda>db db'. wf_store db \<and>
     ((\<exists>X now ws wfl input opts rid created. StartRunOpts X now ws wfl input opts db = Inr (rid, created, db')) \<or>
      (\<exists>now ws rid. CancelRun now ws rid db = Inr db') \<or> (\<exists>X now ws rid. RetryRun X now ws rid db = Inr db'))"
  by unfold_locales
    (auto intro: StartRunOpts_lifecycle CancelRun_lifecycle RetryRun_lifecycle StartRunOpts_effect CancelRun_effect RetryRun_effect)

interpretation quiet_execute: quiet_transaction
  "\<lambda>db db'. wf_store db \<and>
     ((\<exists>X E now tid. work_prepare X E now tid db = Inr (Returned db')) \<or>
      (\<exists>X now t config. work_start X now t config db = Inr (Some db')) \<or>
      (\<exists>X now rnd t outcome. ref_ok t db \<and> work_end X now rnd t outcome db = Inr db'))"
  by unfold_locales
    (auto intro: work_prepare_lifecycle work_start_lifecycle work_end_lifecycle
      dest: work_prepare_effect(1,2) work_start_effect(1,2) work_end_effect)

interpretation quiet_resume: quiet_transaction
  "\<lambda>db db'. (\<exists>X now tid. Work_ResumeTask X now tid db = Inr db') \<or>
     (\<exists>X E now h payload res. ResumeSuspendedTask X E now h payload db = (res, db'))"
  by unfold_locales
    (auto intro: Work_ResumeTask_lifecycle ResumeSuspendedTask_lifecycle
      dest: Work_ResumeTask_effect(1,2) ResumeSuspendedTask_effect)

interpretation quiet_sweeps: quiet_transaction
  "\<lambda>db db'. wf_store db \<and> ((\<exists>X now. db' = reapOrphans X now db) \<or> (\<exists>X C now. sweepSchedules X C now db = Some db'))"
  by unfold_locales
    (auto simp: sweepSchedules_def intro: reapOrphans_lifecycle sweep_fold_lifecycle reapOrphans_effect
      dest: sweep_fold_effect)

section \<open>Jobs taken from the queue\<close>

lemma store_inv_take_job:
  assumes "store_inv known db" "\<And>rid. j_args j \<noteq> AdvanceRunArgs rid"
  shows "store_inv known (take_job j db)"
proof -
  have "run_live (take_job j db) rid" if "run_live db rid" for rid
    using that job_set_take_job(1) [of "AdvanceRunArgs rid" db j] assms(2) [of rid, symmetric]
    by (auto simp: run_live_def find_run_def has_active_task_def store_simps)
  moreover have "in_order (take_job j db) t = in_order db t" for t
    using run_json_cong [of "take_job j db" db]
    by (simp add: in_order_def step_done_def step_status_def step_task_def run_tasks_def store_simps)
  ultimately show ?thesis
    using assms(1) by (simp add: store_inv_def runs_valid_def store_simps)
qed

lemma served_take_job:
  assumes "served W R db"
    and exec: "\<And>tid. j_args j = ExecuteTaskArgs tid \<Longrightarrow> tid \<in> W'" and res: "\<And>tid. j_args j = ResumeTaskArgs tid \<Longrightarrow> tid \<in> R'"
    and sub: "W \<subseteq> W'" "R \<subseteq> R'"
  shows "served W' R' (take_job j db)"
  unfolding served_def
proof
  fix t assume "t \<in> set (tasks (take_job j db))"
  then have t: "task_served W R db t" using assms(1) by (simp add: served_def store_simps)
  have "ExecuteTaskArgs (t_id t) \<in> job_set (take_job j db) \<or> t_id t \<in> W'"
    if "ExecuteTaskArgs (t_id t) \<in> job_set db \<or> t_id t \<in> W"
    using that job_set_take_job(1) [of "ExecuteTaskArgs (t_id t)" db j] exec [of "t_id t"] sub(1) by (metis subsetD)
  moreover have "ResumeTaskArgs (t_id t) \<in> job_set (take_job j db) \<or> t_id t \<in> R'"
    if "ResumeTaskArgs (t_id t) \<in> job_set db \<or> t_id t \<in> R"
    using that job_set_take_job(1) [of "ResumeTaskArgs (t_id t)" db j] res [of "t_id t"] sub(2) by (metis subsetD)
  ultimately show "task_served W' R' (take_job j db) t"
    using t unfolding task_served_def parked_def store_simps by blast
qed

lemma served_drop:
  "served (insert tid W) R db \<Longrightarrow> \<forall>row \<in> set (tasks db). t_id row = tid \<longrightarrow> t_status row \<noteq> TQueued \<Longrightarrow> served W R db"
  "served W (insert tid R) db \<Longrightarrow> \<forall>row \<in> set (tasks db). t_id row = tid \<longrightarrow> t_status row \<noteq> TSuspended \<Longrightarrow> served W R db"
  unfolding served_def task_served_def parked_def by (blast, blast)


lemma served_mono: "served W R db \<Longrightarrow> W \<subseteq> W' \<Longrightarrow> served W' R db"
  unfolding served_def task_served_def by blast

section \<open>The invariant of the system\<close>

definition sys_inv :: "(string \<Rightarrow> bool) option \<Rightarrow> sys \<Rightarrow> bool" where
  "sys_inv known s \<longleftrightarrow> sys_wf s \<and> store_inv known (store s)"

lemma store_inv_wf: "store_inv known db \<Longrightarrow> wf_store db"
  by (simp add: store_inv_def)

lemma store_inv_advance:
  assumes adv: "advanceRun X now rid db = Inr db'" and inv: "store_inv known db0"
    and same: "tasks db = tasks db0" "runs db = runs db0" "versions db = versions db0" "lifecycle db0 db"
    and jobs: "\<And>i. i \<noteq> rid \<Longrightarrow> AdvanceRunArgs i \<in> job_set db0 \<Longrightarrow> AdvanceRunArgs i \<in> job_set db"
  shows "store_inv known db'"
proof -
  have wf: "wf_store db" and valid: "runs_valid known db"
    using inv same by (simp_all add: store_inv_def runs_valid_def lifecycle_def)
  have ord: "\<forall>t \<in> set (tasks db). in_order db t"
    using inv in_order_mono [OF same(4)] by (auto simp: store_inv_def same(1))
  have "run_live db i" if "i \<noteq> rid" for i
    using inv jobs [OF that] by (auto simp: store_inv_def run_live_def find_run_def has_active_task_def same)
  then have "run_live db' i" for i
    using advanceRun_effect(1,3) [OF adv valid] by (cases "i = rid") auto
  with lifecycleD(1) [OF advanceRun_lifecycle [OF adv] wf] advanceRun_effect(2) [OF adv valid]
    advanceRun_effect(5) [OF adv valid wf ord]
  show ?thesis by (simp add: store_inv_def)
qed

lemma store_inv_deploy:
  assumes "store_inv known db" "v_id v \<notin> v_id ` set (versions db)" "deployable known (v_definition v)"
  shows "store_inv known (db\<lparr>versions := versions db @ [v], workflows := wfs\<rparr>)" (is "store_inv known ?db")
proof -
  have life: "lifecycle db ?db" using assms(2) by (rule lifecycle_deploy)
  moreover have "run_live ?db rid = run_live db rid" for rid
    by (simp add: run_live_def find_run_def has_active_task_def job_set_def)
  moreover have "in_order ?db t" if "t \<in> set (tasks db)" for t
    using in_order_mono [OF life, of t] assms(1) that by (simp add: store_inv_def)
  ultimately show ?thesis
    using assms lifecycleD(1) [OF life] by (auto simp: store_inv_def runs_valid_def)
qed

lemma sys_step_store_inv:
  assumes step: "sys_step X E C known lossy s s'" and inv: "sys_inv known s"
  shows "store_inv known (store s')"
proof -
  have store: "store_inv known (store s)" using inv by (simp add: sys_inv_def)
  note wf = store_inv_wf [OF store]
  have ref: "ref_ok t (store s)" if "Prepared t config \<in> set (workers s) \<or> Started t \<in> set (workers s)" for t config
    using inv that unfolding sys_inv_def sys_wf_def by (metis worker_ref.simps)
  from step show ?thesis
  proof (cases rule: sys_step.cases)
    case (start ws wfl input opts rid created db')
    then show ?thesis using quiet_runs.keeps_store_inv [OF _ store, of db'] wf by simp blast
  next
    case (cancel ws rid db')
    then show ?thesis using quiet_runs.keeps_store_inv [OF _ store, of db'] wf by simp blast
  next
    case (retry ws rid db')
    then show ?thesis using quiet_runs.keeps_store_inv [OF _ store, of db'] wf by simp blast
  next
    case (advance j rid db')
    then show ?thesis
      using store_inv_advance [OF advance(4) store _ _ _ lifecycle_take_job] job_set_take_job(1) [of _ "store s" j]
      by (simp add: store_simps)
  next
    case (advance_again rid db')
    then show ?thesis using store_inv_advance [OF advance_again(2) store] by simp
  next
    case (exec_return j tid db')
    have "store_inv known (take_job j (store s))" by (rule store_inv_take_job [OF store]) (simp add: exec_return(3))
    with quiet_execute.keeps_store_inv [OF _ this, of db'] exec_return(1,4) show ?thesis
      using wf by simp blast
  next
    case (exec_prepare j tid t st ex config ctx)
    then show ?thesis using store_inv_take_job [OF store, of j] by simp
  next
    case (exec_start t config db')
    then show ?thesis using quiet_execute.keeps_store_inv [OF _ store, of db'] wf by simp blast
  next
    case (exec_end t rnd outcome db')
    then show ?thesis using quiet_execute.keeps_store_inv [OF _ store, of db'] wf ref [of t]
      by (cases outcome) (simp, blast)
  next
    case (resume j tid db')
    have "store_inv known (take_job j (store s))" by (rule store_inv_take_job [OF store]) (simp add: resume(3))
    with quiet_resume.keeps_store_inv [OF _ this, of db'] resume(1,4) show ?thesis by simp blast
  next
    case (callback h payload res db')
    then show ?thesis using quiet_resume.keeps_store_inv [OF _ store, of db'] by simp blast
  next
    case reap
    then show ?thesis using quiet_sweeps.keeps_store_inv [OF _ store] wf by simp blast
  next
    case (sweep db')
    then show ?thesis using quiet_sweeps.keeps_store_inv [OF _ store, of db'] wf by simp blast
  next
    case (deploy v wfs)
    then show ?thesis using store_inv_deploy [OF store] by simp
  next
    case (exec_lost_job j tid)
    then show ?thesis using store_inv_take_job [OF store, of j] by simp
  qed (use store in simp_all)
qed

lemma reachable_inv:
  assumes "reachable X E C known lossy s"
  shows "sys_inv known s"
proof -
  obtain s0 where s0: "store s0 = empty_db" "workers s0 = []" and path: "(sys_step X E C known lossy)\<^sup>*\<^sup>* s0 s"
    using assms by (auto simp: reachable_def init_sys_def)
  from path show ?thesis
  proof (induction rule: rtranclp_induct)
    case base
    have "store_inv known empty_db"
      using wf_empty_db by (simp add: store_inv_def runs_valid_def run_live_def find_run_def empty_db_def)
    then show ?case using s0 wf_empty_db by (simp add: sys_inv_def sys_wf_def)
  next
    case (step b c)
    then show ?case using sys_step_store_inv sys_step_wf unfolding sys_inv_def by blast
  qed
qed


text \<open>The tasks whose execute job a worker has taken and not yet started.\<close>

fun holds :: "worker \<Rightarrow> uuid set" where
  "holds (Prepared t c) = {tf_id t}"
| "holds (Started t) = {}"

definition held :: "worker list \<Rightarrow> uuid set" where
  "held ws = (\<Union>w \<in> set ws. holds w)"

lemma held_simps [simp]: "held [] = {}" "held (w # ws) = holds w \<union> held ws"
  by (simp_all add: held_def)

lemma held_remove1: "held ws \<subseteq> holds w \<union> held (remove1 w ws)"
  unfolding held_def using in_set_remove1_other [of _ ws w] by blast

lemma served_release:
  assumes "served (held ws) R db" "\<forall>row \<in> set (tasks db). t_id row = tf_id t \<longrightarrow> t_status row \<noteq> TQueued"
  shows "served (held (remove1 (Prepared t c) ws)) R db"
proof -
  have "served (insert (tf_id t) (held (remove1 (Prepared t c) ws))) R db"
    by (rule served_mono [OF assms(1)]) (use held_remove1 [of ws "Prepared t c"] in simp)
  then show ?thesis using assms(2) by (rule served_drop)
qed

lemma served_release_started: "served (held ws) R db \<Longrightarrow> served (held (remove1 (Started t) ws)) R db"
  using served_mono held_remove1 [of ws "Started t"] by simp

lemma sys_step_served:
  assumes step: "sys_step X E C known False s s'" and inv: "sys_inv known s" and sv: "served (held (workers s)) {} (store s)"
  shows "served (held (workers s')) {} (store s')"
proof -
  have store: "store_inv known (store s)" using inv by (simp add: sys_inv_def)
  note wf = store_inv_wf [OF store]
  have ref: "ref_ok t (store s)" if "Started t \<in> set (workers s)" for t
    using inv that unfolding sys_inv_def sys_wf_def by (metis worker_ref.simps(2))
  from step show ?thesis
  proof (cases rule: sys_step.cases)
    case (start ws wfl input opts rid created db')
    then show ?thesis using effectD(2) [OF StartRunOpts_effect(1) sv] by simp
  next
    case (cancel ws rid db')
    then show ?thesis using effectD(2) [OF CancelRun_effect(1) sv] by simp
  next
    case (retry ws rid db')
    then show ?thesis using effectD(2) [OF RetryRun_effect(1) sv] wf by simp
  next
    case (advance j rid db')
    have "served (held (workers s)) {} (take_job j (store s))"
      by (rule served_take_job [OF sv]) (simp_all add: advance(3))
    moreover have "runs_valid known (take_job j (store s))"
      using store by (simp add: store_inv_def runs_valid_def store_simps)
    ultimately show ?thesis using advanceRun_effect(4) [OF advance(4)] advance(1) by simp
  next
    case (advance_again rid db')
    moreover have "runs_valid known (store s)" using store by (simp add: store_inv_def)
    ultimately show ?thesis using advanceRun_effect(4) [OF advance_again(2)] sv by simp
  next
    case (exec_return j tid db')
    have taken: "served (insert tid (held (workers s))) {} (take_job j (store s))"
      by (rule served_take_job [OF sv]) (auto simp: exec_return(3))
    have "wf_store (take_job j (store s))" using wf by simp
    note eff = work_prepare_effect [OF exec_return(4) this]
    from served_drop(1) [OF effectD(2) [OF eff(1) taken] eff(3)] show ?thesis using exec_return(1) by simp
  next
    case (exec_prepare j tid t st ex config ctx)
    have "tf_id t = tid" using exec_prepare(4) by (cases rule: work_prepare_cases) auto
    moreover have "served (insert tid (held (workers s))) {} (take_job j (store s))"
      by (rule served_take_job [OF sv]) (auto simp: exec_prepare(3))
    ultimately show ?thesis using exec_prepare(1) by simp
  next
    case (exec_start t config db')
    from served_release [OF effectD(2) [OF work_start_effect(1) [OF exec_start(3)] sv] work_start_effect(3) [OF exec_start(3) wf]]
    show ?thesis using exec_start(1) by simp
  next
    case (exec_late t config)
    have "\<forall>row \<in> set (tasks (store s)). t_id row = tf_id t \<longrightarrow> t_status row \<noteq> TQueued"
      using exec_late(3) tasks_affected_pos [of "\<lambda>r. t_id r = tf_id t \<and> t_status r = TQueued" "store s"]
      by (auto simp: work_start_def Let_def split: if_splits)
    from served_release [OF sv this] show ?thesis using exec_late(1) by simp
  next
    case (exec_end t rnd outcome db')
    from effectD(2) [OF work_end_effect(1) [OF exec_end(3) ref [OF exec_end(2)] wf] sv] show ?thesis
      using exec_end(1) served_release_started by simp
  next
    case (exec_dies t)
    then show ?thesis using sv served_release_started by simp
  next
    case (resume j tid db')
    have taken: "served (held (workers s)) {tid} (take_job j (store s))"
      by (rule served_take_job [OF sv]) (auto simp: resume(3))
    have "wf_store (take_job j (store s))" using wf by simp
    note eff = Work_ResumeTask_effect [OF resume(4) this]
    from served_drop(2) [OF effectD(2) [OF eff(1) taken] eff(3) [OF taken]] show ?thesis using resume(1) by simp
  next
    case (callback h payload res db')
    then show ?thesis using effectD(2) [OF ResumeSuspendedTask_effect(1) sv] wf by simp
  next
    case reap
    then show ?thesis using effectD(2) [OF reapOrphans_effect(1) [OF wf] sv] by simp
  next
    case (sweep db')
    then show ?thesis using sweep_fold_effect effectD(2) sv unfolding sweepSchedules_def by fastforce
  next
    case (deploy v wfs)
    then show ?thesis using sv by (simp add: served_def task_served_def parked_def job_set_def)
  qed (use sv in simp_all)
qed

lemma reachable_served:
  assumes "reachable X E C known False s"
  shows "served (held (workers s)) {} (store s)"
proof -
  obtain s0 where s0: "store s0 = empty_db" "workers s0 = []" and path: "(sys_step X E C known False)\<^sup>*\<^sup>* s0 s"
    using assms by (auto simp: reachable_def init_sys_def)
  from path show ?thesis
  proof (induction rule: rtranclp_induct)
    case base
    then show ?case using s0 by (simp add: served_def empty_db_def)
  next
    case (step b c)
    have "reachable X E C known False b" using step(1) s0 by (auto simp: reachable_def init_sys_def)
    from sys_step_served [OF step(2) reachable_inv [OF this] step(3)] show ?case .
  qed
qed


section \<open>A sample history\<close>

definition demo_deployed :: sys where
  "demo_deployed = \<lparr>store = empty_db\<lparr>versions := versions demo_db, workflows := workflows demo_db\<rparr>, workers = [], clock = 5\<rparr>"

definition demo_started_run :: sys where
  "demo_started_run = demo_deployed\<lparr>store :=
     snd (snd (ok_or (0, False, demo_db) (StartRunOpts demo_X 5 7 3 JNull zero_opts (store demo_deployed))))\<rparr>"

definition demo_advance :: "sys \<Rightarrow> sys" where
  "demo_advance s = s\<lparr>store := ok_or (store s) (advanceRun demo_X 5 1 (store s))\<rparr>"

definition demo_job :: job_row where
  "demo_job = \<lparr>j_args = ExecuteTaskArgs 1, j_queue = ''tasks'', j_max_attempts = Some 1, j_scheduled_at = None\<rparr>"

definition demo_prepared :: sys where
  "demo_prepared = (demo_advance demo_started_run)\<lparr>store := take_job demo_job (store (demo_advance demo_started_run)),
     workers := [Prepared demo_secret_ref []]\<rparr>"

definition demo_executing :: sys where
  "demo_executing = demo_prepared\<lparr>store :=
     (case work_start demo_X 5 demo_secret_ref [] (store demo_prepared) of Inr (Some db') \<Rightarrow> db' | _ \<Rightarrow> demo_db),
     workers := [Started demo_secret_ref]\<rparr>"

definition demo_executed :: sys where
  "demo_executed = demo_executing\<lparr>store :=
     ok_or demo_db (work_end demo_X 5 [] demo_secret_ref (JNull, None) (store demo_executing)), workers := []\<rparr>"

lemma demo_reachable_trans:
  "reachable X E C known lossy s \<Longrightarrow> sys_step X E C known lossy s s' \<Longrightarrow> reachable X E C known lossy s'"
  unfolding reachable_def by (meson rtranclp.rtrancl_into_rtrancl)

lemma demo_advance_reachable:
  assumes "reachable demo_X E C known lossy s" "clock s = 5"
    and "advanceRun demo_X 5 1 (store s) = Inr (store (demo_advance s))"
  shows "reachable demo_X E C known lossy (demo_advance s)"
proof -
  have "demo_advance s = s\<lparr>store := store (demo_advance s)\<rparr>" by (simp add: demo_advance_def)
  moreover have "sys_step demo_X E C known lossy s (s\<lparr>store := store (demo_advance s)\<rparr>)"
    by (rule sys_step.advance_again) (use assms in simp)
  ultimately show ?thesis using demo_reachable_trans [OF assms(1)] by simp
qed

lemma demo_ready_reachable: "reachable demo_X demo_engine C None lossy (demo_advance demo_started_run)"
proof -
  let ?s0 = "\<lparr>store = empty_db, workers = [], clock = 5\<rparr> :: sys"
  have "init_sys empty_db ?s0" by (simp add: init_sys_def)
  then have "reachable demo_X demo_engine C None lossy ?s0" by (auto simp: reachable_def)
  moreover have "sys_step demo_X demo_engine C None lossy ?s0 (?s0\<lparr>store := (store ?s0)\<lparr>
      versions := versions (store ?s0) @ [hd (versions demo_db)], workflows := workflows demo_db\<rparr>\<rparr>)"
  proof (rule sys_step.deploy)
    have "Parse (v_definition (hd (versions demo_db))) = Inr demo_def" "Validate demo_def None = None" by code_simp+
    then show "deployable None (v_definition (hd (versions demo_db)))" by (auto simp: deployable_def)
  qed (simp add: empty_db_def)
  moreover have "?s0\<lparr>store := (store ?s0)\<lparr>versions := versions (store ?s0) @ [hd (versions demo_db)],
      workflows := workflows demo_db\<rparr>\<rparr> = demo_deployed"
    by (simp add: demo_deployed_def demo_db_def empty_db_def)
  ultimately have one: "reachable demo_X demo_engine C None lossy demo_deployed" using demo_reachable_trans by metis
  have "StartRunOpts demo_X 5 7 3 JNull zero_opts (store demo_deployed) = Inr (1, True, store demo_started_run)" by code_simp
  then have "sys_step demo_X demo_engine C None lossy demo_deployed (demo_deployed\<lparr>store := store demo_started_run\<rparr>)"
    by (intro sys_step.start) (simp add: demo_deployed_def)
  moreover have "demo_deployed\<lparr>store := store demo_started_run\<rparr> = demo_started_run" by (simp add: demo_started_run_def)
  ultimately have two: "reachable demo_X demo_engine C None lossy demo_started_run" using demo_reachable_trans [OF one] by metis
  have "clock demo_started_run = 5" "advanceRun demo_X 5 1 (store demo_started_run) = Inr (store (demo_advance demo_started_run))"
    by code_simp+
  from demo_advance_reachable [OF two this] show ?thesis .
qed

lemma demo_executed_reachable: "reachable demo_X demo_engine C None lossy (demo_advance demo_executed)"
proof -
  let ?s = "demo_advance demo_started_run"
  have at: "clock ?s = 5" "clock demo_prepared = 5" "clock demo_executing = 5" "workers ?s = []"
    "workers demo_prepared = [Prepared demo_secret_ref []]" "workers demo_executing = [Started demo_secret_ref]"
    "j_args demo_job = ExecuteTaskArgs 1" by code_simp+
  have "demo_job \<in> set (jobs (store ?s))" by code_simp
  moreover have "case work_prepare demo_X demo_engine 5 1 (take_job demo_job (store ?s)) of
      Inr (Ready t s ex c ctx) \<Rightarrow> t = demo_secret_ref \<and> c = [] | _ \<Rightarrow> False" by code_simp
  then obtain st ex ctx where
    "work_prepare demo_X demo_engine (clock ?s) 1 (take_job demo_job (store ?s)) = Inr (Ready demo_secret_ref st ex [] ctx)"
    by (auto simp: at split: sum.splits phase.splits)
  ultimately have "sys_step demo_X demo_engine C None lossy ?s (?s\<lparr>store := take_job demo_job (store ?s),
      workers := Prepared demo_secret_ref [] # workers ?s\<rparr>)"
    using sys_step.exec_prepare at(7) by blast
  then have "sys_step demo_X demo_engine C None lossy ?s demo_prepared" by (simp add: demo_prepared_def at)
  then have one: "reachable demo_X demo_engine C None lossy demo_prepared" by (rule demo_reachable_trans [OF demo_ready_reachable])
  have "work_start demo_X 5 demo_secret_ref [] (store demo_prepared) = Inr (Some (store demo_executing))" by code_simp
  then have "sys_step demo_X demo_engine C None lossy demo_prepared (demo_prepared\<lparr>store := store demo_executing,
      workers := Started demo_secret_ref # remove1 (Prepared demo_secret_ref []) (workers demo_prepared)\<rparr>)"
    by (intro sys_step.exec_start) (simp_all add: at)
  moreover have "demo_prepared\<lparr>store := store demo_executing, workers := [Started demo_secret_ref]\<rparr> = demo_executing"
    by (simp add: demo_executing_def)
  ultimately have two: "reachable demo_X demo_engine C None lossy demo_executing"
    using demo_reachable_trans [OF one] by (simp add: at)
  have "work_end demo_X 5 [] demo_secret_ref (JNull, None) (store demo_executing) = Inr (store demo_executed)" by code_simp
  then have "sys_step demo_X demo_engine C None lossy demo_executing (demo_executing\<lparr>store := store demo_executed,
      workers := remove1 (Started demo_secret_ref) (workers demo_executing)\<rparr>)"
    by (intro sys_step.exec_end) (simp_all add: at)
  moreover have "demo_executing\<lparr>store := store demo_executed, workers := []\<rparr> = demo_executed"
    by (simp add: demo_executed_def)
  ultimately have three: "reachable demo_X demo_engine C None lossy demo_executed"
    using demo_reachable_trans [OF two] by (simp add: at)
  have "clock demo_executed = 5" "advanceRun demo_X 5 1 (store demo_executed) = Inr (store (demo_advance demo_executed))"
    by code_simp+
  from demo_advance_reachable [OF three this] show ?thesis .
qed

section \<open>Properties\<close>

text \<open>
  C1. Steps run in dependency order. In every state the engine can reach, through any interleaving of
  starts, cancels, retries, duplicate advances, workers, crashes, resumes, sweeps and deployments, a
  task exists only for a step all of whose needs, direct and transitive, have succeeded or been skipped.
\<close>

theorem steps_run_in_dependency_order:
  assumes "reachable X E C known lossy s" and "t \<in> set (tasks (store s))"
    and "run_json (store s) (t_run_id t) = Some j" and "Parse j = Inr d" and "n \<in> TransitiveNeeds d (t_step_key t)"
  shows "step_done (store s) (t_run_id t) n"
proof -
  have ord: "\<forall>u \<in> set (tasks (store s)). in_order (store s) u"
    using reachable_inv [OF assms(1)] by (simp add: sys_inv_def store_inv_def)
  have direct: "step_done (store s) (t_run_id t) m"
    if "u \<in> set (tasks (store s))" "t_run_id u = t_run_id t" "(t_step_key u, m) \<in> needs_rel d" for u m
    using ord that assms(3,4) by (auto simp: in_order_def needs_rel_def split: option.splits)
  have "(t_step_key t, n) \<in> (needs_rel d)\<^sup>+" using assms(5) by (simp add: TransitiveNeeds_iff)
  then show ?thesis
  proof (induction rule: trancl_induct)
    case (base m)
    then show ?case by (rule direct [OF assms(2) refl])
  next
    case (step m n)
    from step.IH obtain u where u: "step_task (store s) (t_run_id t) m = Some u"
      by (auto simp: step_done_def step_status_def split: option.splits)
    with step_task_SomeD [OF u] step.hyps(2) show ?case by (intro direct [of u]) auto
  qed
qed

theorem steps_run_in_dependency_order_witness:
  "step_done (store (demo_advance demo_executed)) 1 ''a''"
proof -
  let ?s = "demo_advance demo_executed"
  have t: "length (tasks (store ?s)) = 2" "t_run_id (tasks (store ?s) ! 1) = 1" "t_step_key (tasks (store ?s) ! 1) = ''b''"
    "run_json (store ?s) 1 = Some demo_json" "Parse demo_json = Inr demo_def" "''a'' \<in> TransitiveNeeds demo_def ''b''"
    by code_simp+
  then have "tasks (store ?s) ! 1 \<in> set (tasks (store ?s))" by (intro nth_mem) simp
  from steps_run_in_dependency_order [OF demo_executed_reachable this, of demo_json demo_def "''a''"] t show ?thesis by simp
qed

text \<open>
  C2. No run is ever stranded. In every reachable state, crashes and lost jobs included, a run that is
  not finished has an advance in the queue or a task that is queued, running or suspended.
\<close>

theorem no_run_is_ever_stranded:
  assumes "reachable X E C known lossy s" and "find_run (store s) rid = Some r" and "\<not> run_terminal (r_status r)"
  shows "AdvanceRunArgs rid \<in> job_set (store s) \<or>
    (\<exists>t \<in> set (tasks (store s)). t_run_id t = rid \<and> task_active (t_status t))"
  using reachable_inv [OF assms(1)] assms(2,3)
  by (auto simp: sys_inv_def store_inv_def run_live_def has_active_task_def)

theorem no_run_is_ever_stranded_witness:
  "AdvanceRunArgs 1 \<in> job_set (store (demo_advance demo_started_run)) \<or>
    (\<exists>t \<in> set (tasks (store (demo_advance demo_started_run))). t_run_id t = 1 \<and> task_active (t_status t))"
proof -
  let ?s = "demo_advance demo_started_run"
  have "case find_run (store ?s) 1 of Some r \<Rightarrow> \<not> run_terminal (r_status r) | None \<Rightarrow> False" by code_simp
  then obtain r where "find_run (store ?s) 1 = Some r" "\<not> run_terminal (r_status r)" by (auto split: option.splits)
  then show ?thesis by (rule no_run_is_ever_stranded [OF demo_ready_reachable])
qed


text \<open>The query of the reaper finds every running row: its joins never lose one.\<close>

lemma running_task_is_selected:
  assumes inv: "store_inv known db" and t: "t \<in> set (tasks db)" "t_status t = TRunning" "t_started_at t = Some st"
    and late: "st + 20 * Minute < now"
  shows "\<exists>o' \<in> set (select_orphans now db). or_id o' = t_id t"
proof -
  have wf: "wf_store db" by (rule store_inv_wf [OF inv])
  have "t_run_id t \<in> r_id ` set (runs db)" using wf t(1) by (simp add: wf_store_def tasks_have_runs_def)
  then have "find_run db (t_run_id t) \<noteq> None" by (auto simp: find_run_def find_None_iff_ball)
  then obtain r where r: "find_run db (t_run_id t) = Some r" by blast
  have "runs_valid known db" using inv by (simp add: store_inv_def)
  then obtain j d where "run_json db (t_run_id t) = Some j" "Parse j = Inr d" "valid_definition d known"
    by (rule runs_valid_json [OF _ r])
  then obtain v where "find_version db (r_version_id r) = Some v" using r by (auto simp: run_json_def)
  moreover have "find_task db (t_id t) = Some t" using find_task_iff [OF wf] t(1) by simp
  ultimately have "load_task db (t_id t) = Inr (t, r, v_definition v)" using r by (simp add: load_task_def)
  then obtain o' where o': "orphan_of db t = Some o'" "or_id o' = t_id t" by (auto simp: orphan_of_def)
  moreover have "stuck now t" using t late by (simp add: stuck_def)
  ultimately show ?thesis using t(1) by (force simp: select_orphans_def set_map_filter_iff)
qed

text \<open>
  C3. Every active task has something that will move it on. When no execute job is lost before its task
  is marked running, then in every reachable state a queued task has its execute job in the queue or a
  worker that is about to start it, a running task is picked by every reaper sweep that comes more than
  twenty minutes after its start, and a suspended task has its suspension row, together with its
  resume job when it is a timed one.
\<close>

theorem every_active_task_is_moved_on:
  assumes "reachable X E C known False s" and "t \<in> set (tasks (store s))"
  shows "case t_status t of
      TQueued \<Rightarrow> ExecuteTaskArgs (t_id t) \<in> job_set (store s) \<or>
        (\<exists>ref config. Prepared ref config \<in> set (workers s) \<and> tf_id ref = t_id t)
    | TRunning \<Rightarrow> (\<exists>start. t_started_at t = Some start \<and>
        (\<forall>now > start + 20 * Minute. \<exists>o' \<in> set (select_orphans now (store s)). or_id o' = t_id t))
    | TSuspended \<Rightarrow> (\<exists>su \<in> set (suspensions (store s)). su_task_id su = t_id t \<and>
        (su_resume_at su \<noteq> None \<longrightarrow> ResumeTaskArgs (t_id t) \<in> job_set (store s)))
    | _ \<Rightarrow> True"
proof -
  have inv: "store_inv known (store s)" using reachable_inv [OF assms(1)] by (simp add: sys_inv_def)
  have sv: "task_served (held (workers s)) {} (store s) t"
    using reachable_served [OF assms(1)] assms(2) by (simp add: served_def)
  have hold: "\<exists>ref config. Prepared ref config \<in> set (workers s) \<and> tf_id ref = i" if "i \<in> held (workers s)" for i
  proof -
    from that obtain w where w: "w \<in> set (workers s)" "i \<in> holds w" by (auto simp: held_def)
    show ?thesis
    proof (cases w)
      case (Prepared t c)
      with w show ?thesis by auto
    next
      case (Started t)
      with w(2) show ?thesis by simp
    qed
  qed
  show ?thesis
  proof (cases "t_status t")
    case TQueued
    with sv hold show ?thesis by (auto simp: task_served_def)
  next
    case TRunning
    with sv obtain st where "t_started_at t = Some st" by (auto simp: task_served_def)
    with running_task_is_selected [OF inv assms(2) TRunning] TRunning show ?thesis by simp
  next
    case TSuspended
    with sv show ?thesis by (auto simp: task_served_def parked_def)
  qed simp_all
qed

theorem every_active_task_is_moved_on_witness:
  "ExecuteTaskArgs 1 \<in> job_set (store (demo_advance demo_started_run))"
proof -
  let ?s = "demo_advance demo_started_run"
  have t: "length (tasks (store ?s)) = 1" "t_id (tasks (store ?s) ! 0) = 1" "t_status (tasks (store ?s) ! 0) = TQueued" "workers ?s = []"
    by code_simp+
  then have "tasks (store ?s) ! 0 \<in> set (tasks (store ?s))" by (intro nth_mem) simp
  from every_active_task_is_moved_on [OF demo_ready_reachable this] t show ?thesis by simp
qed

end
