(* ===== verification/Ownership.thy ===== *)
theory Ownership
  imports Gateway Engine_Invariants
begin

text \<open>
  The agreement of the ownership columns as an invariant of the whole platform: the transactions of the
  engine (\<^verbatim>\<open>internal/engine\<close>), with workers in flight, interleaved with the requests of the API. A
  worker keeps the run and workspace of its task while other transactions run, and writes them into
  new rows; \<open>ref_owned\<close> says that they are still those of the row.
\<close>

section \<open>Steps that keep the owners of tasks\<close>

definition task_cols :: "db \<Rightarrow> (uuid \<times> uuid \<times> uuid) set" where
  "task_cols db = (\<lambda>t. (t_id t, t_run_id t, t_workspace_id t)) ` set (tasks db)"

definition keeps_owners :: "db \<Rightarrow> db \<Rightarrow> bool" where
  "keeps_owners db db' \<longleftrightarrow>
     tenancy db' \<and> task_cols db \<subseteq> task_cols db' \<and>
     (\<forall>p \<in> task_cols db'. p \<in> task_cols db \<or> fst p \<notin> fst ` task_cols db)"

lemma keeps_owners_refl: "tenancy db \<Longrightarrow> keeps_owners db db"
  by (simp add: keeps_owners_def)

lemma keeps_owners_tenancy: "keeps_owners db db' \<Longrightarrow> tenancy db'"
  by (simp add: keeps_owners_def)

lemma keeps_owners_trans:
  assumes ab: "keeps_owners a b" and bc: "keeps_owners b c"
  shows "keeps_owners a c"
  unfolding keeps_owners_def
proof (intro conjI ballI)
  show "tenancy c" using bc by (rule keeps_owners_tenancy)
  have sub: "task_cols a \<subseteq> task_cols b" "task_cols b \<subseteq> task_cols c" using ab bc by (simp_all add: keeps_owners_def)
  then show "task_cols a \<subseteq> task_cols c" by blast
  fix p assume "p \<in> task_cols c"
  then have "p \<in> task_cols b \<or> fst p \<notin> fst ` task_cols b" using bc by (simp add: keeps_owners_def)
  moreover have "p \<in> task_cols b \<Longrightarrow> p \<in> task_cols a \<or> fst p \<notin> fst ` task_cols a" using ab by (simp add: keeps_owners_def)
  ultimately show "p \<in> task_cols a \<or> fst p \<notin> fst ` task_cols a" using sub(1) by blast
qed

lemma keeps_owners_same_tasks: "tenancy db' \<Longrightarrow> tasks db' = tasks db \<Longrightarrow> keeps_owners db db'"
  by (simp add: keeps_owners_def task_cols_def)

lemma owners_update_tasks:
  assumes "tenancy db" "\<And>t. t_id (f t) = t_id t" "\<And>t. t_workspace_id (f t) = t_workspace_id t" "\<And>t. t_run_id (f t) = t_run_id t"
  shows "keeps_owners db (update_tasks P f db)"
proof -
  have "task_cols (update_tasks P f db) = task_cols db"
    unfolding task_cols_def update_tasks_def
    using image_map_keep [of "\<lambda>t. (t_id t, t_run_id t, t_workspace_id t)" f P "tasks db"] assms(2-4) by simp
  with tenancy_update_tasks [OF assms(1), of f P] assms(2-4) show ?thesis by (simp add: keeps_owners_def)
qed

lemma owners_update_runs:
  assumes "tenancy db" "\<And>r. r_id (f r) = r_id r" "\<And>r. r_workspace_id (f r) = r_workspace_id r" "\<And>r. r_workflow_id (f r) = r_workflow_id r"
    "\<And>r. r_version_id (f r) = r_version_id r"
  shows "keeps_owners db (update_runs P f db)"
  using tenancy_update_runs [OF assms(1), of f P] assms(2-5)
  by (intro keeps_owners_same_tasks) (simp_all add: store_simps)

lemma owners_InsertTx: "keeps_owners db db' \<Longrightarrow> keeps_owners db (InsertTx a at db')"
  using within_jobs [of 0 db' db'] by (simp add: keeps_owners_def task_cols_def store_simps within_def)

lemma owners_take_job: "tenancy db \<Longrightarrow> keeps_owners db (take_job j db)"
  by (intro keeps_owners_same_tasks) (simp_all add: take_job_def tenancy_def owner_defs)

lemma owners_insert_task:
  assumes T: "tenancy db" and ins: "insert_task t db = Inr db'" and own: "(t_run_id t, t_workspace_id t) \<in> run_owners db"
  shows "keeps_owners db db'"
proof -
  have fresh: "t_id t \<notin> t_id ` set (tasks db)" and db': "tasks db' = tasks db @ [t]"
    using ins by (auto simp: insert_task_def split: if_splits)
  have "fst ` task_cols db = t_id ` set (tasks db)" by (auto simp: task_cols_def image_image)
  moreover have "task_cols db' = insert (t_id t, t_run_id t, t_workspace_id t) (task_cols db)" by (auto simp: task_cols_def db')
  ultimately show ?thesis
    using within_insert_task [OF T ins own refl] fresh by (auto simp: keeps_owners_def within_def)
qed

lemma owners_insert_attempt:
  assumes T: "tenancy db" and ins: "insert_attempt X now rid ws k a at db = Inr db'" and own: "(rid, ws) \<in> run_owners db"
  shows "keeps_owners db db'"
  using ins
proof (rule insert_attempt_Inr)
  fix t db1 assume t: "insert_task t db = Inr db1" "db' = InsertTx (ExecuteTaskArgs (t_id t)) at db1" "t_run_id t = rid" "t_workspace_id t = ws"
  then show ?thesis using owners_insert_task [OF T t(1)] own owners_InsertTx by simp
qed

lemma owners_insert_suspension:
  assumes T: "tenancy db" and ins: "insert_suspension s db = Inr db'" and own: "(su_task_id s, su_workspace_id s) \<in> task_owners db"
  shows "keeps_owners db db'"
proof -
  have db': "db' = db\<lparr>suspensions := suspensions db @ [s]\<rparr>" using ins by (auto simp: insert_suspension_def split: if_splits)
  have o: "flow_owners db' = flow_owners db" "run_owners db' = run_owners db" "task_owners db' = task_owners db"
    "version_owners db' = version_owners db" "current_versions db' = current_versions db"
    by (simp_all add: owner_defs db')
  have "tenancy db'" using T own unfolding tenancy_def o by (simp add: db')
  then show ?thesis by (rule keeps_owners_same_tasks) (simp add: db')
qed

lemma owners_delete_suspensions:
  assumes T: "tenancy db" shows "keeps_owners db (delete_suspensions i db)"
proof -
  have o: "flow_owners (delete_suspensions i db) = flow_owners db" "run_owners (delete_suspensions i db) = run_owners db"
    "task_owners (delete_suspensions i db) = task_owners db" "version_owners (delete_suspensions i db) = version_owners db"
    "current_versions (delete_suspensions i db) = current_versions db"
    by (simp_all add: owner_defs delete_suspensions_def)
  have "tenancy (delete_suspensions i db)"
    using T unfolding tenancy_def o by (simp add: delete_suspensions_def image_subset_iff)
  then show ?thesis by (rule keeps_owners_same_tasks) (simp add: delete_suspensions_def)
qed

section \<open>References of workers\<close>

definition ref_owned :: "task_ref \<Rightarrow> db \<Rightarrow> bool" where
  "ref_owned t db \<longleftrightarrow> (\<forall>p \<in> task_cols db. fst p = tf_id t \<longrightarrow> p = (tf_id t, tf_runID t, tf_workspaceID t))"

lemma ref_owned_row:
  assumes "tenancy db" "ref_owned t db" "row \<in> set (tasks db)" "t_id row = tf_id t"
  shows "(tf_runID t, tf_workspaceID t) \<in> run_owners db" "(tf_id t, tf_workspaceID t) \<in> task_owners db"
proof -
  have "t_run_id row = tf_runID t \<and> t_workspace_id row = tf_workspaceID t"
    using assms(2-4) by (force simp: ref_owned_def task_cols_def)
  then show "(tf_runID t, tf_workspaceID t) \<in> run_owners db" "(tf_id t, tf_workspaceID t) \<in> task_owners db"
    using run_of_task [OF assms(1,3)] image_eqI [OF _ assms(3), of _ "\<lambda>t. (t_id t, t_workspace_id t)"] assms(4)
    by (auto simp: task_owners_def)
qed

section \<open>Transactions of the engine\<close>

lemma affected_row: "tasks_affected P db \<noteq> 0 \<Longrightarrow> \<exists>row \<in> set (tasks db). P row"
  using tasks_affected_pos [of P db] by auto

lemma ref_owned_update_tasks:
  assumes "keeps_owners db db'" "tasks_affected (\<lambda>r. t_id r = tf_id t \<and> Q r) db \<noteq> 0" "ref_owned t db" "tenancy db"
  shows "(tf_runID t, tf_workspaceID t) \<in> run_owners db' \<and> (tf_id t, tf_workspaceID t) \<in> task_owners db'"
proof -
  obtain row where row: "row \<in> set (tasks db)" "t_id row = tf_id t" using affected_row [OF assms(2)] by blast
  then have "(tf_id t, t_run_id row, t_workspace_id row) \<in> task_cols db" by (force simp: task_cols_def)
  then have c: "(tf_id t, tf_runID t, tf_workspaceID t) \<in> task_cols db'"
    using assms(1,3) by (force simp: ref_owned_def keeps_owners_def)
  then obtain row' where r': "row' \<in> set (tasks db')" "t_id row' = tf_id t" "t_run_id row' = tf_runID t" "t_workspace_id row' = tf_workspaceID t"
    by (auto simp: task_cols_def)
  show ?thesis
    using run_of_task [OF keeps_owners_tenancy [OF assms(1)] r'(1)] image_eqI [OF _ r'(1), of _ "\<lambda>t. (t_id t, t_workspace_id t)"] r'(2-4)
    by (auto simp: task_owners_def)
qed

lemma owners_finishTask:
  assumes T: "tenancy db" and ref: "ref_owned t db" and fin: "finishTask X now t st out e db = Inr db'"
  shows "keeps_owners db db'"
proof (cases "tasks_affected (\<lambda>r. t_id r = tf_id t \<and> t_status r \<in> {TQueued, TRunning}) db = 0")
  case True
  with fin T show ?thesis by (auto simp: finishTask_def Let_def keeps_owners_refl split: if_splits)
next
  case False
  let ?P = "\<lambda>r. t_id r = tf_id t \<and> t_status r \<in> {TQueued, TRunning}"
  obtain a b db2 where upd: "if st = TFailed \<and> tf_attempt t \<le> tf_retries t
       then insert_attempt X now (tf_runID t) (tf_workspaceID t) (tf_stepKey t) (tf_attempt t + 1)
         (Some (now + backoff (tf_attempt t))) (update_tasks ?P (finish_row now st a b) db) = Inr db2
       else db2 = update_tasks ?P (finish_row now st a b) db"
      and db': "db' = InsertTx (AdvanceRunArgs (tf_runID t)) None db2"
    using fin False by (simp add: finishTask_def Let_def rbind_Inr_iff split: if_splits) blast+
  have 1: "keeps_owners db (update_tasks ?P (finish_row now st a b) db)"
    by (rule owners_update_tasks [OF T]) (simp_all add: finish_row_def)
  have own: "(tf_runID t, tf_workspaceID t) \<in> run_owners (update_tasks ?P (finish_row now st a b) db)"
    using ref_owned_update_tasks [OF 1 False ref T] by blast
  have "keeps_owners db db2"
  proof (cases "st = TFailed \<and> tf_attempt t \<le> tf_retries t")
    case True
    with upd have "keeps_owners (update_tasks ?P (finish_row now st a b) db) db2"
      by (intro owners_insert_attempt [OF keeps_owners_tenancy [OF 1] _ own]) simp
    with 1 show ?thesis by (rule keeps_owners_trans)
  next
    case False with upd 1 show ?thesis by simp
  qed
  then show ?thesis unfolding db' by (rule owners_InsertTx)
qed

lemma owners_suspendTask:
  assumes T: "tenancy db" and ref: "ref_owned t db" and sus: "suspendTask X rnd t susp db = Inr db'"
  shows "keeps_owners db db'"
proof (cases "tasks_affected (\<lambda>r. t_id r = tf_id t \<and> t_status r = TRunning) db = 0")
  case True
  with sus T show ?thesis by (auto simp: suspendTask_def Let_def keeps_owners_refl split: if_splits prod.splits)
next
  case False
  let ?P = "\<lambda>r. t_id r = tf_id t \<and> t_status r = TRunning"
  obtain out s db1 where ins: "insert_suspension s (update_tasks ?P (\<lambda>r. r\<lparr>t_status := TSuspended, t_output := Some out\<rparr>) db) = Inr db1"
      "su_task_id s = tf_id t" "su_workspace_id s = tf_workspaceID t"
      and db': "db' = db1 \<or> (\<exists>a at. db' = InsertTx a at db1)"
    using sus False
    by (simp add: suspendTask_def Let_def rbind_Inr_iff split: if_splits prod.splits option.splits) fastforce+
  have 1: "keeps_owners db (update_tasks ?P (\<lambda>r. r\<lparr>t_status := TSuspended, t_output := Some out\<rparr>) db)"
    by (rule owners_update_tasks [OF T]) simp_all
  have "keeps_owners db db1"
    using ref_owned_update_tasks [OF 1 False ref T] ins(2,3)
    by (intro keeps_owners_trans [OF 1] owners_insert_suspension [OF keeps_owners_tenancy [OF 1] ins(1)]) simp
  with db' show ?thesis by (auto intro: owners_InsertTx)
qed

lemma owners_work_end:
  assumes "tenancy db" "ref_owned t db" "work_end X now rnd t outcome db = Inr db'"
  shows "keeps_owners db db'"
  using assms
  by (auto simp: work_end_def split: prod.splits option.splits exec_error.splits
      intro: owners_finishTask owners_suspendTask)

lemma owners_work_start:
  assumes "tenancy db" "work_start X now t config db = Inr (Some db')"
  shows "keeps_owners db db'"
  using assms
  by (auto simp: work_start_def Let_def split: if_splits intro!: owners_update_tasks)

lemma ref_owned_of_row:
  assumes T: "tenancy db" and row: "find_task db i = Some row"
    and t: "tf_id t = i" "tf_runID t = t_run_id row" "tf_workspaceID t = t_workspace_id row"
  shows "ref_owned t db"
  unfolding ref_owned_def
proof (intro ballI impI)
  fix p assume "p \<in> task_cols db" "fst p = tf_id t"
  then obtain r where r: "r \<in> set (tasks db)" "p = (t_id r, t_run_id r, t_workspace_id r)" "t_id r = i"
    using t(1) by (auto simp: task_cols_def)
  have "row \<in> set (tasks db)" "t_id row = i" using find_SomeD [OF row [unfolded find_task_def]] by simp_all
  moreover have "inj_on t_id (set (tasks db))" using T by (simp add: tenancy_def distinct_map)
  ultimately have "r = row" using r(1,3) by (auto dest: inj_onD)
  with r t show "p = (tf_id t, tf_runID t, tf_workspaceID t)" by simp
qed

lemma load_task_find: "load_task db tid = Inr (row, run, j) \<Longrightarrow> find_task db tid = Some row"
  by (auto simp: load_task_def split: option.splits)

lemma work_prepare_refs:
  assumes "work_prepare X E now tid db = Inr p"
  obtains (skipped) "p = Returned db"
  | (failed) t e db' row where "p = Returned db'" "finishTask X now t TFailed JNull (Some e) db = Inr db'"
      "find_task db tid = Some row" "tf_id t = tid" "tf_runID t = t_run_id row" "tf_workspaceID t = t_workspace_id row"
  | (ready) t s ex config ctx row where "p = Ready t s ex config ctx"
      "find_task db tid = Some row" "tf_id t = tid" "tf_runID t = t_run_id row" "tf_workspaceID t = t_workspace_id row"
proof -
  from assms obtain row run j where load: "load_task db tid = Inr (row, run, j)"
    by (auto simp: work_prepare_def split: sum.splits)
  note row = load_task_find [OF load]
  have fail: thesis if "fail_task X now t e db = Inr p" "tf_id t = tid" "tf_runID t = t_run_id row" "tf_workspaceID t = t_workspace_id row" for t e
    using that(1) failed [OF _ _ row that(2-4)] by (auto simp: fail_task_def rbind_Inr_iff)
  show thesis
  proof (cases "t_status row = TQueued")
    case False
    with assms load have "p = Returned db" by (simp add: work_prepare_def)
    then show thesis by (rule skipped)
  next
    case True
    with assms load show thesis
      unfolding work_prepare_def Let_def
      by (auto split: sum.splits option.splits intro: fail ready [OF _ row])
  qed
qed

lemma owners_work_prepare:
  assumes "tenancy db" "work_prepare X E now tid db = Inr (Returned db')"
  shows "keeps_owners db db'"
  using assms(2)
proof (cases rule: work_prepare_refs)
  case (failed t e db'' row)
  then show ?thesis using owners_finishTask [OF assms(1) ref_owned_of_row [OF assms(1) failed(3-6)] failed(2)] by simp
qed (simp_all add: keeps_owners_refl assms(1))

lemma work_prepare_owned:
  assumes "tenancy db" "work_prepare X E now tid db = Inr (Ready t s ex config ctx)"
  shows "ref_owned t db"
  using assms(2)
proof (cases rule: work_prepare_refs)
  case (ready t' s' ex' config' ctx' row)
  then show ?thesis using ref_owned_of_row [OF assms(1) ready(2-5)] by simp
qed simp_all

lemma owners_resumeSuspended:
  assumes T: "tenancy db" and res: "resumeSuspended X now tid out redact db = Inr (rid, resumed, db')"
  shows "keeps_owners db db'"
proof -
  let ?P = "\<lambda>r. t_id r = tid \<and> t_status r = TSuspended"
  obtain o' where db': "db' = InsertTx (AdvanceRunArgs rid) None (delete_suspensions tid (update_tasks ?P (resume_row now o') db)) \<or>
      db' = delete_suspensions tid (update_tasks ?P (resume_row now o') db)"
    using res by (auto simp: resumeSuspended_def Let_def split: option.splits if_splits)
  have 1: "keeps_owners db (update_tasks ?P (resume_row now o') db)"
    by (rule owners_update_tasks [OF T]) (simp_all add: resume_row_def)
  have "keeps_owners db (delete_suspensions tid (update_tasks ?P (resume_row now o') db))"
    by (rule keeps_owners_trans [OF 1 owners_delete_suspensions [OF keeps_owners_tenancy [OF 1]]])
  with db' show ?thesis by (auto intro: owners_InsertTx)
qed

lemma owners_resumes:
  assumes T: "tenancy db"
  shows "Work_ResumeTask X now tid db = Inr db' \<Longrightarrow> keeps_owners db db'"
    "ResumeSuspendedTask X E now h payload db = (res, db') \<Longrightarrow> keeps_owners db db'"
  using owners_resumeSuspended [OF T] keeps_owners_refl [OF T]
  by (auto simp: Work_ResumeTask_def ResumeSuspendedTask_def rbind_Inr_iff
      split: option.splits sum.splits prod.splits)

section \<open>Starting, canceling, retrying\<close>

lemma within_same_tasks: "within ws db db' \<Longrightarrow> tasks db' = tasks db \<Longrightarrow> keeps_owners db db'"
  by (blast intro: keeps_owners_same_tasks within_tenancy)

lemma StartRunOpts_tasks: "StartRunOpts X now ws i input opts db = Inr (rid, created, db') \<Longrightarrow> tasks db' = tasks db"
  by (erule StartRunOpts_Inr) (auto simp: insert_run_def store_simps split: if_splits)

lemma owners_StartRunOpts:
  assumes "tenancy db" "StartRunOpts X now ws i input opts db = Inr (rid, created, db')"
  shows "keeps_owners db db'"
  using within_StartRunOpts [OF assms] StartRunOpts_tasks [OF assms(2)] by (rule within_same_tasks)

lemma owners_CancelRun:
  assumes T: "tenancy db" and run: "CancelRun now ws rid db = Inr db'"
  shows "keeps_owners db db'"
proof -
  let ?db1 = "update_runs (\<lambda>r. r_id r = rid) (\<lambda>r. r\<lparr>r_status := RCanceled, r_finished_at := Some now\<rparr>) db"
  have db': "db' = update_tasks (\<lambda>t. t_run_id t = rid \<and> t_status t \<in> {TQueued, TRunning, TSuspended}) (cancel_task now) ?db1"
    using run by (auto simp: CancelRun_def rbind_Inr_iff split: if_splits)
  have 1: "keeps_owners db ?db1" by (rule owners_update_runs [OF T]) simp_all
  show ?thesis unfolding db'
    by (rule keeps_owners_trans [OF 1 owners_update_tasks [OF keeps_owners_tenancy [OF 1]]]) (simp_all add: cancel_task_def)
qed

lemma owners_attempts:
  assumes "tenancy db" "(rid, ws) \<in> run_owners db"
    "rfold (\<lambda>db (k, a). insert_attempt X now rid ws k (a + 1) None db) db ks = Inr db'"
  shows "keeps_owners db db'"
  using assms
proof (induction ks arbitrary: db)
  case Nil then show ?case by (simp add: keeps_owners_refl)
next
  case (Cons p ks)
  obtain k a where p: "p = (k, a)" by (cases p)
  obtain db1 where 1: "insert_attempt X now rid ws k (a + 1) None db = Inr db1"
      and rest: "rfold (\<lambda>db (k, a). insert_attempt X now rid ws k (a + 1) None db) db1 ks = Inr db'"
    using Cons.prems(3) by (auto simp: p rbind_Inr_iff)
  have k: "keeps_owners db db1" by (rule owners_insert_attempt [OF Cons.prems(1) 1 Cons.prems(2)])
  have "(rid, ws) \<in> run_owners db1"
    using within_insert_attempt [OF Cons.prems(1) 1 Cons.prems(2)] Cons.prems(2) by auto
  from keeps_owners_trans [OF k Cons.IH [OF keeps_owners_tenancy [OF k] this rest]] show ?case .
qed

lemma owners_RetryRun:
  assumes T: "tenancy db" and run: "RetryRun X now ws rid db = Inr db'"
  shows "keeps_owners db db'"
proof -
  let ?db1 = "update_runs (\<lambda>r. r_id r = rid) (\<lambda>r. r\<lparr>r_status := RRunning, r_finished_at := None, r_error := None\<rparr>) db"
  obtain r db2 where r: "run_for_update db ws rid = Inr r"
      and loop: "rfold (\<lambda>db (k, a). insert_attempt X now rid ws k (a + 1) None db) ?db1 (redos db rid) = Inr db2"
      and db': "db' = InsertTx (AdvanceRunArgs rid) None db2"
    using run by (auto simp: RetryRun_def rbind_Inr_iff split: if_splits)
  have 1: "keeps_owners db ?db1" by (rule owners_update_runs [OF T]) simp_all
  have "run_owners ?db1 = run_owners db"
    unfolding run_owners_def update_runs_def
    using image_map_keep [of "\<lambda>r. (r_id r, r_workspace_id r)" _ "\<lambda>r. r_id r = rid" "runs db"] by simp
  with run_for_update_owned [OF r] have "keeps_owners ?db1 db2"
    by (intro owners_attempts [OF keeps_owners_tenancy [OF 1] _ loop]) simp
  then show ?thesis unfolding db' by (intro owners_InsertTx keeps_owners_trans [OF 1])
qed

section \<open>Advancing\<close>

lemma owners_insert_or_nothing:
  assumes T: "tenancy db" and ins: "insert_task_or_nothing t db = Inr (Some db')" and own: "(t_run_id t, t_workspace_id t) \<in> run_owners db"
  shows "keeps_owners db db' \<and> run_owners db' = run_owners db"
proof -
  have i: "insert_task t db = Inr db'" using ins by (auto simp: insert_task_or_nothing_def insert_task_def split: if_splits)
  from owners_insert_task [OF T i own] within_insert_task [OF T i own refl] show ?thesis by simp
qed

lemma owners_advance_step:
  assumes T: "tenancy (fst acc)" and own: "(r_id r, r_workspace_id r) \<in> run_owners (fst acc)"
    and step: "advance_step X now committed def r acc key = Inr acc'"
  shows "keeps_owners (fst acc) (fst acc') \<and> run_owners (fst acc') = run_owners (fst acc)"
proof -
  have same: "keeps_owners (fst acc) (fst acc) \<and> run_owners (fst acc) = run_owners (fst acc)"
    using T by (simp add: keeps_owners_refl)
  have jobs: "run_owners (InsertTx a at d) = run_owners d" for a at d by (simp add: run_owners_def store_simps)
  have ready: "keeps_owners (fst acc) (fst a) \<and> run_owners (fst a) = run_owners (fst acc)"
    if ins: "insert_ready_row X now r key acc = Inr a" for a
  proof -
    let ?t = "new_task X now (r_id r) (r_workspace_id r) key 1 TQueued (fst acc)"
    obtain i where i: "insert_task_or_nothing ?t (fst acc) = Inr i"
        and a: "a = (case i of None \<Rightarrow> acc | Some d \<Rightarrow> (InsertTx (ExecuteTaskArgs (t_id ?t)) None d, snd acc))"
      using ins by (auto simp: insert_ready_row_def Let_def rbind_Inr_iff split: option.splits)
    show ?thesis
    proof (cases i)
      case None with a same show ?thesis by simp
    next
      case (Some d)
      with owners_insert_or_nothing [OF T] i own have "keeps_owners (fst acc) d \<and> run_owners d = run_owners (fst acc)" by simp
      then show ?thesis by (simp add: a Some jobs owners_InsertTx)
    qed
  qed
  have guard: "keeps_owners (fst acc) (fst a) \<and> run_owners (fst a) = run_owners (fst acc)"
    if ins: "insert_guard_row X now r key st err acc = Inr a" for st err a
  proof -
    let ?t = "(new_task X now (r_id r) (r_workspace_id r) key 1 st (fst acc))\<lparr>t_error := err, t_finished_at := Some now\<rparr>"
    obtain i where i: "insert_task_or_nothing ?t (fst acc) = Inr i"
        and a: "a = (case i of None \<Rightarrow> acc | Some d \<Rightarrow> (d, True))"
      using ins by (auto simp: insert_guard_row_def Let_def rbind_Inr_iff split: option.splits if_splits)
    show ?thesis
    proof (cases i)
      case None with a same show ?thesis by simp
    next
      case (Some d)
      with owners_insert_or_nothing [OF T] i own have "keeps_owners (fst acc) d \<and> run_owners d = run_owners (fst acc)" by simp
      then show ?thesis by (simp add: a Some)
    qed
  qed
  show ?thesis
    using step ready guard by (auto simp: advance_step_def split: option.splits if_splits sum.splits bool.splits)
qed

lemma owners_advance_loop:
  assumes "tenancy (fst acc)" "(r_id r, r_workspace_id r) \<in> run_owners (fst acc)"
    "rfold (advance_step X now committed def r) acc ks = Inr acc'"
  shows "keeps_owners (fst acc) (fst acc')"
  using assms
proof (induction ks arbitrary: acc)
  case Nil then show ?case by (simp add: keeps_owners_refl)
next
  case (Cons k ks)
  obtain acc1 where 1: "advance_step X now committed def r acc k = Inr acc1"
      and rest: "rfold (advance_step X now committed def r) acc1 ks = Inr acc'"
    using Cons.prems(3) by (auto simp: rbind_Inr_iff)
  note s = owners_advance_step [OF Cons.prems(1,2) 1]
  then have "keeps_owners (fst acc1) (fst acc')"
    using Cons.prems(2) by (intro Cons.IH [OF _ _ rest]) (auto intro: keeps_owners_tenancy)
  with s show ?case by (blast intro: keeps_owners_trans)
qed

lemma owners_set_run:
  assumes "tenancy db"
  shows "keeps_owners db (set_run_failed now i db)" "keeps_owners db (set_run_succeeded now i db)" "keeps_owners db (set_run_running now i db)"
  unfolding set_run_failed_def set_run_succeeded_def set_run_running_def
  using assms by (auto intro!: owners_update_runs simp: mark_failed_def mark_succeeded_def mark_running_def)

lemma owners_advanceRun:
  assumes T: "tenancy db" and adv: "advanceRun X now rid db = Inr db'"
  shows "keeps_owners db db'"
proof -
  obtain r j where load: "load_run db rid = Inr (r, j)" using adv by (auto simp: advanceRun_def split: sum.splits)
  then have "r \<in> set (runs db)" by (auto simp: load_run_def find_run_def split: option.splits dest!: find_SomeD)
  then have own: "(r_id r, r_workspace_id r) \<in> run_owners db" by (auto simp: run_owners_def)
  have ready: "keeps_owners db d" if loop: "advance_ready X now def r ks db = Inr d" for def ks d
  proof -
    obtain db1 g where "rfold (advance_step X now db def r) (db, False) ks = Inr (db1, g)"
        and d: "d = set_run_running now (r_id r) (if g then InsertTx (AdvanceRunArgs (r_id r)) None db1 else db1)"
      using loop by (auto simp: advance_ready_def rbind_Inr_iff Let_def)
    with owners_advance_loop [of "(db, False)" r] T own have "keeps_owners db db1" by fastforce
    then have k: "keeps_owners db (if g then InsertTx (AdvanceRunArgs (r_id r)) None db1 else db1)" by (simp add: owners_InsertTx)
    show ?thesis unfolding d by (rule keeps_owners_trans [OF k owners_set_run(3) [OF keeps_owners_tenancy [OF k]]])
  qed
  show ?thesis
    using adv load ready keeps_owners_refl [OF T] owners_set_run [OF T]
    by (auto simp: advanceRun_def rbind_Inr_iff Let_def split: if_splits)
qed

section \<open>Sweeps\<close>

definition orphan_owned :: "orphan \<Rightarrow> db \<Rightarrow> bool" where
  "orphan_owned o' db \<longleftrightarrow> (or_id o', or_runID o', or_workspaceID o') \<in> task_cols db"

lemma orphan_owned_keeps: "keeps_owners db db' \<Longrightarrow> orphan_owned o' db \<Longrightarrow> orphan_owned o' db'"
  by (auto simp: orphan_owned_def keeps_owners_def)

lemma owned_run: "tenancy db \<Longrightarrow> (i, rid, ws) \<in> task_cols db \<Longrightarrow> (rid, ws) \<in> run_owners db"
  by (auto simp: task_cols_def dest: run_of_task)

lemma owners_reapTask:
  assumes T: "tenancy db" and own: "orphan_owned o' db" and reap: "reapTask X now o' db = Inr db'"
  shows "keeps_owners db db'"
  using reap
proof (cases rule: reapTask_cases)
  case dropped then show ?thesis by (simp add: keeps_owners_refl T)
next
  case (reaped db1 db2)
  have 1: "keeps_owners db db1"
    unfolding reaped(2) by (rule owners_update_tasks [OF T]) (simp_all add: reap_row_def)
  have run: "(or_runID o', or_workspaceID o') \<in> run_owners db1"
    using owned_run [OF keeps_owners_tenancy [OF 1]] orphan_owned_keeps [OF 1 own] by (simp add: orphan_owned_def)
  have "keeps_owners db db2"
  proof (cases "or_attempt o' \<le> orphan_retries o'")
    case True
    with reaped(3) have "keeps_owners db1 db2"
      by (intro owners_insert_attempt [OF keeps_owners_tenancy [OF 1] _ run]) simp
    with 1 show ?thesis by (rule keeps_owners_trans)
  next
    case False with reaped(3) 1 show ?thesis by simp
  qed
  then show ?thesis unfolding reaped(4) by (rule owners_InsertTx)
qed

lemma owners_reap_each:
  "tenancy db \<Longrightarrow> \<forall>o' \<in> set os. orphan_owned o' db \<Longrightarrow> keeps_owners db (reap_each X now os db)"
proof (induction os arbitrary: db)
  case Nil then show ?case by (simp add: reap_each_def keeps_owners_refl)
next
  case (Cons o' os)
  let ?db1 = "case reapTask X now o' db of Inr db' \<Rightarrow> db' | Inl _ \<Rightarrow> db"
  have 1: "keeps_owners db ?db1"
    using Cons.prems owners_reapTask [OF Cons.prems(1), of o'] by (cases "reapTask X now o' db") (auto simp: keeps_owners_refl)
  then have "keeps_owners ?db1 (reap_each X now os ?db1)"
    using Cons.prems(2) by (intro Cons.IH) (auto intro: keeps_owners_tenancy orphan_owned_keeps)
  with 1 have "keeps_owners db (reap_each X now os ?db1)" by (rule keeps_owners_trans)
  then show ?case by (simp add: reap_each_def)
qed

lemma owners_reapOrphans: "tenancy db \<Longrightarrow> keeps_owners db (reapOrphans X now db)"
  unfolding reapOrphans_def
proof (rule owners_reap_each)
  have "orphan_owned o' db" if "t \<in> set (tasks db)" "orphan_of db t = Some o'" for t o'
    using that by (force simp: orphan_of_def orphan_owned_def task_cols_def split: sum.splits)
  then show "\<forall>o' \<in> set (select_orphans now db). orphan_owned o' db"
    by (auto simp: select_orphans_def set_map_filter_iff)
qed

lemma owners_sweep_trigger:
  assumes T: "tenancy db" and sweep: "sweep_trigger X C now db st = Some db'"
  shows "keeps_owners db db'"
  using sweep owners_StartRunOpts [OF T] keeps_owners_refl [OF T]
  by (auto simp: sweep_trigger_def fireSchedule_def rbind_Inr_iff split: sum.splits option.splits)

lemma owners_sweepSchedules:
  assumes T: "tenancy db" and sweep: "sweepSchedules X C now db = Some db'"
  shows "keeps_owners db db'"
proof -
  have "keeps_owners db d'" if "keeps_owners db d"
      "foldl (\<lambda>acc st. Option.bind acc (\<lambda>db. sweep_trigger X C now db st)) (Some d) ts = Some d'" for d d' ts
    using that
  proof (induction ts arbitrary: d)
    case (Cons t ts)
    show ?case
    proof (cases "sweep_trigger X C now d t")
      case None
      have "foldl (\<lambda>acc st. Option.bind acc (\<lambda>db. sweep_trigger X C now db st)) None us = None" for us
        by (induction us) simp_all
      with None Cons.prems(2) show ?thesis by simp
    next
      case (Some d1)
      with Cons.prems(1) have "keeps_owners db d1"
        using owners_sweep_trigger [OF keeps_owners_tenancy] keeps_owners_trans by blast
      with Some Cons show ?thesis by simp
    qed
  qed simp
  from this [OF keeps_owners_refl [OF T]] sweep show ?thesis by (simp add: sweepSchedules_def)
qed

section \<open>Requests and the tasks\<close>

definition fresh_cols :: "db \<Rightarrow> db \<Rightarrow> bool" where
  "fresh_cols db db' \<longleftrightarrow> (\<forall>p \<in> task_cols db'. p \<in> task_cols db \<or> fst p \<notin> fst ` task_cols db)"

lemma keeps_owners_fresh: "keeps_owners db db' \<Longrightarrow> fresh_cols db db'"
  by (simp add: keeps_owners_def fresh_cols_def)

lemma fresh_cols_same: "tasks db' = tasks db \<Longrightarrow> fresh_cols db db'"
  by (simp add: fresh_cols_def task_cols_def)

lemma statements_tasks:
  "insert_workflow w db = Inr db' \<Longrightarrow> tasks db' = tasks db" "insert_version v db = Inr db' \<Longrightarrow> tasks db' = tasks db"
  "tasks (set_current i u db) = tasks db" "tasks (update_workflows P f db) = tasks db"
  "insert_trigger t db = Inr db' \<Longrightarrow> tasks db' = tasks db" "update_trigger i ws g db = Inr db' \<Longrightarrow> tasks db' = tasks db"
  "delete_trigger i ws db = Inr (n, db') \<Longrightarrow> tasks db' = tasks db"
  by (auto simp: insert_workflow_def insert_version_def set_current_def update_workflows_def insert_trigger_def
      update_trigger_def delete_trigger_def Let_def split: if_splits)

lemma routes_tasks:
  "tasks (snd (createWorkflow X jsonb_in Has r db)) = tasks db" "tasks (snd (updateWorkflow X A r db)) = tasks db"
  "tasks (snd (putDefinition X A jsonb_in Has r db)) = tasks db" "tasks (snd (createTrigger X A C r db)) = tasks db"
  "tasks (snd (updateTrigger X A C r db)) = tasks db" "tasks (snd (deleteTrigger A r db)) = tasks db"
  unfolding createWorkflow_def updateWorkflow_def putDefinition_def createTrigger_def updateTrigger_def deleteTrigger_def apply_patch_def Let_def
  by (auto simp: statements_tasks(3,4) split: option.splits sum.splits dest!: statements_tasks(1,2,5-7))

lemma delete_fresh: "fresh_cols db (snd (deleteWorkflow A r db))"
proof -
  have "fresh_cols db (delete_workflow i db)" for i
    by (auto simp: fresh_cols_def task_cols_def delete_workflow_def Let_def)
  then show ?thesis
    unfolding deleteWorkflow_def Let_def by (auto simp: fresh_cols_same split: option.split)
qed

lemma run_routes_fresh:
  assumes T: "tenancy db"
  shows "fresh_cols db (snd (startRun X A r db))" "fresh_cols db (snd (cancelRun A r db))" "fresh_cols db (snd (retryRun X A r db))"
  unfolding startRun_def cancelRun_def retryRun_def
  by (auto simp: fresh_cols_same split: option.split sum.split
      intro: keeps_owners_fresh owners_StartRunOpts [OF T] owners_CancelRun [OF T] owners_RetryRun [OF T])

lemma routes_fresh:
  assumes h: "(p, h) \<in> set (dbRoutes X A C jsonb_in Has)" and T: "tenancy db"
  shows "fresh_cols db (snd (h r db))"
  using h unfolding dbRoutes_defs
  by (auto simp: fresh_cols_same routes_tasks delete_fresh run_routes_fresh [OF T] list_workflows.reads get_workflow.reads
      list_versions.reads get_version.reads list_runs.reads get_run.reads list_triggers.reads)

lemma owners_ingress:
  assumes h: "(p, h) \<in> set (ingressRoutes X E wss)" and T: "tenancy db"
  shows "keeps_owners db (snd (h r db))"
proof -
  have "keeps_owners db (snd (webhook X wss r db))"
  proof (cases "resolve_webhook wss db (PathValue r ''ws'') (PathValue r ''path'')")
    case Nil then show ?thesis by (simp add: webhook_def keeps_owners_refl T)
  next
    case (Cons e es)
    then show ?thesis
      using owners_StartRunOpts [OF T] keeps_owners_refl [OF T]
      by (cases e) (auto simp: webhook_def Let_def split: sum.splits option.splits)
  qed
  moreover have "keeps_owners db (snd (resume_handler X E r db))"
    using owners_resumes(2) [OF T] keeps_owners_refl [OF T]
    by (auto simp: resume_handler_def Let_def split: sum.splits prod.splits)
  ultimately show ?thesis using h by (auto simp: ingressRoutes_def MaxBody_def keeps_owners_refl T)
qed

lemma owners_tools:
  assumes T: "tenancy db" shows "keeps_owners db (snd (addWorkspaceTools X A now ws c later db))"
proof (cases c)
  case (RunWorkflow inp)
  have "keeps_owners db db'" if "mcpRunWorkflow X now ws arg input db = Inr (i, db')" for arg input i db'
    using that by (rule mcpRunWorkflow_Inr) (rule owners_StartRunOpts [OF T])
  then show ?thesis
    by (auto simp: RunWorkflow run_workflow_def keeps_owners_refl T split: sum.splits option.splits)
qed (simp_all add: keeps_owners_refl T)

section \<open>The platform\<close>

text \<open>
  A step is a transaction of the engine, or the passing of time, that deploys nothing by itself, a
  request to one of the routes, a webhook or callback, or the call of an MCP tool. Identifiers of tasks are not used again while a worker holds them, as
  random UUIDs are not.
\<close>

definition no_reuse :: "sys \<Rightarrow> sys \<Rightarrow> bool" where
  "no_reuse s s' \<longleftrightarrow>
     (\<forall>w \<in> set (workers s). tf_id (worker_ref w) \<in> fst ` task_cols (store s') \<longrightarrow>
        tf_id (worker_ref w) \<in> fst ` task_cols (store s))"

inductive platform_step ::
  "externals \<Rightarrow> engine \<Rightarrow> api_env \<Rightarrow> cron_env \<Rightarrow> (json \<Rightarrow> json) \<Rightarrow> (string \<Rightarrow> bool) \<Rightarrow> bool \<Rightarrow>
    workspace_row list \<Rightarrow> sys \<Rightarrow> sys \<Rightarrow> bool"
  for X E A C jsonb_in Has lossy wss where
  engine: "sys_step X E C (Some Has) lossy s s' \<Longrightarrow> versions (store s') = versions (store s) \<Longrightarrow> no_reuse s s' \<Longrightarrow>
    platform_step X E A C jsonb_in Has lossy wss s s'"
| request: "(p, h) \<in> set (dbRoutes X A C jsonb_in Has) \<Longrightarrow> s' = s\<lparr>store := snd (h r (store s))\<rparr> \<Longrightarrow> no_reuse s s' \<Longrightarrow>
    platform_step X E A C jsonb_in Has lossy wss s s'"
| ingress: "(p, h) \<in> set (ingressRoutes X E wss) \<Longrightarrow> s' = s\<lparr>store := snd (h r (store s))\<rparr> \<Longrightarrow> no_reuse s s' \<Longrightarrow>
    platform_step X E A C jsonb_in Has lossy wss s s'"
| tool: "s' = s\<lparr>store := snd (addWorkspaceTools X A (clock s) ws c later (store s))\<rparr> \<Longrightarrow> no_reuse s s' \<Longrightarrow>
    platform_step X E A C jsonb_in Has lossy wss s s'"

definition owned :: "sys \<Rightarrow> bool" where
  "owned s \<longleftrightarrow> tenancy (store s) \<and> (\<forall>w \<in> set (workers s). ref_owned (worker_ref w) (store s))"

lemma ref_owned_fresh:
  assumes "ref_owned t db" "fresh_cols db db'" "tf_id t \<in> fst ` task_cols db' \<longrightarrow> tf_id t \<in> fst ` task_cols db"
  shows "ref_owned t db'"
  unfolding ref_owned_def
proof (intro ballI impI)
  fix p assume p: "p \<in> task_cols db'" "fst p = tf_id t"
  with assms(3) have "fst p \<in> fst ` task_cols db" by force
  with p(1) assms(2) have "p \<in> task_cols db" by (auto simp: fresh_cols_def)
  with assms(1) p(2) show "p = (tf_id t, tf_runID t, tf_workspaceID t)" by (simp add: ref_owned_def)
qed

lemma owned_step:
  assumes own: "owned s" and k: "tenancy (store s')" "fresh_cols (store s) (store s')" and nr: "no_reuse s s'"
    and ws: "\<And>w. w \<in> set (workers s') \<Longrightarrow> (\<exists>u \<in> set (workers s). worker_ref u = worker_ref w) \<or> ref_owned (worker_ref w) (store s')"
  shows "owned s'"
  unfolding owned_def
proof (intro conjI ballI)
  fix w assume "w \<in> set (workers s')"
  from ws [OF this] show "ref_owned (worker_ref w) (store s')"
  proof
    assume "\<exists>u \<in> set (workers s). worker_ref u = worker_ref w"
    then obtain u where u: "u \<in> set (workers s)" "worker_ref u = worker_ref w" by blast
    then have "ref_owned (worker_ref w) (store s)" using own unfolding owned_def by metis
    then show ?thesis by (rule ref_owned_fresh [OF _ k(2)]) (use nr u in \<open>simp add: no_reuse_def flip: u(2)\<close>)
  qed
qed (rule k(1))

lemma owned_engine_step:
  assumes step: "sys_step X E C known lossy s s'" and v: "versions (store s') = versions (store s)" and nr: "no_reuse s s'"
    and own: "owned s"
  shows "owned s'"
proof -
  have T: "tenancy (store s)" and refs: "\<And>w. w \<in> set (workers s) \<Longrightarrow> ref_owned (worker_ref w) (store s)"
    using own by (simp_all add: owned_def)
  have taken: "keeps_owners (store s) (take_job j (store s))" for j by (rule owners_take_job [OF T])
  have after: "keeps_owners (store s) d" if "keeps_owners (take_job j (store s)) d" for j d
    using keeps_owners_trans [OF taken that] .
  have T': "tenancy (take_job j (store s))" for j by (rule keeps_owners_tenancy [OF taken])
  note ops = owners_StartRunOpts [OF T] owners_CancelRun [OF T] owners_RetryRun [OF T] owners_advanceRun [OF T]
    owners_resumes(2) [OF T] owners_reapOrphans [OF T] owners_sweepSchedules [OF T]
  have k: "keeps_owners (store s) (store s')"
    using step
  proof cases
    case (deploy v wfs) then show ?thesis using assms(2) by simp
  next
    case (exec_start t config db') then show ?thesis using owners_work_start [OF T] by simp
  next
    case (exec_end t rnd outcome db')
    then show ?thesis using owners_work_end [OF T] refs [of "Started t"] by simp
  qed (simp_all add: ops keeps_owners_refl T taken
      after [OF owners_advanceRun [OF T']] after [OF owners_work_prepare [OF T']] after [OF owners_resumes(1) [OF T']])
  have ws: "(\<exists>u \<in> set (workers s). worker_ref u = worker_ref w) \<or> ref_owned (worker_ref w) (store s')" if "w \<in> set (workers s')" for w
    using step
  proof cases
    case (exec_prepare j tid t st ex config ctx)
    then have "ref_owned t (store s')" using work_prepare_owned [OF T'] by simp
    with exec_prepare that show ?thesis by auto
  next
    case (exec_start t config db')
    with that show ?thesis by (auto dest: set_mp [OF set_remove1_subset] intro: bexI [of _ "Prepared t config"])
  qed (use that in \<open>auto dest: set_mp [OF set_remove1_subset]\<close>)
  show ?thesis by (rule owned_step [OF own keeps_owners_tenancy [OF k] keeps_owners_fresh [OF k] nr ws])
qed

lemma owned_request_step:
  assumes h: "(p, h) \<in> set (dbRoutes X A C jsonb_in Has)" and s': "s' = s\<lparr>store := snd (h r (store s))\<rparr>"
    and nr: "no_reuse s s'" and own: "owned s"
  shows "owned s'"
proof (rule owned_step [OF own _ _ nr])
  have T: "tenancy (store s)" using own by (simp add: owned_def)
  show "tenancy (store s')" using within_tenancy [OF dbRoutes_within [OF h T]] by (simp add: s')
  show "fresh_cols (store s) (store s')" using routes_fresh [OF h T] by (simp add: s')
qed (auto simp: s')

lemma owned_store_step:
  assumes k: "keeps_owners (store s) db'" and s': "s' = s\<lparr>store := db'\<rparr>" and nr: "no_reuse s s'" and own: "owned s"
  shows "owned s'"
  by (rule owned_step [OF own _ _ nr])
    (use keeps_owners_tenancy [OF k] keeps_owners_fresh [OF k] in \<open>auto simp: s'\<close>)

text \<open>
  C8. Every row keeps its owner. However transactions of the engine, workers in flight, requests of
  the API, webhooks, callbacks and MCP tool calls interleave, starting from the empty store, the ownership columns agree in every state:
  versions, triggers and runs belong to the workspace of their workflow, tasks to the run's and
  suspensions to the task's, a workflow publishes and a run executes versions of its own workflow only;
  and a worker in flight holds the run and workspace of its task's row.
\<close>

theorem every_row_keeps_its_owner:
  assumes "(platform_step X E A C jsonb_in Has lossy wss)\<^sup>*\<^sup>* s0 s" "init_sys empty_db s0"
  shows "tenancy (store s) \<and> (\<forall>w \<in> set (workers s). ref_owned (worker_ref w) (store s))"
proof -
  have "owned s"
    using assms(1)
  proof (induction rule: rtranclp_induct)
    case base
    then show ?case using assms(2) by (simp add: owned_def init_sys_def tenancy_def owner_defs empty_db_def)
  next
    case (step s s')
    from step(2) show ?case
    proof cases
      case engine then show ?thesis by (rule owned_engine_step [OF _ _ _ step.IH])
    next
      case (request p h r) then show ?thesis by (intro owned_request_step [OF _ _ _ step.IH])
    next
      case (ingress p h r)
      with step.IH have "keeps_owners (store s) (snd (h r (store s)))" by (intro owners_ingress) (auto simp: owned_def)
      then show ?thesis using ingress(2,3) step.IH by (rule owned_store_step)
    next
      case (tool ws c later)
      from step.IH have "keeps_owners (store s) (snd (addWorkspaceTools X A (clock s) ws c later (store s)))"
        by (intro owners_tools) (simp add: owned_def)
      then show ?thesis using tool(1,2) step.IH by (rule owned_store_step)
    qed
  qed
  then show ?thesis by (simp add: owned_def)
qed

definition demo_begin :: sys where
  "demo_begin = \<lparr>store = empty_db, workers = [], clock = 0\<rparr>"

definition demo_creation :: request where
  "demo_creation = (demo_caller 7)\<lparr>rq_body := Some (JObj [(''name'', JStr ''n'')])\<rparr>"

definition demo_created :: sys where
  "demo_created = demo_begin\<lparr>store := snd (createWorkflow demo_X id (\<lambda>_. True) demo_creation (store demo_begin))\<rparr>"

lemma demo_created_workflow: "map w_workspace_id (workflows (store demo_created)) = [7]"
  by code_simp

lemma every_row_keeps_its_owner_witness:
  "map w_workspace_id (workflows (store demo_created)) = [7] \<and> tenancy (store demo_created) \<and>
   list_all (\<lambda>w. ref_owned (worker_ref w) (store demo_created)) (workers demo_created)"
proof -
  have route: "(''POST /v1/workflows'', createWorkflow demo_X id (\<lambda>_. True)) \<in> set (dbRoutes demo_X demo_env demo_cron id (\<lambda>_. True))"
    by (simp add: dbRoutes_defs)
  have "platform_step demo_X demo_engine demo_env demo_cron id (\<lambda>_. True) False [] demo_begin demo_created"
    by (rule platform_step.request [OF route demo_created_def]) (simp add: no_reuse_def demo_begin_def)
  then have "(platform_step demo_X demo_engine demo_env demo_cron id (\<lambda>_. True) False [])\<^sup>*\<^sup>* demo_begin demo_created" by blast
  from every_row_keeps_its_owner [OF this] have "tenancy (store demo_created) \<and>
      (\<forall>w \<in> set (workers demo_created). ref_owned (worker_ref w) (store demo_created))"
    by (simp add: init_sys_def demo_begin_def)
  with demo_created_workflow show ?thesis by (simp add: list_all_iff)
qed

end
