(* ===== verification/Task_Log.thy ===== *)
theory Task_Log
  imports Execute "HOL-Library.Multiset"
begin

text \<open>
  The log handler of a task (\<^verbatim>\<open>internal/engine/dblog.go\<close>): redact, truncate, tee to the process
  logger, count, and store in \<^verbatim>\<open>task_logs\<close> up to a cap. The two atomics that all copies of a handler
  share, the table and the process log are the record \<open>log_sink\<close>; \<^verbatim>\<open>Handle\<close> is two steps on it,
  the addition to the counter and the write, because the goroutines of an executor may log at the
  same time. Notifications of subscribers are not modelled.
\<close>

section \<open>Model\<close>

definition maxLogLine :: nat where
  "maxLogLine = 8192"

definition maxTaskLogs :: nat where
  "maxTaskLogs = 1048576"

definition LevelInfo :: int where
  "LevelInfo = 0"

definition LevelWarn :: int where
  "LevelWarn = 4"

record log_row =
  lr_workspace_id :: uuid
  lr_run_id :: uuid
  lr_task_id :: uuid
  lr_step_key :: string
  lr_level :: int
  lr_message :: string
  lr_fields :: "string option"

text \<open>The process logger behind a handler, as the calls that derived it.\<close>

datatype tee_op = TeeAttrs "(string \<times> json) list" | TeeGroup string

record log_record =
  lc_Level :: int
  lc_Message :: string
  lc_Attrs :: "(string \<times> json) list"

record task_log_handler =
  lh_tee :: "tee_op list"
  lh_redact :: "redactor option"
  lh_ws :: uuid
  lh_run :: uuid
  lh_task :: uuid
  lh_stepKey :: string
  lh_attrs :: "(string \<times> json) list"

record log_sink =
  lg_written :: "64 word"
  lg_capped :: bool
  lg_rows :: "log_row list"
  lg_tee :: "(tee_op list \<times> log_record) list"

definition new_sink :: log_sink where
  "new_sink = \<lparr>lg_written = 0, lg_capped = False, lg_rows = [], lg_tee = []\<rparr>"

definition taskLogger :: "externals \<Rightarrow> task_ref \<Rightarrow> task_log_handler" where
  "taskLogger X t =
     \<lparr>lh_tee = [TeeAttrs [(''run_id'', JStr (uuid_String X (tf_runID t))), (''step'', JStr (tf_stepKey t)),
                         (''attempt'', JNum (Itoa (tf_attempt t)))]],
      lh_redact = tf_redact t, lh_ws = tf_workspaceID t, lh_run = tf_runID t, lh_task = tf_id t,
      lh_stepKey = tf_stepKey t, lh_attrs = []\<rparr>"

definition Enabled :: "int \<Rightarrow> bool" where
  "Enabled level \<longleftrightarrow> LevelInfo \<le> level"

definition truncatedMark :: string where
  "truncatedMark = [CHR 0xE2, CHR 0x80, CHR 0xA6] @ ''(truncated)''"

definition log_message :: "task_log_handler \<Rightarrow> log_record \<Rightarrow> string" where
  "log_message h r =
     (let msg = redact_String (lh_redact h) (lc_Message r) in
      if maxLogLine < length msg then take maxLogLine msg @ truncatedMark else msg)"

text \<open>The map \<^verbatim>\<open>fields\<close>: the attributes of the handler, then those of the record over them.\<close>

definition log_attrs :: "task_log_handler \<Rightarrow> log_record \<Rightarrow> (string \<times> json) list" where
  "log_attrs h r = foldl (\<lambda>m (k, v). AList.update k v m) [] (lh_attrs h @ lc_Attrs r)"

definition marshalled :: "json \<Rightarrow> string" where
  "marshalled v = (case Marshal v of Inr b \<Rightarrow> b | Inl _ \<Rightarrow> [])"

definition log_fields :: "task_log_handler \<Rightarrow> log_record \<Rightarrow> string" where
  "log_fields h r =
     (let fields = log_attrs h r in
      if fields = [] then []
      else let fieldsJSON = redact_JSON (lh_redact h) (marshalled (JObj fields)) in
        if maxLogLine < length fieldsJSON
        then marshalled (JObj [(''truncated'', JStr ''fields exceeded 8KB'')])
        else fieldsJSON)"

definition log_row_of :: "task_log_handler \<Rightarrow> int \<Rightarrow> string \<Rightarrow> string \<Rightarrow> log_row" where
  "log_row_of h level msg fs =
     \<lparr>lr_workspace_id = lh_ws h, lr_run_id = lh_run h, lr_task_id = lh_task h, lr_step_key = lh_stepKey h,
      lr_level = level, lr_message = msg, lr_fields = (if fs = [] then None else Some fs)\<rparr>"

definition row_bytes :: "log_row \<Rightarrow> nat" where
  "row_bytes l = length (lr_message l) + (case lr_fields l of None \<Rightarrow> 0 | Some f \<Rightarrow> length f)"

text \<open>
  \<^verbatim>\<open>insert\<close> is best effort: \<open>accepts\<close> is the answer of the database, which may fail or refuse the row
  (a message that is no valid UTF-8, fields that are no JSON).
\<close>

definition log_insert :: "(log_row \<Rightarrow> bool) \<Rightarrow> log_row \<Rightarrow> log_sink \<Rightarrow> log_sink" where
  "log_insert accepts l s = (if accepts l then s\<lparr>lg_rows := lg_rows s @ [l]\<rparr> else s)"

definition capMessage :: string where
  "capMessage = ''log cap reached (~1MB); further lines dropped''"

text \<open>The first half of \<^verbatim>\<open>Handle\<close>, up to and with \<^verbatim>\<open>h.written.Add\<close>: the line, the total, the new state.\<close>

definition handle_count :: "task_log_handler \<Rightarrow> log_record \<Rightarrow> log_sink \<Rightarrow> log_row \<times> 64 word \<times> log_sink" where
  "handle_count h r s =
     (let msg = log_message h r; fieldsJSON = log_fields h r;
          tee = \<lparr>lc_Level = lc_Level r, lc_Message = msg,
                 lc_Attrs = (if fieldsJSON \<noteq> [] then [(''fields'', JStr fieldsJSON)] else [])\<rparr>;
          tot = lg_written s + word_of_nat (length msg + length fieldsJSON) in
      (log_row_of h (lc_Level r) msg fieldsJSON, tot,
       s\<lparr>lg_tee := lg_tee s @ [(lh_tee h, tee)], lg_written := tot\<rparr>))"

text \<open>The second half: the compare-and-swap on \<^verbatim>\<open>capped\<close> and the insert.\<close>

definition handle_write :: "(log_row \<Rightarrow> bool) \<Rightarrow> task_log_handler \<Rightarrow> log_row \<Rightarrow> 64 word \<Rightarrow> log_sink \<Rightarrow> log_sink" where
  "handle_write accepts h l tot s =
     (if int maxTaskLogs < sint tot
      then (if \<not> lg_capped s
        then log_insert accepts (log_row_of h LevelWarn capMessage []) (s\<lparr>lg_capped := True\<rparr>)
        else s)
      else log_insert accepts l s)"

definition Handle :: "(log_row \<Rightarrow> bool) \<Rightarrow> task_log_handler \<Rightarrow> log_record \<Rightarrow> log_sink \<Rightarrow> log_sink" where
  "Handle accepts h r s = (case handle_count h r s of (l, tot, s') \<Rightarrow> handle_write accepts h l tot s')"

definition WithAttrs :: "task_log_handler \<Rightarrow> (string \<times> json) list \<Rightarrow> task_log_handler" where
  "WithAttrs h attrs = h\<lparr>lh_tee := lh_tee h @ [TeeAttrs attrs], lh_attrs := lh_attrs h @ attrs\<rparr>"

definition WithGroup :: "task_log_handler \<Rightarrow> string \<Rightarrow> task_log_handler" where
  "WithGroup h name = h\<lparr>lh_tee := lh_tee h @ [TeeGroup name]\<rparr>"

text \<open>A call of the logger: \<^verbatim>\<open>slog\<close> asks \<^verbatim>\<open>Enabled\<close> first.\<close>

definition logger_Log :: "(log_row \<Rightarrow> bool) \<Rightarrow> task_log_handler \<Rightarrow> log_record \<Rightarrow> log_sink \<Rightarrow> log_sink" where
  "logger_Log accepts h r s = (if Enabled (lc_Level r) then Handle accepts h r s else s)"

section \<open>The size of a line\<close>

lemma log_message_le: "length (log_message h r) \<le> maxLogLine + 14"
  by (simp add: log_message_def Let_def truncatedMark_def)

lemma truncated_fields_le: "length (marshalled (JObj [(''truncated'', JStr ''fields exceeded 8KB'')])) \<le> maxLogLine"
  by code_simp

lemma log_fields_le: "length (log_fields h r) \<le> maxLogLine"
  using truncated_fields_le by (simp add: log_fields_def Let_def)

lemma row_bytes_log_row_of [simp]: "row_bytes (log_row_of h lv msg fs) = length msg + length fs"
  by (simp add: row_bytes_def log_row_of_def)

definition line_of :: "task_log_handler \<Rightarrow> log_record \<Rightarrow> log_row" where
  "line_of h r = log_row_of h (lc_Level r) (log_message h r) (log_fields h r)"

lemma line_bytes_le: "row_bytes (line_of h r) \<le> 16398"
  using log_message_le [of h r] log_fields_le [of h r] by (simp add: line_of_def maxLogLine_def)

lemma handle_count_line: "handle_count h r s = (l, tot, s') \<Longrightarrow> l = line_of h r"
  by (auto simp: handle_count_def line_of_def Let_def)

lemma handle_count_total:
  "handle_count h r s = (l, tot, s') \<Longrightarrow>
     tot = lg_written s + word_of_nat (row_bytes l) \<and> lg_written s' = tot \<and>
     lg_capped s' = lg_capped s \<and> lg_rows s' = lg_rows s"
  by (auto simp: handle_count_def Let_def)

section \<open>Interleaved calls\<close>

text \<open>
  \<open>log_run accepts hist s p\<close>: calls on handlers of one task have counted the lines \<open>hist\<close>, the newest
  first, in any interleaving; the calls \<open>p\<close> have counted and not written yet.
\<close>

inductive log_run ::
  "(log_row \<Rightarrow> bool) \<Rightarrow> uuid \<Rightarrow> log_row list \<Rightarrow> log_sink \<Rightarrow> (task_log_handler \<times> log_row \<times> 64 word) list \<Rightarrow> bool"
  for accepts :: "log_row \<Rightarrow> bool" and task :: uuid where
  start: "log_run accepts task [] new_sink []"
| counted: "log_run accepts task hist s p \<Longrightarrow> lh_task h = task \<Longrightarrow> Enabled (lc_Level r) \<Longrightarrow>
    handle_count h r s = (l, tot, s') \<Longrightarrow> log_run accepts task (l # hist) s' (p @ [(h, l, tot)])"
| written: "log_run accepts task hist s (p @ (h, l, tot) # q) \<Longrightarrow>
    log_run accepts task hist (handle_write accepts h l tot s) (p @ q)"

definition bytes_of :: "log_row list \<Rightarrow> nat" where
  "bytes_of ls = sum_list (map row_bytes ls)"

text \<open>The lines below the cap: those whose running total is at most the cap.\<close>

fun below_cap :: "log_row list \<Rightarrow> log_row list" where
  "below_cap [] = []"
| "below_cap (l # ls) = (if bytes_of (l # ls) \<le> maxTaskLogs then l # below_cap ls else below_cap ls)"

lemma bytes_of_simps [simp]: "bytes_of [] = 0" "bytes_of (l # ls) = row_bytes l + bytes_of ls"
  by (simp_all add: bytes_of_def)

lemma bytes_below_cap: "bytes_of (below_cap ls) \<le> min (bytes_of ls) maxTaskLogs"
  by (induction ls) auto

lemma below_cap_all: "bytes_of ls \<le> maxTaskLogs \<Longrightarrow> below_cap ls = ls"
  by (induction ls) auto

definition under :: "64 word \<Rightarrow> bool" where
  "under tot \<longleftrightarrow> sint tot \<le> int maxTaskLogs"

text \<open>What holds at every point of an interleaving.\<close>

definition log_inv ::
  "(log_row \<Rightarrow> bool) \<Rightarrow> uuid \<Rightarrow> log_row list \<Rightarrow> log_sink \<Rightarrow> (task_log_handler \<times> log_row \<times> 64 word) list \<Rightarrow> bool" where
  "log_inv accepts task hist s p \<longleftrightarrow>
     sint (lg_written s) = int (bytes_of hist) \<and>
     (\<forall>(h, l, t) \<in> set p. sint t \<le> int (bytes_of hist) \<and> lh_task h = task) \<and>
     (lg_capped s \<longrightarrow> maxTaskLogs < bytes_of hist) \<and>
     (\<exists>D w. D + mset (map (fst \<circ> snd) (filter (\<lambda>(h, l, t). under t) p)) = mset (below_cap hist) \<and>
        mset (lg_rows s) = filter_mset accepts D + w \<and>
        (w = {#} \<or> (\<exists>h. lg_capped s \<and> lh_task h = task \<and> w = {#log_row_of h LevelWarn capMessage []#})))"

lemma hist_bytes: "log_run accepts task hist s p \<Longrightarrow> bytes_of hist \<le> length hist * 16398"
proof (induction rule: log_run.induct)
  case (counted hist s p h r l tot s')
  then have "l = line_of h r" by (blast dest: handle_count_line)
  then show ?case using counted.IH line_bytes_le [of h r] by simp
qed simp_all

lemma hist_lines: "log_run accepts task hist s p \<Longrightarrow> l \<in> set hist \<Longrightarrow> \<exists>h r. l = line_of h r \<and> lh_task h = task"
proof (induction rule: log_run.induct)
  case (counted hist s p h r l tot s')
  then have "l = line_of h r" by (blast dest: handle_count_line)
  then show ?case using counted by auto
qed simp_all


lemma sint_add_nat:
  fixes w :: "64 word"
  assumes "sint w = int b" "b + n < 2 ^ 63"
  shows "sint (w + word_of_nat n) = int (b + n)"
proof -
  have "w = word_of_int (int b)" by (simp flip: assms(1))
  then have w: "w = word_of_nat b" by simp
  have "w + word_of_nat n = word_of_nat (b + n)" by (simp add: w)
  moreover have "sint (word_of_nat m :: 64 word) = int m" if "m < 2 ^ 63" for m
    using that by (simp add: signed_of_nat signed_take_bit_int_eq_self)
  ultimately show ?thesis using assms(2) by metis
qed

lemma log_inv_counted:
  assumes "log_inv accepts task hist s p" "handle_count h r s = (l, tot, s')" "bytes_of (l # hist) < 2 ^ 63"
    and h: "lh_task h = task"
  shows "log_inv accepts task (l # hist) s' (p @ [(h, l, tot)])"
proof -
  note eq = handle_count_total [OF assms(2)]
  have tot: "sint tot = int (bytes_of (l # hist))"
    using assms(1,3) eq sint_add_nat [of "lg_written s" "bytes_of hist" "row_bytes l"] by (simp add: log_inv_def add.commute)
  from assms(1) obtain D w where D:
    "D + mset (map (fst \<circ> snd) (filter (\<lambda>(h, l, t). under t) p)) = mset (below_cap hist)"
    "mset (lg_rows s) = filter_mset accepts D + w" "w = {#} \<or> (\<exists>h. lg_capped s \<and> lh_task h = task \<and> w = {#log_row_of h LevelWarn capMessage []#})"
    unfolding log_inv_def by blast
  have "D + mset (map (fst \<circ> snd) (filter (\<lambda>(h, l, t). under t) (p @ [(h, l, tot)]))) = mset (below_cap (l # hist))"
    using D(1) tot by (simp add: under_def del: bytes_of_simps)
  then have ex: "\<exists>D w. D + mset (map (fst \<circ> snd) (filter (\<lambda>(h, l, t). under t) (p @ [(h, l, tot)]))) = mset (below_cap (l # hist)) \<and>
      mset (lg_rows s') = filter_mset accepts D + w \<and>
      (w = {#} \<or> (\<exists>h. lg_capped s' \<and> lh_task h = task \<and> w = {#log_row_of h LevelWarn capMessage []#}))"
    by (intro exI [of _ D] exI [of _ w]) (use D(2,3) eq in simp)
  have "sint (lg_written s') = int (bytes_of (l # hist))" using tot eq by simp
  moreover have "\<forall>(h', l', t) \<in> set (p @ [(h, l, tot)]). sint t \<le> int (bytes_of (l # hist)) \<and> lh_task h' = task"
    using assms(1) tot h by (fastforce simp: log_inv_def)
  moreover have "lg_capped s' \<longrightarrow> maxTaskLogs < bytes_of (l # hist)" using assms(1) eq by (auto simp: log_inv_def)
  ultimately show ?thesis using ex unfolding log_inv_def by (intro conjI)
qed

lemma log_inv_written:
  assumes "log_inv accepts task hist s (p @ (h, l, tot) # q)"
  shows "log_inv accepts task hist (handle_write accepts h l tot s) (p @ q)"
proof -
  let ?P = "\<lambda>p. mset (map (fst \<circ> snd) (filter (\<lambda>(h, l, t). under t) p))"
  from assms obtain D w where D: "D + ?P (p @ (h, l, tot) # q) = mset (below_cap hist)"
    "mset (lg_rows s) = filter_mset accepts D + w" "w = {#} \<or> (\<exists>h. lg_capped s \<and> lh_task h = task \<and> w = {#log_row_of h LevelWarn capMessage []#})"
    unfolding log_inv_def by blast
  have base: "sint (lg_written s) = int (bytes_of hist)" "\<forall>(h, l, t) \<in> set (p @ q). sint t \<le> int (bytes_of hist) \<and> lh_task h = task"
    "sint tot \<le> int (bytes_of hist)" "lh_task h = task" "lg_capped s \<longrightarrow> maxTaskLogs < bytes_of hist"
    using assms by (auto simp: log_inv_def)
  let ?s = "handle_write accepts h l tot s"
  have keep: "lg_written ?s = lg_written s" by (simp add: handle_write_def log_insert_def)
  have capped: "lg_capped ?s \<longrightarrow> maxTaskLogs < bytes_of hist"
    using base(3,5) by (auto simp: handle_write_def log_insert_def)
  have "\<exists>D w. D + ?P (p @ q) = mset (below_cap hist) \<and> mset (lg_rows ?s) = filter_mset accepts D + w \<and>
      (w = {#} \<or> (\<exists>h. lg_capped ?s \<and> lh_task h = task \<and> w = {#log_row_of h LevelWarn capMessage []#}))"
  proof (cases "under tot")
    case True
    then have "?s = log_insert accepts l s" by (simp add: handle_write_def under_def)
    moreover have "add_mset l D + ?P (p @ q) = mset (below_cap hist)" using D(1) True by simp
    ultimately show ?thesis
      using D(2,3) by (intro exI [of _ "add_mset l D"] exI [of _ w]) (auto simp: log_insert_def)
  next
    case False
    then have P: "D + ?P (p @ q) = mset (below_cap hist)" using D(1) by simp
    have "\<exists>w'. mset (lg_rows ?s) = filter_mset accepts D + w' \<and>
        (w' = {#} \<or> (\<exists>h. lg_capped ?s \<and> lh_task h = task \<and> w' = {#log_row_of h LevelWarn capMessage []#}))"
    proof (cases "lg_capped s")
      case True
      with False have "?s = s" by (simp add: handle_write_def under_def)
      with D(2,3) show ?thesis by auto
    next
      case nc: False
      with D(3) have w: "w = {#}" by blast
      show ?thesis
      proof (cases "accepts (log_row_of h LevelWarn capMessage [])")
        case True
        with nc False D(2) w base(4) show ?thesis
          by (intro exI [of _ "{#log_row_of h LevelWarn capMessage []#}"]) (auto simp: handle_write_def under_def log_insert_def)
      next
        case no: False
        with nc False D(2) w show ?thesis
          by (intro exI [of _ "{#}"]) (auto simp: handle_write_def under_def log_insert_def)
      qed
    qed
    with P show ?thesis by blast
  qed
  with base keep capped show ?thesis unfolding log_inv_def by simp
qed

lemma log_run_inv: "log_run accepts task hist s p \<Longrightarrow> length hist \<le> 2 ^ 48 \<Longrightarrow> log_inv accepts task hist s p"
proof (induction rule: log_run.induct)
  case start
  show ?case by (simp add: log_inv_def new_sink_def)
next
  case (counted hist s p h r l tot s')
  have "log_run accepts task (l # hist) s' (p @ [(h, l, tot)])" using counted.hyps by (rule log_run.counted)
  then have "bytes_of (l # hist) \<le> length (l # hist) * 16398" by (rule hist_bytes)
  also have "\<dots> \<le> 2 ^ 48 * 16398" using counted.prems by (intro mult_right_mono) auto
  finally have "bytes_of (l # hist) < 2 ^ 63" by simp
  then show ?case using counted by (intro log_inv_counted) auto
qed (blast intro: log_inv_written)


section \<open>The cap\<close>

lemma below_cap_subset: "set (below_cap ls) \<subseteq> set ls"
  by (induction ls) auto

lemma bytes_of_mset: "bytes_of ls = (\<Sum>l \<in># mset ls. row_bytes l)"
  by (induction ls) simp_all

lemma stored_bytes:
  assumes "D + P = mset (below_cap hist)"
  shows "(\<Sum>l \<in># filter_mset accepts D. row_bytes l) \<le> maxTaskLogs"
proof -
  have "filter_mset accepts D \<subseteq># mset (below_cap hist)"
    using assms by (metis mset_subset_eq_add_left multiset_filter_subset subset_mset.order_trans)
  then have "(\<Sum>l \<in># filter_mset accepts D. row_bytes l) \<le> bytes_of (below_cap hist)"
    unfolding bytes_of_mset by (auto simp: subset_mset.le_iff_add)
  also have "\<dots> \<le> maxTaskLogs" using bytes_below_cap [of hist] by simp
  finally show ?thesis .
qed


definition demo_handler :: task_log_handler where
  "demo_handler = \<lparr>lh_tee = [], lh_redact = Some (newRedactor [(''k'', ''hunter2'')]), lh_ws = 1, lh_run = 2, lh_task = 3,
     lh_stepKey = ''a'', lh_attrs = []\<rparr>"

definition demo_record :: log_record where
  "demo_record = \<lparr>lc_Level = 0, lc_Message = ''key hunter2'', lc_Attrs = [(''n'', JNum ''1'')]\<rparr>"

definition demo_line :: log_row where
  "demo_line = \<lparr>lr_workspace_id = 1, lr_run_id = 2, lr_task_id = 3, lr_step_key = ''a'', lr_level = 0,
     lr_message = ''key [redacted]'', lr_fields = Some [CHR 0x7B, CHR 0x22, CHR ''n'', CHR 0x22, CHR '':'', CHR ''1'', CHR 0x7D]\<rparr>"

lemma demo_line: "line_of demo_handler demo_record = demo_line"
  by code_simp


end
