(* ===== verification/Runs_Live.thy ===== *)
theory Runs_Live
  imports Task_Log Workflows_Api
begin

text \<open>
  Watching a run (\<^verbatim>\<open>internal/api/api.go\<close>): the event stream \<^verbatim>\<open>runEvents\<close>, which sends a snapshot of
  the run whenever it is woken until the run is over, and the two log endpoints over the table
  \<^verbatim>\<open>task_logs\<close>. The stream is a function of the sequence of events its \<^verbatim>\<open>select\<close> statements receive,
  each with the state of the database at that time.
\<close>

section \<open>The event stream\<close>

text \<open>
  What a \<^verbatim>\<open>select\<close> of the stream can receive: the end of the request, a ping of the change channel, its
  closing, the end of the 250 ms of coalescing, a tick. \<open>snap_write\<close> says whether the client still
  takes the next snapshot.
\<close>

datatype wake = CtxDone | Ping | PingsClosed | CoalesceDone | Tick

record snapshot =
  snap_wake :: wake
  snap_db :: db
  snap_write :: bool

text \<open>\<^verbatim>\<open>send\<close>: the snapshot it writes, and whether the stream ends with it.\<close>

definition send_run :: "uuid \<Rightarrow> uuid \<Rightarrow> snapshot \<Rightarrow> run_detail option \<times> bool" where
  "send_run wsID i s =
     (case fetchRun wsID i (snap_db s) of
        Inl e \<Rightarrow> (None, True)
      | Inr d \<Rightarrow>
          if \<not> snap_write s then (None, True)
          else (Some d, run_status_text (r_status (rd_run d)) \<in> {''succeeded'', ''failed'', ''canceled''}))"

text \<open>
  The two loops. \<open>ch\<close> is whether the ping channel is still open (a receive on the nil channel never
  happens), \<open>draining\<close> whether the stream is inside the coalescing loop. An event that the current
  \<^verbatim>\<open>select\<close> does not wait for is passed over.
\<close>

fun stream :: "uuid \<Rightarrow> uuid \<Rightarrow> bool \<Rightarrow> bool \<Rightarrow> snapshot list \<Rightarrow> run_detail list" where
  "stream wsID i ch draining [] = []"
| "stream wsID i ch draining (s # ss) =
     (let resend = (\<lambda>ch'. case send_run wsID i s of
            (None, _) \<Rightarrow> []
          | (Some d, terminal) \<Rightarrow> d # (if terminal then [] else stream wsID i ch' False ss)) in
      case snap_wake s of
        CtxDone \<Rightarrow> []
      | Ping \<Rightarrow> stream wsID i ch (draining \<or> ch) ss
      | PingsClosed \<Rightarrow>
          (if \<not> ch then stream wsID i ch draining ss
           else if draining then resend False
           else stream wsID i False False ss)
      | CoalesceDone \<Rightarrow> (if draining then resend ch else stream wsID i ch draining ss)
      | Tick \<Rightarrow> (if draining then stream wsID i ch draining ss else resend ch))"

text \<open>
  The handler: the response status, and the snapshots written. \<open>subscribed\<close> is whether the cache took
  the subscription; \<open>s0\<close> is the database when the stream begins.
\<close>

definition runEvents ::
  "api_env \<Rightarrow> bool \<Rightarrow> bool \<Rightarrow> request \<Rightarrow> snapshot \<Rightarrow> snapshot list \<Rightarrow> int \<times> run_detail list" where
  "runEvents A flusher subscribed r s0 ss =
     (case ae_uuid_Parse A (PathValue r ''id'') of
        None \<Rightarrow> (400, [])
      | Some i \<Rightarrow>
          if \<not> flusher then (500, [])
          else (200, case send_run (workspace r) i s0 of
              (None, _) \<Rightarrow> []
            | (Some d, terminal) \<Rightarrow> d # (if terminal then [] else stream (workspace r) i subscribed False ss)))"

definition event_text :: "externals \<Rightarrow> api_env \<Rightarrow> run_detail \<Rightarrow> string" where
  "event_text X A d =
     ''event: run'' @ newline @ ''data: '' @ marshalled (detail_json X A d) @ newline @ newline"

section \<open>Log lines\<close>

record stored_log =
  tl_id :: int
  tl_ts :: timestamp
  tl_line :: log_row

definition run_log :: "uuid \<Rightarrow> uuid \<Rightarrow> stored_log list \<Rightarrow> stored_log list" where
  "run_log wsID i ls = filter (\<lambda>l. lr_run_id (tl_line l) = i \<and> lr_workspace_id (tl_line l) = wsID) ls"

definition page_of_logs :: "uuid \<Rightarrow> uuid \<Rightarrow> int option \<Rightarrow> nat \<Rightarrow> stored_log list \<Rightarrow> stored_log list" where
  "page_of_logs wsID i beforeID limit ls =
     take limit (rev (sort_key tl_id
       (filter (\<lambda>l. case beforeID of None \<Rightarrow> True | Some b \<Rightarrow> tl_id l < b) (run_log wsID i ls))))"

definition log_json :: "externals \<Rightarrow> api_env \<Rightarrow> stored_log \<Rightarrow> json" where
  "log_json X A l = JObj
     [(''id'', JNum (Itoa (tl_id l))), (''task_id'', JStr (uuid_String X (lr_task_id (tl_line l)))),
      (''step_key'', JStr (lr_step_key (tl_line l))), (''ts'', JStr (ae_timestamptz_text A (tl_ts l))),
      (''level'', JNum (Itoa (lr_level (tl_line l)))), (''message'', JStr (lr_message (tl_line l))),
      (''fields'', raw_json X (lr_fields (tl_line l)))]"

definition runLogs :: "externals \<Rightarrow> api_env \<Rightarrow> request \<Rightarrow> stored_log list \<Rightarrow> response" where
  "runLogs X A r ls =
     (case ae_uuid_Parse A (PathValue r ''id'') of
        None \<Rightarrow> s_error 400 ''invalid run id''
      | Some i \<Rightarrow>
          let limit = clampLimit (Query_Get r ''limit'') 500 2000; b = Query_Get r ''before_id'' in
          if b \<noteq> [] \<and> ParseInt b = None then s_error 400 ''invalid before_id cursor''
          else s_json 200 (JArr (map (log_json X A)
            (page_of_logs (workspace r) i (if b = [] then None else ParseInt b) (nat limit) ls))))"

definition levelName :: "int \<Rightarrow> string" where
  "levelName l = (if 8 \<le> l then ''ERROR'' else if 4 \<le> l then ''WARN'' else ''INFO'')"

text \<open>\<^verbatim>\<open>%-5s\<close>: padded on the right to five characters.\<close>

definition pad5 :: "string \<Rightarrow> string" where
  "pad5 s = s @ replicate (5 - length s) (CHR '' '')"

definition log_text :: "api_env \<Rightarrow> stored_log \<Rightarrow> string" where
  "log_text A l =
     ae_timestamptz_text A (tl_ts l) @ '' '' @ pad5 (levelName (lr_level (tl_line l))) @ '' ['' @
     lr_step_key (tl_line l) @ ''] '' @ lr_message (tl_line l) @
     (case lr_fields (tl_line l) of
        None \<Rightarrow> []
      | Some f \<Rightarrow> if f = [] \<or> f = ''null'' then [] else '' '' @ f)"

text \<open>The download: the file name of the attachment, and the text of the file.\<close>

definition runLogsDownload :: "externals \<Rightarrow> api_env \<Rightarrow> request \<Rightarrow> stored_log list \<Rightarrow> go_error + string \<times> string" where
  "runLogsDownload X A r ls =
     (case ae_uuid_Parse A (PathValue r ''id'') of
        None \<Rightarrow> Inl (Errorf ''invalid run id'')
      | Some i \<Rightarrow> Inr (''oarlock-run-'' @ take 8 (uuid_String X i) @ ''.log'',
          concat (map (\<lambda>l. log_text A l @ newline) (sort_key tl_id (run_log (workspace r) i ls)))))"

section \<open>The stream ends with the final state\<close>

lemma send_run_Some:
  assumes "send_run wsID i s = (Some d, terminal)"
  shows "fetchRun wsID i (snap_db s) = Inr d \<and> terminal = run_terminal (r_status (rd_run d))"
  using assms by (cases "r_status (rd_run d)") (auto simp: send_run_def split: sum.splits if_splits)

lemma send_run_ok:
  "snap_write s \<Longrightarrow> fetchRun wsID i (snap_db s) = Inr d \<Longrightarrow> send_run wsID i s = (Some d, run_terminal (r_status (rd_run d)))"
  by (cases "r_status (rd_run d)") (simp_all add: send_run_def)

text \<open>One event: the stream ends, goes on, or sends a snapshot and ends or goes on.\<close>

lemma stream_Cons:
  obtains (ended) "stream wsID i ch dr (s # ss) = []" "snap_wake s = CtxDone \<or> fst (send_run wsID i s) = None"
  | (passed) ch' dr' where "stream wsID i ch dr (s # ss) = stream wsID i ch' dr' ss"
  | (sent) d t ch' where "send_run wsID i s = (Some d, t)"
      "stream wsID i ch dr (s # ss) = d # (if t then [] else stream wsID i ch' False ss)"
proof -
  consider "snap_wake s = CtxDone" | ch' dr' where "stream wsID i ch dr (s # ss) = stream wsID i ch' dr' ss"
    | ch' where "stream wsID i ch dr (s # ss) = (case send_run wsID i s of
            (None, _) \<Rightarrow> []
          | (Some d, terminal) \<Rightarrow> d # (if terminal then [] else stream wsID i ch' False ss))"
    by (cases "snap_wake s"; cases ch; cases dr) auto
  then show thesis
  proof cases
    case 1
    then show ?thesis using ended by simp
  next
    case 2
    then show ?thesis by (rule passed)
  next
    case 3
    obtain o' t where "send_run wsID i s = (o', t)" by (cases "send_run wsID i s")
    with 3 ended sent show ?thesis by (cases o') auto
  qed
qed

text \<open>Everything a stream writes is a state of the run, and only the last can be final.\<close>

lemma stream_writes: "d \<in> set (stream wsID i ch dr ss) \<Longrightarrow> \<exists>s \<in> set ss. fetchRun wsID i (snap_db s) = Inr d"
proof (induction ss arbitrary: ch dr)
  case (Cons s ss)
  show ?case
  proof (cases rule: stream_Cons [of wsID i ch dr s ss])
    case ended
    with Cons.prems show ?thesis by simp
  next
    case passed
    with Cons show ?thesis by fastforce
  next
    case (sent d' t ch')
    with Cons.prems consider "d = d'" | "d \<in> set (stream wsID i ch' False ss)" by (auto split: if_splits)
    then show ?thesis using Cons.IH send_run_Some [OF sent(1)] by cases auto
  qed
qed simp

lemma stream_goes_on:
  "d \<in> set (butlast (stream wsID i ch dr ss)) \<Longrightarrow> \<not> run_terminal (r_status (rd_run d))"
proof (induction ss arbitrary: ch dr)
  case (Cons s ss)
  show ?case
  proof (cases rule: stream_Cons [of wsID i ch dr s ss])
    case ended
    with Cons.prems show ?thesis by simp
  next
    case passed
    with Cons show ?thesis by auto
  next
    case (sent d' t ch')
    with Cons.prems consider "d = d'" "\<not> t" | "d \<in> set (butlast (stream wsID i ch' False ss))" by (auto split: if_splits)
    then show ?thesis using Cons.IH send_run_Some [OF sent(1)] by cases auto
  qed
qed simp

definition ends_final :: "run_detail list \<Rightarrow> bool" where
  "ends_final ds \<longleftrightarrow> ds \<noteq> [] \<and> run_terminal (r_status (rd_run (last ds)))"

text \<open>An event at which the client is there and the run can be read; and one after its end.\<close>

definition watching :: "uuid \<Rightarrow> uuid \<Rightarrow> snapshot \<Rightarrow> bool" where
  "watching wsID i s \<longleftrightarrow> snap_wake s \<noteq> CtxDone \<and> snap_write s \<and> (\<exists>d. fetchRun wsID i (snap_db s) = Inr d)"

definition over :: "uuid \<Rightarrow> uuid \<Rightarrow> snapshot \<Rightarrow> bool" where
  "over wsID i s \<longleftrightarrow> snap_wake s \<noteq> CtxDone \<and> snap_write s \<and>
     (\<exists>d. fetchRun wsID i (snap_db s) = Inr d \<and> run_terminal (r_status (rd_run d)))"

lemma ends_final_sent:
  assumes "send_run wsID i s = (Some d, t)" "t \<or> ends_final ds"
  shows "ends_final (d # (if t then [] else ds))"
  using assms send_run_Some [OF assms(1)] by (auto simp: ends_final_def)

lemma stream_step_final:
  assumes "watching wsID i s" and "\<And>ch dr. ends_final (stream wsID i ch dr ss)"
  shows "ends_final (stream wsID i ch dr (s # ss))"
proof (cases rule: stream_Cons [of wsID i ch dr s ss])
  case ended
  obtain d where "snap_write s" "snap_wake s \<noteq> CtxDone" "fetchRun wsID i (snap_db s) = Inr d"
    using assms(1) unfolding watching_def by blast
  with ended send_run_ok show ?thesis by simp
next
  case passed
  with assms(2) show ?thesis by simp
next
  case sent
  with assms(2) ends_final_sent show ?thesis by simp
qed

lemma over_sends: "over wsID i s \<Longrightarrow> \<exists>d. send_run wsID i s = (Some d, True) \<and> ends_final [d]"
  using send_run_ok by (fastforce simp: over_def ends_final_def)

lemma drained_final:
  "list_all (over wsID i) ss \<Longrightarrow> CoalesceDone \<in> snap_wake ` set ss \<Longrightarrow> ends_final (stream wsID i ch True ss)"
proof (induction ss arbitrary: ch)
  case (Cons s ss)
  then obtain d where d: "send_run wsID i s = (Some d, True)" "ends_final [d]" using over_sends [of wsID i s] by auto
  have s: "snap_wake s \<noteq> CtxDone" using Cons.prems by (simp add: over_def)
  show ?case
  proof (cases "snap_wake s")
    case Ping
    then have "CoalesceDone \<in> snap_wake ` set ss" using Cons.prems by auto
    then show ?thesis using Cons Ping by simp
  next
    case Tick
    then have "CoalesceDone \<in> snap_wake ` set ss" using Cons.prems by auto
    then show ?thesis using Cons Tick by simp
  next
    case PingsClosed
    show ?thesis
    proof (cases ch)
      case True
      then show ?thesis using d PingsClosed by simp
    next
      case False
      then have "CoalesceDone \<in> snap_wake ` set ss" using Cons.prems PingsClosed by auto
      then show ?thesis using Cons PingsClosed False by simp
    qed
  qed (use s d in simp_all)
qed simp

lemma ticked_final:
  "list_all (over wsID i) (a @ t # b) \<Longrightarrow> snap_wake t = Tick \<Longrightarrow> CoalesceDone \<in> snap_wake ` set b \<Longrightarrow>
    ends_final (stream wsID i ch dr (a @ t # b))"
proof (induction a arbitrary: ch dr)
  case Nil
  then obtain d where d: "send_run wsID i t = (Some d, True)" "ends_final [d]" using over_sends [of wsID i t] by auto
  show ?case
  proof (cases dr)
    case True
    then show ?thesis using Nil drained_final by simp
  next
    case False
    then show ?thesis using Nil d by simp
  qed
next
  case (Cons s a)
  have "watching wsID i s" using Cons.prems by (auto simp: over_def watching_def)
  then have "ends_final (stream wsID i ch dr (s # (a @ t # b)))"
    by (rule stream_step_final) (use Cons in auto)
  then show ?case by simp
qed

end
