(* ===== verification/Stats_Api.thy ===== *)
theory Stats_Api
  imports Runs_Live Resources_Api
begin

text \<open>
  The dashboard (\<^verbatim>\<open>internal/api/stats.go\<close>): counts over the rows of a workspace, the last fourteen
  days, the busiest workflows and the latest runs. Dates, the average of intervals, the division of
  floats and the order of names are those of Postgres and Go, fields of \<open>stats_env\<close>; a cast to \<^verbatim>\<open>int\<close>
  that does not fit fails its query, which answers 500.
\<close>

record stats_env =
  se_X :: externals
  se_api :: api_env
  se_date :: "timestamp \<Rightarrow> int"            \<comment> \<open>the day of a timestamp, in the time zone of the session\<close>
  se_date_text :: "int \<Rightarrow> string"
  se_avg_ms :: "int list \<Rightarrow> int"           \<comment> \<open>milliseconds of the average of these nanoseconds\<close>
  se_quotient :: "int \<Rightarrow> int \<Rightarrow> string"     \<comment> \<open>the quotient of two \<^verbatim>\<open>float64\<close>, as JSON\<close>
  se_collation_key :: "string \<Rightarrow> string"

record statsTotals =
  st_Workflows :: nat
  st_Runs :: nat
  st_Succeeded :: nat
  st_Failed :: nat
  st_Canceled :: nat
  st_Active :: nat
  st_Tasks :: nat
  st_LogLines :: nat
  st_Secrets :: nat
  st_MCPServers :: nat
  st_AvgDurationMS :: "int option"
  st_SuccessRate :: "(int \<times> int) option"   \<comment> \<open>succeeded over terminal\<close>

record statsDaily =
  sd_Date :: int
  sd_Succeeded :: nat
  sd_Failed :: nat
  sd_Canceled :: nat

record statsWorkflow =
  sw_ID :: uuid
  sw_Name :: string
  sw_Runs :: nat
  sw_Failed :: nat
  sw_AvgDurationMS :: "int option"
  sw_LastRunAt :: "timestamp option"

record statsRecentRun =
  sr_run :: run_row
  sr_WorkflowName :: string

definition count_if :: "('a \<Rightarrow> bool) \<Rightarrow> 'a list \<Rightarrow> nat" where
  "count_if P xs = length (filter P xs)"

definition workspace_runs :: "uuid \<Rightarrow> db \<Rightarrow> run_row list" where
  "workspace_runs ws db = filter (\<lambda>r. r_workspace_id r = ws) (runs db)"

text \<open>\<^verbatim>\<open>avg(finished_at - started_at)\<close> ignores nulls and is null on nothing; \<open>None\<close>: the cast fails.\<close>

definition durations :: "run_row list \<Rightarrow> int list" where
  "durations rs = List.map_filter (\<lambda>r. case (r_started_at r, r_finished_at r) of
     (Some s, Some f) \<Rightarrow> Some (f - s) | _ \<Rightarrow> None) rs"

definition avg_duration :: "stats_env \<Rightarrow> run_row list \<Rightarrow> int option option" where
  "avg_duration E rs =
     (if durations rs = [] then Some None
      else let n = se_avg_ms E (durations rs) in
        if - (2 ^ 31) \<le> n \<and> n < 2 ^ 31 then Some (Some n) else None)"

definition totals :: "stats_env \<Rightarrow> uuid \<Rightarrow> db \<Rightarrow> resources \<Rightarrow> stored_log list \<Rightarrow> statsTotals option" where
  "totals E ws db R logs =
     (let rs = workspace_runs ws db;
          succeeded = count_if (\<lambda>r. r_status r = RSucceeded) rs;
          failed = count_if (\<lambda>r. r_status r = RFailed) rs;
          canceled = count_if (\<lambda>r. r_status r = RCanceled) rs;
          terminal = succeeded + failed + canceled in
      case avg_duration E rs of
        None \<Rightarrow> None
      | Some avg \<Rightarrow> Some
          \<lparr>st_Workflows = count_if (\<lambda>w. w_workspace_id w = ws) (workflows db),
           st_Runs = length rs, st_Succeeded = succeeded, st_Failed = failed, st_Canceled = canceled,
           st_Active = count_if (\<lambda>r. r_status r \<in> {RQueued, RRunning, RSuspended}) rs,
           st_Tasks = count_if (\<lambda>t. t_workspace_id t = ws) (tasks db),
           st_LogLines = count_if (\<lambda>l. lr_workspace_id (tl_line l) = ws) logs,
           st_Secrets = count_if (\<lambda>s. sk_workspace_id s = ws) (secrets R),
           st_MCPServers = count_if (\<lambda>m. mc_workspace_id m = ws) (mcp_servers R),
           st_AvgDurationMS = avg,
           st_SuccessRate = (if 0 < terminal then Some (int succeeded, int terminal) else None)\<rparr>)"

text \<open>Fourteen days, up to today, each with the runs created on it.\<close>

definition daily :: "stats_env \<Rightarrow> timestamp \<Rightarrow> uuid \<Rightarrow> db \<Rightarrow> statsDaily list" where
  "daily E now ws db =
     map (\<lambda>k. let d = se_date E now - 13 + int k;
              rs = filter (\<lambda>r. se_date E (r_created_at r) = d) (workspace_runs ws db) in
          \<lparr>sd_Date = d, sd_Succeeded = count_if (\<lambda>r. r_status r = RSucceeded) rs,
           sd_Failed = count_if (\<lambda>r. r_status r = RFailed) rs,
           sd_Canceled = count_if (\<lambda>r. r_status r = RCanceled) rs\<rparr>) [0..<14]"

definition last_created :: "run_row list \<Rightarrow> timestamp option" where
  "last_created rs = (case map r_created_at rs of [] \<Rightarrow> None | t # ts \<Rightarrow> Some (foldl max t ts))"

definition stats_workflow :: "stats_env \<Rightarrow> db \<Rightarrow> workflow_row \<Rightarrow> statsWorkflow option" where
  "stats_workflow E db w =
     (let rs = filter (\<lambda>r. r_workflow_id r = w_id w) (runs db) in
      map_option (\<lambda>avg. \<lparr>sw_ID = w_id w, sw_Name = w_name w, sw_Runs = length rs,
          sw_Failed = count_if (\<lambda>r. r_status r = RFailed) rs, sw_AvgDurationMS = avg,
          sw_LastRunAt = last_created rs\<rparr>) (avg_duration E rs))"

text \<open>The groups are computed before they are ordered and cut, so one that fails fails the query.\<close>

definition topWorkflows :: "stats_env \<Rightarrow> uuid \<Rightarrow> db \<Rightarrow> statsWorkflow list option" where
  "topWorkflows E ws db =
     (let xs = map (stats_workflow E db) (filter (\<lambda>w. w_workspace_id w = ws) (workflows db)) in
      if None \<in> set xs then None
      else Some (take 6 (sort_key (\<lambda>x. - int (sw_Runs x))
        (sort_key (\<lambda>x. se_collation_key E (sw_Name x)) (List.map_filter id xs)))))"

definition recent_runs :: "uuid \<Rightarrow> db \<Rightarrow> statsRecentRun list" where
  "recent_runs ws db =
     take 10 (List.map_filter (\<lambda>r. map_option (\<lambda>w. \<lparr>sr_run = r, sr_WorkflowName = w_name w\<rparr>)
         (find (\<lambda>w. w_id w = r_workflow_id r) (workflows db)))
       (sort_key (\<lambda>r. - r_created_at r) (workspace_runs ws db)))"

definition taskStatuses :: "uuid \<Rightarrow> db \<Rightarrow> (string \<times> nat) list" where
  "taskStatuses ws db =
     (let ts = filter (\<lambda>t. t_workspace_id t = ws) (tasks db) in
      map (\<lambda>st. (task_status_text st, count_if (\<lambda>t. t_status t = st) ts)) (remdups (map t_status ts)))"

definition nat_json :: "nat \<Rightarrow> json" where
  "nat_json n = JNum (Itoa (int n))"

definition totals_json :: "stats_env \<Rightarrow> statsTotals \<Rightarrow> json" where
  "totals_json E t = JObj
     [(''workflows'', nat_json (st_Workflows t)), (''runs'', nat_json (st_Runs t)), (''succeeded'', nat_json (st_Succeeded t)),
      (''failed'', nat_json (st_Failed t)), (''canceled'', nat_json (st_Canceled t)), (''active'', nat_json (st_Active t)),
      (''tasks'', nat_json (st_Tasks t)), (''log_lines'', nat_json (st_LogLines t)), (''secrets'', nat_json (st_Secrets t)),
      (''mcp_servers'', nat_json (st_MCPServers t)), (''avg_duration_ms'', opt_int (st_AvgDurationMS t)),
      (''success_rate'', case st_SuccessRate t of None \<Rightarrow> JNull | Some (a, b) \<Rightarrow> JNum (se_quotient E a b))]"

definition daily_json :: "stats_env \<Rightarrow> statsDaily \<Rightarrow> json" where
  "daily_json E d = JObj
     [(''date'', JStr (se_date_text E (sd_Date d))), (''succeeded'', nat_json (sd_Succeeded d)),
      (''failed'', nat_json (sd_Failed d)), (''canceled'', nat_json (sd_Canceled d))]"

definition top_json :: "stats_env \<Rightarrow> statsWorkflow \<Rightarrow> json" where
  "top_json E x = JObj
     [(''id'', JStr (uuid_String (se_X E) (sw_ID x))), (''name'', JStr (sw_Name x)), (''runs'', nat_json (sw_Runs x)),
      (''failed'', nat_json (sw_Failed x)), (''avg_duration_ms'', opt_int (sw_AvgDurationMS x)),
      (''last_run_at'', opt_str (map_option (ae_timestamptz_text (se_api E)) (sw_LastRunAt x)))]"

definition recent_json :: "stats_env \<Rightarrow> statsRecentRun \<Rightarrow> json" where
  "recent_json E x = (let q = sr_run x in JObj
     [(''id'', JStr (uuid_String (se_X E) (r_id q))), (''workflow_id'', JStr (uuid_String (se_X E) (r_workflow_id q))),
      (''workflow_name'', JStr (sr_WorkflowName x)), (''status'', JStr (run_status_text (r_status q))),
      (''created_at'', JStr (ae_timestamptz_text (se_api E) (r_created_at q))),
      (''started_at'', opt_str (map_option (ae_timestamptz_text (se_api E)) (r_started_at q))),
      (''finished_at'', opt_str (map_option (ae_timestamptz_text (se_api E)) (r_finished_at q)))])"

definition stats :: "stats_env \<Rightarrow> request \<Rightarrow> db \<Rightarrow> resources \<Rightarrow> stored_log list \<Rightarrow> response" where
  "stats E r db R logs =
     (let ws = workspace r in
      case totals E ws db R logs of
        None \<Rightarrow> s_error 500 []
      | Some t \<Rightarrow>
          (case topWorkflows E ws db of
             None \<Rightarrow> s_error 500 []
           | Some best \<Rightarrow> s_json 200 (JObj
               [(''totals'', totals_json E t), (''daily'', JArr (map (daily_json E) (daily E (rq_now r) ws db))),
                (''top_workflows'', JArr (map (top_json E) best)),
                (''recent_runs'', JArr (map (recent_json E) (recent_runs ws db))),
                (''task_statuses'', JObj (map (\<lambda>(k, n). (k, nat_json n)) (taskStatuses ws db)))])))"

section \<open>The numbers add up\<close>

lemma count_if_split: "count_if P xs + count_if (\<lambda>x. \<not> P x) xs = length xs"
  by (simp add: count_if_def sum_length_filter_compl)

lemma count_by_status:
  "count_if (\<lambda>r. r_status r \<in> {RQueued, RRunning, RSuspended}) rs + count_if (\<lambda>r. r_status r = RSucceeded) rs +
   count_if (\<lambda>r. r_status r = RFailed) rs + count_if (\<lambda>r. r_status r = RCanceled) rs = length rs"
proof (induction rs)
  case (Cons r rs)
  then show ?case by (cases "r_status r") (simp_all add: count_if_def)
qed (simp add: count_if_def)

lemma sum_counts: "distinct ks \<Longrightarrow> set (map f xs) \<subseteq> set ks \<Longrightarrow> (\<Sum>k \<leftarrow> ks. count_if (\<lambda>x. f x = k) xs) = length xs"
proof (induction xs)
  case Nil
  show ?case by (simp add: count_if_def)
next
  case (Cons x xs)
  have one: "(\<Sum>k \<leftarrow> ks. if f x = k then 1 else 0 :: nat) = 1"
    using Cons.prems by (simp add: sum_list_distinct_conv_sum_set)
  have "(\<Sum>k \<leftarrow> ks. count_if (\<lambda>x. f x = k) (x # xs)) =
      (\<Sum>k \<leftarrow> ks. (if f x = k then 1 else 0) + count_if (\<lambda>x. f x = k) xs)"
    by (intro arg_cong [where f = sum_list] map_cong refl) (simp add: count_if_def)
  also have "\<dots> = 1 + length xs" using one Cons by (simp add: sum_list_addf)
  finally show ?case by simp
qed

lemma sum_days:
  "distinct ds \<Longrightarrow> (\<Sum>d \<leftarrow> ds. count_if P (filter (\<lambda>r. f r = d) rs)) \<le> count_if P rs"
proof (induction ds arbitrary: rs)
  case (Cons d ds)
  have "(\<Sum>e \<leftarrow> ds. count_if P (filter (\<lambda>r. f r = e) rs)) =
      (\<Sum>e \<leftarrow> ds. count_if P (filter (\<lambda>r. f r = e) (filter (\<lambda>r. f r \<noteq> d) rs)))"
    using Cons.prems by (intro arg_cong [where f = sum_list] map_cong refl) (auto simp: count_if_def intro!: arg_cong [where f = length] filter_cong)
  also have "\<dots> \<le> count_if P (filter (\<lambda>r. f r \<noteq> d) rs)"
    using Cons.IH [of "filter (\<lambda>r. f r \<noteq> d) rs"] Cons.prems by (simp del: filter_filter)
  finally have "(\<Sum>e \<leftarrow> d # ds. count_if P (filter (\<lambda>r. f r = e) rs)) \<le>
      count_if P (filter (\<lambda>r. f r = d) rs) + count_if P (filter (\<lambda>r. f r \<noteq> d) rs)" by simp
  also have "\<dots> = count_if P rs"
    by (induction rs) (auto simp: count_if_def)
  finally show ?case .
qed (simp add: count_if_def)

lemma daily_dates: "map sd_Date (daily E now ws db) = [se_date E now - 13 .. se_date E now]"
  by (rule nth_equalityI) (simp_all add: daily_def Let_def)

lemma daily_sum:
  assumes "\<And>d rs. g \<lparr>sd_Date = d, sd_Succeeded = count_if (\<lambda>r. r_status r = RSucceeded) rs,
      sd_Failed = count_if (\<lambda>r. r_status r = RFailed) rs, sd_Canceled = count_if (\<lambda>r. r_status r = RCanceled) rs\<rparr> = count_if P rs"
  shows "(\<Sum>d \<leftarrow> daily E now ws db. g d) \<le> count_if P (workspace_runs ws db)"
proof -
  have "(\<Sum>d \<leftarrow> daily E now ws db. g d) =
      (\<Sum>d \<leftarrow> map (\<lambda>k. se_date E now - 13 + int k) [0..<14].
         count_if P (filter (\<lambda>r. se_date E (r_created_at r) = d) (workspace_runs ws db)))"
    by (simp add: daily_def Let_def assms comp_def)
  also have "\<dots> \<le> count_if P (workspace_runs ws db)"
    by (rule sum_days) (simp add: distinct_map inj_on_def)
  finally show ?thesis .
qed

lemma taskStatuses_sum: "(\<Sum>p \<leftarrow> taskStatuses ws db. snd p) = count_if (\<lambda>t. t_workspace_id t = ws) (tasks db)"
proof -
  let ?ts = "filter (\<lambda>t. t_workspace_id t = ws) (tasks db)"
  have "(\<Sum>p \<leftarrow> taskStatuses ws db. snd p) = (\<Sum>k \<leftarrow> remdups (map t_status ?ts). count_if (\<lambda>t. t_status t = k) ?ts)"
    by (simp add: taskStatuses_def Let_def comp_def)
  also have "\<dots> = length ?ts" by (rule sum_counts) auto
  finally show ?thesis by (simp add: count_if_def)
qed

lemma recent_runs_own: "sr_run ` set (recent_runs ws db) \<subseteq> set (workspace_runs ws db)"
proof
  fix q
  assume "q \<in> sr_run ` set (recent_runs ws db)"
  then obtain x where "x \<in> set (recent_runs ws db)" "q = sr_run x" by blast
  then show "q \<in> set (workspace_runs ws db)"
    by (auto simp: recent_runs_def map_filter_def dest!: in_set_takeD)
qed

lemma totals_Some:
  assumes "totals E ws db R logs = Some t"
  shows "st_Active t + st_Succeeded t + st_Failed t + st_Canceled t = st_Runs t"
    "st_Tasks t = count_if (\<lambda>t. t_workspace_id t = ws) (tasks db)"
    "st_Succeeded t = count_if (\<lambda>r. r_status r = RSucceeded) (workspace_runs ws db)"
    "st_Failed t = count_if (\<lambda>r. r_status r = RFailed) (workspace_runs ws db)"
    "st_Canceled t = count_if (\<lambda>r. r_status r = RCanceled) (workspace_runs ws db)"
    "st_SuccessRate t = None \<longleftrightarrow> st_Succeeded t + st_Failed t + st_Canceled t = 0"
  using assms count_by_status [of "workspace_runs ws db"]
  by (auto simp: totals_def Let_def split: option.splits if_splits)


end
