(* ===== verification/Observe_Facts.thy ===== *)
theory Observe_Facts
  imports Stats_Api Workflows_Facts
begin

text \<open>What a watcher of a run may rely on: the event stream shows the end of the run.\<close>

text \<open>
  C24. A watcher sees every run end. The stream of a run answers 200 and writes only states the run
  was in, in a workspace that owns it, and nothing after a final one. If the client stays and
  the run can be read, then once the run is over a tick, and the end of the coalescing should one be under
  way, make it write the final state and end: whether or not the cache ever delivers a ping.
\<close>

theorem run_events_show_the_end:
  assumes "ae_uuid_Parse A (PathValue r ''id'') = Some i"
    and "list_all (watching (workspace r) i) (s0 # before)"
    and "list_all (over (workspace r) i) (after1 @ t # after2)"
    and "snap_wake t = Tick" and "CoalesceDone \<in> snap_wake ` set after2"
    and "runEvents A True subscribed r s0 (before @ after1 @ t # after2) = (status, ds)"
  shows "status = 200 \<and> ds \<noteq> [] \<and> run_terminal (r_status (rd_run (last ds))) \<and>
    list_all (\<lambda>d. \<not> run_terminal (r_status (rd_run d))) (butlast ds) \<and>
    set ds \<subseteq> {d. \<exists>s \<in> set (s0 # before @ after1 @ t # after2). fetchRun (workspace r) i (snap_db s) = Inr d}"
proof -
  let ?ss = "before @ after1 @ t # after2"
  have fin: "ends_final (stream (workspace r) i ch dr ?ss)" for ch dr
    using assms(2)
  proof (induction before arbitrary: ch dr)
    case Nil
    show ?case using ticked_final [OF assms(3-5)] by simp
  next
    case (Cons s ss)
    then show ?case using stream_step_final by simp
  qed
  obtain d where d: "fetchRun (workspace r) i (snap_db s0) = Inr d" "snap_write s0"
    using assms(2) by (auto simp: watching_def)
  let ?T = "run_terminal (r_status (rd_run d))"
  let ?S = "stream (workspace r) i subscribed False ?ss"
  have ds: "ds = d # (if ?T then [] else ?S)" "status = 200"
    using assms(1,6) send_run_ok [OF d(2,1)] by (auto simp: runEvents_def)
  have "ends_final ds" using fin ds(1) by (auto simp: ends_final_def)
  moreover have "x \<in> set (butlast ds) \<Longrightarrow> \<not> run_terminal (r_status (rd_run x))" for x
    using ds(1) stream_goes_on by (auto split: if_splits)
  moreover have "x \<in> set ds \<Longrightarrow> \<exists>s \<in> set (s0 # ?ss). fetchRun (workspace r) i (snap_db s) = Inr x" for x
    using ds(1) d(1) stream_writes by (fastforce split: if_splits)
  ultimately show ?thesis using ds(2) unfolding ends_final_def list_all_iff by blast
qed

definition demo_snapshot :: "wake \<Rightarrow> run_status \<Rightarrow> snapshot" where
  "demo_snapshot w st = \<lparr>snap_wake = w, snap_db = demo_with st [], snap_write = True\<rparr>"

definition demo_watch :: request where
  "demo_watch = demo_request\<lparr>rq_values := [(''id'', ''1'')], rq_auth := Some (demo_principal\<lparr>a_WorkspaceID := 7\<rparr>)\<rparr>"

theorem run_events_show_the_end_witness:
  "\<exists>ds. runEvents demo_env True False demo_watch (demo_snapshot Ping RRunning)
      [demo_snapshot Tick RRunning, demo_snapshot Tick RSucceeded, demo_snapshot CoalesceDone RSucceeded] = (200, ds) \<and>
    ds \<noteq> [] \<and> run_terminal (r_status (rd_run (last ds)))"
proof -
  let ?s = demo_snapshot
  have req: "ae_uuid_Parse demo_env (PathValue demo_watch ''id'') = Some 1" "workspace demo_watch = 7" by code_simp+
  have fetch: "\<exists>d. fetchRun 7 1 (snap_db (?s w st)) = Inr d \<and> r_status (rd_run d) = st" for w st
    by (simp add: fetchRun_def demo_snapshot_def demo_with_def demo_db_def empty_db_def demo_run_def find_version_def)
  have here: "snap_wake (?s w st) = w" "snap_write (?s w st)" for w st by (simp_all add: demo_snapshot_def)
  have watch: "watching 7 1 (?s w st)" if "w \<noteq> CtxDone" for w st
    using fetch [of w st] that by (auto simp: watching_def here)
  have over: "over 7 1 (?s w RSucceeded)" if "w \<noteq> CtxDone" for w
    using fetch [of w RSucceeded] that by (auto simp: over_def here)
  obtain status ds where run: "runEvents demo_env True False demo_watch (?s Ping RRunning)
      ([?s Tick RRunning] @ [] @ ?s Tick RSucceeded # [?s CoalesceDone RSucceeded]) = (status, ds)" by fastforce
  have "list_all (watching (workspace demo_watch) 1) (?s Ping RRunning # [?s Tick RRunning])"
    "list_all (over (workspace demo_watch) 1) ([] @ ?s Tick RSucceeded # [?s CoalesceDone RSucceeded])"
    "snap_wake (?s Tick RSucceeded) = Tick" "CoalesceDone \<in> snap_wake ` set [?s CoalesceDone RSucceeded]"
    by (simp_all add: watch over here req(2) del: One_nat_def)
  from run_events_show_the_end [OF req(1) this run] run show ?thesis by auto
qed

end
