(* ===== verification/Step_Executors.thy ===== *)
theory Step_Executors
  imports Complex_Main Reaper Vault Mcp_Client
begin

text \<open>
  The step types (\<^verbatim>\<open>internal/steps\<close>): the registry and the seven native executors. An executor maps
  its input to the data and error it returns; what it reads of the world besides is the record
  \<open>step_env\<close>: the services of the workspace, the HTTP client, the MCP SDK, the JavaScript engine and
  the arithmetic of \<^verbatim>\<open>float64\<close>. A header map is an association list in the order in which Go
  happens to range over it. The informational lines that executors log are not modelled, except
  the console of \<^verbatim>\<open>code.js\<close>, whose only effect they are.
\<close>

section \<open>Environment\<close>

record http_request =
  hr_Method :: string
  hr_URL :: string
  hr_Body :: "string option"
  hr_Header :: "(string \<times> string) list"

text \<open>A response: its body, and the error that cuts the body off, if one does.\<close>

record http_reply =
  hp_StatusCode :: int
  hp_Body :: string
  hp_ReadErr :: "go_error option"

text \<open>The values of \<^verbatim>\<open>float64\<close>, a finite one being the rational it stands for.\<close>

datatype float64 = Fin rat | PosInf | NegInf | NaN

text \<open>
  The dynamic type of a number in a configuration: decoding JSON gives \<^verbatim>\<open>float64\<close>, an integer that
  goja exported is an \<^verbatim>\<open>int64\<close>. The model of JSON values does not tell them apart.
\<close>

datatype number_kind = Float64 | Int64

text \<open>A console argument: what \<^verbatim>\<open>Export\<close> and \<^verbatim>\<open>String\<close> give, or a nil value.\<close>

datatype js_value = NilValue | JsValue json string

datatype console_method = ConsoleLog | ConsoleInfo | ConsoleWarn | ConsoleError

record services =
  sv_APIKey :: "uuid \<Rightarrow> string \<Rightarrow> (string \<times> string) result"
  sv_Server :: "uuid \<Rightarrow> string \<Rightarrow> (string \<times> string) result"

record step_env =
  sx_X :: externals
  sx_Services :: services
  sx_Sdk :: mcp_sdk
  sx_NewRequest :: "string \<Rightarrow> string \<Rightarrow> go_error option"    \<comment> \<open>\<^verbatim>\<open>http.NewRequestWithContext\<close> on method and URL\<close>
  sx_Do :: "http_request \<Rightarrow> http_reply result"               \<comment> \<open>\<^verbatim>\<open>client.Do\<close>\<close>
  sx_RunConsole :: "(string \<times> json) list \<Rightarrow> string \<Rightarrow> json result \<times> (console_method \<times> js_value list) list"
  sx_ParseFloat :: "string \<Rightarrow> float64"                       \<comment> \<open>the value, whatever the error\<close>
  sx_FormatFloat :: "rat \<Rightarrow> string"
  sx_Round :: "rat \<Rightarrow> float64"                               \<comment> \<open>to the nearest \<^verbatim>\<open>float64\<close>\<close>
  sx_OutOfRange :: int                                        \<comment> \<open>a conversion to \<^verbatim>\<open>int64\<close> that does not fit\<close>
  sx_NumberKind :: number_kind                                \<comment> \<open>of the number the step reads\<close>
  sx_now :: timestamp
  sx_ctxErr :: "go_error option"                              \<comment> \<open>the context ends before the timer\<close>

definition config_string :: "task_input \<Rightarrow> string \<Rightarrow> string" where
  "config_string i k = (case map_of (ti_Config i) k of Some (JStr s) \<Rightarrow> s | _ \<Rightarrow> [])"

definition failed_step :: "go_error \<Rightarrow> json \<times> exec_error option" where
  "failed_step e = (JNull, Some (ExecErr e))"

section \<open>Numbers\<close>

definition toFloat :: "step_env \<Rightarrow> json option \<Rightarrow> float64" where
  "toFloat E v =
     (case v of
        Some (JNum lit) \<Rightarrow> (case sx_NumberKind E of Float64 \<Rightarrow> sx_ParseFloat E lit | Int64 \<Rightarrow> Fin 0)
      | Some (JStr s) \<Rightarrow> sx_ParseFloat E s
      | _ \<Rightarrow> Fin 0)"

definition truncate_rat :: "rat \<Rightarrow> int" where
  "truncate_rat q = (if q < 0 then - \<lfloor>- q\<rfloor> else \<lfloor>q\<rfloor>)"

definition to_int64 :: "step_env \<Rightarrow> float64 \<Rightarrow> int" where
  "to_int64 E f =
     (case f of
        Fin q \<Rightarrow> (let n = truncate_rat q in if - (2 ^ 63) \<le> n \<and> n < 2 ^ 63 then n else sx_OutOfRange E)
      | _ \<Rightarrow> sx_OutOfRange E)"

definition not_positive :: "float64 \<Rightarrow> bool" where
  "not_positive f = (case f of Fin q \<Rightarrow> q \<le> 0 | PosInf \<Rightarrow> False | NegInf \<Rightarrow> True | NaN \<Rightarrow> False)"

text \<open>The product with a positive constant.\<close>

definition times_pos :: "step_env \<Rightarrow> float64 \<Rightarrow> int \<Rightarrow> float64" where
  "times_pos E f n = (case f of Fin q \<Rightarrow> sx_Round E (q * of_int n) | g \<Rightarrow> g)"

definition float_json :: "step_env \<Rightarrow> float64 \<Rightarrow> json" where
  "float_json E f =
     JNum (case f of Fin q \<Rightarrow> sx_FormatFloat E q | PosInf \<Rightarrow> ''+Inf'' | NegInf \<Rightarrow> ''-Inf'' | NaN \<Rightarrow> ''NaN'')"

section \<open>\<^verbatim>\<open>delay\<close>\<close>

definition maxInProcessDelay :: int where
  "maxInProcessDelay = 5 * Minute"

definition maxDelay :: int where
  "maxDelay = 30 * (24 * (60 * Minute))"

text \<open>What a delay does: refuse, suspend the task, or block the worker for a duration.\<close>

datatype delay_plan = Refused go_error | Parked suspend | Blocked int json

definition delay_plan :: "step_env \<Rightarrow> task_input \<Rightarrow> delay_plan" where
  "delay_plan E i =
     (let seconds = toFloat E (map_of (ti_Config i) ''seconds'') in
      if not_positive seconds then Refused (Errorf ''delay: seconds must be > 0'')
      else
        let d = to_int64 E (times_pos E seconds Second); waited = JObj [(''waited_seconds'', float_json E seconds)] in
        if maxDelay < d then Refused (Errorf ''delay: max 720h0m0s'')
        else if maxInProcessDelay < d then
          Parked \<lparr>Kind = ''delay'', ResumeAt = Some (sx_now E + d), Output = waited\<rparr>
        else Blocked d waited)"

definition Delay_Execute :: "step_env \<Rightarrow> executor" where
  "Delay_Execute E i =
     (case delay_plan E i of
        Refused e \<Rightarrow> failed_step e
      | Parked susp \<Rightarrow> (JNull, Some (Suspend susp))
      | Blocked d out \<Rightarrow> (case sx_ctxErr E of Some e \<Rightarrow> failed_step e | None \<Rightarrow> (out, None)))"

section \<open>\<^verbatim>\<open>wait.callback\<close>\<close>

definition WaitCallback_Execute :: executor where
  "WaitCallback_Execute i =
     (JNull, Some (Suspend \<lparr>Kind = ''callback'', ResumeAt = None,
        Output = JObj [(''waiting'', JBool True), (''note'', JStr (config_string i ''note''))]\<rparr>))"

section \<open>\<^verbatim>\<open>transform\<close> and \<^verbatim>\<open>code.js\<close>\<close>

definition Transform_Execute :: "step_env \<Rightarrow> executor" where
  "Transform_Execute E i =
     (let script = config_string i ''script'' in
      if script = [] then failed_step (Errorf ''transform: script is required'')
      else case runJS (sx_X E) script (ti_Context i) of
        Inl e \<Rightarrow> failed_step (Wrapf ''transform'' e)
      | Inr v \<Rightarrow> (v, None))"

definition consoleArg :: "js_value \<Rightarrow> string" where
  "consoleArg v =
     (case v of
        NilValue \<Rightarrow> ''undefined''
      | JsValue j s \<Rightarrow>
          (if (case j of JObj m \<Rightarrow> True | JArr xs \<Rightarrow> True | _ \<Rightarrow> False)
           then (case Marshal j of Inr b \<Rightarrow> b | Inl _ \<Rightarrow> s)
           else s))"

fun console_level :: "console_method \<Rightarrow> int" where
  "console_level ConsoleLog = 0"
| "console_level ConsoleInfo = 0"
| "console_level ConsoleWarn = 4"
| "console_level ConsoleError = 8"

text \<open>The console: one line per call, at the level of the method.\<close>

definition newConsole :: "(console_method \<times> js_value list) list \<Rightarrow> (int \<times> string) list" where
  "newConsole calls = map (\<lambda>(m, vs). (console_level m, joined '' '' (map consoleArg vs))) calls"

definition runCodeJS :: "step_env \<Rightarrow> string \<Rightarrow> (string \<times> json) list \<Rightarrow> json result \<times> (int \<times> string) list" where
  "runCodeJS E script runContext =
     (case sx_RunConsole E runContext (''(function(){'' @ newline @ script @ newline @ ''})()'') of
        (res, calls) \<Rightarrow> (res, newConsole calls))"

definition CodeJS_run :: "step_env \<Rightarrow> task_input \<Rightarrow> (json \<times> exec_error option) \<times> (int \<times> string) list" where
  "CodeJS_run E i =
     (let script = config_string i ''script'' in
      if script = [] then (failed_step (Errorf ''code.js: script is required''), [])
      else case runCodeJS E script (ti_Context i) of
        (Inl e, ls) \<Rightarrow> (failed_step (Wrapf ''code.js'' e), ls)
      | (Inr v, ls) \<Rightarrow> ((v, None), ls))"

definition CodeJS_Execute :: "step_env \<Rightarrow> executor" where
  "CodeJS_Execute E i = fst (CodeJS_run E i)"

section \<open>\<^verbatim>\<open>http.request\<close>\<close>

text \<open>\<^verbatim>\<open>Header.Set\<close> with the canonical form of the key.\<close>

definition header_token :: "char \<Rightarrow> bool" where
  "header_token c \<longleftrightarrow>
     (CHR ''a'' \<le> c \<and> c \<le> CHR ''z'') \<or> (CHR ''A'' \<le> c \<and> c \<le> CHR ''Z'') \<or> is_digit c \<or>
     c \<in> {CHR ''!'', CHR ''#'', CHR ''$'', CHR ''%'', CHR ''&'', CHR 0x27, CHR ''*'', CHR ''+'', CHR ''-'', CHR ''.'',
          CHR ''^'', CHR ''_'', CHR 0x60, CHR ''|'', CHR ''~''}"

definition char_upper :: "char \<Rightarrow> char" where
  "char_upper c = (if CHR ''a'' \<le> c \<and> c \<le> CHR ''z'' then char_of (byte c - 32) else c)"

fun canonical_from :: "bool \<Rightarrow> string \<Rightarrow> string" where
  "canonical_from up [] = []"
| "canonical_from up (c # s) = (if up then char_upper c else char_lower c) # canonical_from (c = CHR ''-'') s"

definition CanonicalHeaderKey :: "string \<Rightarrow> string" where
  "CanonicalHeaderKey k = (if list_all header_token k then canonical_from True k else k)"

definition Header_Set :: "(string \<times> string) list \<Rightarrow> string \<Rightarrow> string \<Rightarrow> (string \<times> string) list" where
  "Header_Set hs k v = AList.update (CanonicalHeaderKey k) v hs"

text \<open>\<^verbatim>\<open>json.Unmarshal\<close> into a \<^verbatim>\<open>map[string]string\<close>.\<close>

definition dec_string_map :: "json \<Rightarrow> (string \<times> string) list result" where
  "dec_string_map j =
     (case j of
        JObj ms \<Rightarrow> rfold (\<lambda>m (k, v). rbind (dec_string [] v) (\<lambda>s. Inr (AList.update k s m))) [] ms
      | JNull \<Rightarrow> Inr []
      | _ \<Rightarrow> Inl type_error)"

text \<open>\<^verbatim>\<open>io.ReadAll(io.LimitReader(body, n))\<close>.\<close>

definition read_limited :: "nat \<Rightarrow> http_reply \<Rightarrow> string result" where
  "read_limited n p =
     (if n \<le> length (hp_Body p) then Inr (take n (hp_Body p))
      else case hp_ReadErr p of Some e \<Rightarrow> Inl e | None \<Rightarrow> Inr (hp_Body p))"

definition request_headers :: "step_env \<Rightarrow> task_input \<Rightarrow> (string \<times> string) list result" where
  "request_headers E i =
     (let base = Header_Set [] ''User-Agent'' ''oarlock/0.1''; h = config_string i ''headers'' in
      if h = [] then Inr base
      else case rbind (json_Unmarshal (sx_X E) h) dec_string_map of
        Inl e \<Rightarrow> Inl (Wrapf ''http.request: invalid headers JSON'' e)
      | Inr headers \<Rightarrow> Inr (foldl (\<lambda>hs (k, v). Header_Set hs k v) base headers))"

definition http_result :: "step_env \<Rightarrow> string \<Rightarrow> string \<Rightarrow> http_reply \<Rightarrow> json \<times> exec_error option" where
  "http_result E method url resp =
     (case read_limited (2 ^ 20) resp of
        Inl e \<Rightarrow> failed_step (Wrapf ''http.request: read body'' e)
      | Inr raw \<Rightarrow>
          let parsed = (case json_Unmarshal (sx_X E) raw of Inr j \<Rightarrow> j | Inl _ \<Rightarrow> JStr raw);
              out = JObj [(''status'', JNum (Itoa (hp_StatusCode resp))), (''body'', parsed)] in
          if 400 \<le> hp_StatusCode resp
          then (out, Some (ExecErr (Errorf (''http.request: '' @ method @ '' '' @ url @ '' returned '' @ Itoa (hp_StatusCode resp)))))
          else (out, None))"

definition HTTPRequest_Execute :: "step_env \<Rightarrow> executor" where
  "HTTPRequest_Execute E i =
     (let url = config_string i ''url'';
          method = (if config_string i ''method'' = [] then ''GET'' else config_string i ''method'');
          body = (if config_string i ''body'' = [] then None else Some (config_string i ''body'')) in
      if url = [] then failed_step (Errorf ''http.request: url is required'')
      else case sx_NewRequest E method url of
        Some e \<Rightarrow> failed_step (Wrapf ''http.request'' e)
      | None \<Rightarrow>
          (case request_headers E i of
             Inl e \<Rightarrow> failed_step e
           | Inr headers \<Rightarrow>
               (case sx_Do E \<lparr>hr_Method = method, hr_URL = url, hr_Body = body, hr_Header = headers\<rparr> of
                  Inl e \<Rightarrow> failed_step (Wrapf ''http.request'' e)
                | Inr resp \<Rightarrow> http_result E method url resp)))"

section \<open>\<^verbatim>\<open>ai.prompt\<close>\<close>

record tokenUsage =
  InputTokens :: int
  OutputTokens :: int

definition postJSON :: "step_env \<Rightarrow> string \<Rightarrow> json \<Rightarrow> (string \<times> string) list \<Rightarrow> string result" where
  "postJSON E url body headers =
     rbind (Marshal body) (\<lambda>payload.
       case sx_NewRequest E ''POST'' url of
         Some e \<Rightarrow> Inl e
       | None \<Rightarrow>
           (let hs = foldl (\<lambda>hs (k, v). Header_Set hs k v) (Header_Set [] ''Content-Type'' ''application/json'') headers in
            rbind (sx_Do E \<lparr>hr_Method = ''POST'', hr_URL = url, hr_Body = Some payload, hr_Header = hs\<rparr>) (\<lambda>resp.
              rbind (read_limited (4 * 2 ^ 20) resp) (\<lambda>raw.
                if 400 \<le> hp_StatusCode resp
                then Inl (Errorf (url @ '' returned '' @ Itoa (hp_StatusCode resp) @ '': '' @ take 500 raw))
                else Inr raw))))"

text \<open>Decoding of the replies: structs, slices of structs and pointers to structs.\<close>

definition dec_struct :: "('a \<Rightarrow> string \<times> json \<Rightarrow> 'a result) \<Rightarrow> 'a \<Rightarrow> json \<Rightarrow> 'a result" where
  "dec_struct member old j =
     (case j of JObj ms \<Rightarrow> rfold member old ms | JNull \<Rightarrow> Inr old | _ \<Rightarrow> Inl type_error)"

definition dec_slice :: "(json \<Rightarrow> 'a result) \<Rightarrow> json \<Rightarrow> 'a list result" where
  "dec_slice dec j = (case j of JArr xs \<Rightarrow> rmap dec xs | JNull \<Rightarrow> Inr [] | _ \<Rightarrow> Inl type_error)"

definition usage_member :: "string \<Rightarrow> string \<Rightarrow> tokenUsage \<Rightarrow> string \<times> json \<Rightarrow> tokenUsage result" where
  "usage_member inp out u m =
     (let k = ToLower (fst m); v = snd m in
      if k = inp then rbind (dec_int (InputTokens u) v) (\<lambda>n. Inr (u\<lparr>InputTokens := n\<rparr>))
      else if k = out then rbind (dec_int (OutputTokens u) v) (\<lambda>n. Inr (u\<lparr>OutputTokens := n\<rparr>))
      else Inr u)"

definition dec_usage :: "string \<Rightarrow> string \<Rightarrow> tokenUsage option \<Rightarrow> json \<Rightarrow> tokenUsage option result" where
  "dec_usage inp out = dec_ptr (dec_struct (usage_member inp out)) \<lparr>InputTokens = 0, OutputTokens = 0\<rparr>"

definition content_member :: "string \<times> string \<Rightarrow> string \<times> json \<Rightarrow> (string \<times> string) result" where
  "content_member c m =
     (let k = ToLower (fst m); v = snd m in
      if k = ''type'' then rbind (dec_string (fst c) v) (\<lambda>x. Inr (x, snd c))
      else if k = ''text'' then rbind (dec_string (snd c) v) (\<lambda>x. Inr (fst c, x))
      else Inr c)"

definition anthropic_member ::
  "(string \<times> string) list \<times> tokenUsage option \<Rightarrow> string \<times> json \<Rightarrow> ((string \<times> string) list \<times> tokenUsage option) result" where
  "anthropic_member r m =
     (let k = ToLower (fst m); v = snd m in
      if k = ''content'' then rbind (dec_slice (dec_struct content_member ([], [])) v) (\<lambda>x. Inr (x, snd r))
      else if k = ''usage'' then rbind (dec_usage ''input_tokens'' ''output_tokens'' (snd r) v) (\<lambda>x. Inr (fst r, x))
      else Inr r)"

definition message_json_of :: "string \<Rightarrow> string \<Rightarrow> json" where
  "message_json_of role txt = JObj [(''role'', JStr role), (''content'', JStr txt)]"

definition anthropicURL :: string where
  "anthropicURL = ''https://api.anthropic.com/v1/messages''"

definition anthropicMessage ::
  "step_env \<Rightarrow> string \<Rightarrow> string \<Rightarrow> string \<Rightarrow> string \<Rightarrow> int \<Rightarrow> (string \<times> tokenUsage option) result" where
  "anthropicMessage E key model system prompt maxTokens =
     (let body = JObj ([(''model'', JStr model), (''max_tokens'', JNum (Itoa maxTokens)),
                        (''messages'', JArr [message_json_of ''user'' prompt])] @
                       (if system = [] then [] else [(''system'', JStr system)])) in
      rbind (postJSON E anthropicURL body [(''x-api-key'', key), (''anthropic-version'', ''2023-06-01'')]) (\<lambda>raw.
        rbind (json_Unmarshal (sx_X E) raw) (\<lambda>j.
          rbind (dec_struct anthropic_member ([], None) j) (\<lambda>(content, usage).
            case find (\<lambda>c. fst c = ''text'') content of
              Some c \<Rightarrow> Inr (snd c, usage)
            | None \<Rightarrow> Inl (Errorf ''anthropic: no text content in response'')))))"

definition choice_message :: "string \<Rightarrow> string \<times> json \<Rightarrow> string result" where
  "choice_message c m = (if ToLower (fst m) = ''content'' then dec_string c (snd m) else Inr c)"

definition choice_member :: "string \<Rightarrow> string \<times> json \<Rightarrow> string result" where
  "choice_member c m = (if ToLower (fst m) = ''message'' then dec_struct choice_message c (snd m) else Inr c)"

definition chat_member ::
  "string list \<times> tokenUsage option \<Rightarrow> string \<times> json \<Rightarrow> (string list \<times> tokenUsage option) result" where
  "chat_member r m =
     (let k = ToLower (fst m); v = snd m in
      if k = ''choices'' then rbind (dec_slice (dec_struct choice_member []) v) (\<lambda>x. Inr (x, snd r))
      else if k = ''usage'' then rbind (dec_usage ''prompt_tokens'' ''completion_tokens'' (snd r) v) (\<lambda>x. Inr (fst r, x))
      else Inr r)"

definition openAIChat ::
  "step_env \<Rightarrow> string \<Rightarrow> string \<Rightarrow> string \<Rightarrow> string \<Rightarrow> string \<Rightarrow> int \<Rightarrow> (string \<times> tokenUsage option) result" where
  "openAIChat E url key model system prompt maxTokens =
     (let messages = (if system = [] then [] else [message_json_of ''system'' system]) @ [message_json_of ''user'' prompt];
          body = JObj [(''model'', JStr model), (''max_completion_tokens'', JNum (Itoa maxTokens)), (''messages'', JArr messages)] in
      rbind (postJSON E url body [(''Authorization'', ''Bearer '' @ key)]) (\<lambda>raw.
        rbind (json_Unmarshal (sx_X E) raw) (\<lambda>j.
          rbind (dec_struct chat_member ([], None) j) (\<lambda>(choices, usage).
            case choices of
              [] \<Rightarrow> Inl (Errorf ''no choices in response'')
            | c # _ \<Rightarrow> Inr (c, usage)))))"

text \<open>The dispatch on the provider; \<open>None\<close> for a provider that is not supported.\<close>

definition ai_call ::
  "step_env \<Rightarrow> string \<Rightarrow> string \<Rightarrow> string \<Rightarrow> string \<Rightarrow> string \<Rightarrow> int \<Rightarrow> (string \<times> tokenUsage option) result option" where
  "ai_call E provider key model system prompt maxTokens =
     (if provider = ''anthropic'' then Some (anthropicMessage E key model system prompt maxTokens)
      else if provider = ''openai''
      then Some (openAIChat E ''https://api.openai.com/v1/chat/completions'' key model system prompt maxTokens)
      else if provider = ''openrouter''
      then Some (openAIChat E ''https://openrouter.ai/api/v1/chat/completions'' key model system prompt maxTokens)
      else None)"

definition usage_json :: "tokenUsage \<Rightarrow> json" where
  "usage_json u = JObj [(''input_tokens'', JNum (Itoa (InputTokens u))), (''output_tokens'', JNum (Itoa (OutputTokens u)))]"

definition AIPrompt_Execute :: "step_env \<Rightarrow> executor" where
  "AIPrompt_Execute E i =
     (let keyName = config_string i ''api_key''; model = config_string i ''model'';
          prompt = config_string i ''prompt''; system = config_string i ''system'';
          n = to_int64 E (toFloat E (map_of (ti_Config i) ''max_tokens''));
          maxTokens = (if n \<le> 0 then 1024 else n) in
      if keyName = [] \<or> model = [] \<or> prompt = []
      then failed_step (Errorf ''ai.prompt: api_key, model, and prompt are required'')
      else case sv_APIKey (sx_Services E) (ti_WorkspaceID i) keyName of
        Inl e \<Rightarrow> failed_step (Wrapf ''ai.prompt'' e)
      | Inr (provider, key) \<Rightarrow>
          (case ai_call E provider key model system prompt maxTokens of
             None \<Rightarrow> failed_step (Errorf (''ai.prompt: api key '' @ quoted keyName @ '' has unsupported provider '' @ quoted provider))
           | Some (Inl e) \<Rightarrow> failed_step (Wrapf ''ai.prompt'' e)
           | Some (Inr (txt, usage)) \<Rightarrow>
               (JObj ([(''text'', JStr txt), (''model'', JStr model), (''provider'', JStr provider)] @
                 (case usage of None \<Rightarrow> [] | Some u \<Rightarrow> [(''usage'', usage_json u)])), None)))"

section \<open>\<^verbatim>\<open>mcp.tool\<close>\<close>

definition bad_arguments :: string where
  "bad_arguments = ''mcp.tool: arguments must be a JSON object''"

text \<open>The arguments of the call; a nil map is the empty one.\<close>

definition tool_arguments :: "step_env \<Rightarrow> task_input \<Rightarrow> (string \<times> json) list result" where
  "tool_arguments E i =
     (case map_of (ti_Config i) ''arguments'' of
        Some (JStr v) \<Rightarrow>
          if v = [] then Inr []
          else (case json_Unmarshal (sx_X E) v of
              Inl e \<Rightarrow> Inl (Wrapf bad_arguments e)
            | Inr (JObj m) \<Rightarrow> Inr m
            | Inr JNull \<Rightarrow> Inr []
            | Inr _ \<Rightarrow> Inl (Wrapf bad_arguments type_error))
      | Some (JObj m) \<Rightarrow> Inr m
      | Some JNull \<Rightarrow> Inr []
      | None \<Rightarrow> Inr []
      | Some _ \<Rightarrow> Inl (Errorf bad_arguments))"

definition MCPTool_Execute :: "step_env \<Rightarrow> executor" where
  "MCPTool_Execute E i =
     (let serverName = config_string i ''server''; toolName = config_string i ''tool'' in
      if serverName = [] \<or> toolName = [] then failed_step (Errorf ''mcp.tool: server and tool are required'')
      else case tool_arguments E i of
        Inl e \<Rightarrow> failed_step e
      | Inr args \<Rightarrow>
          (case sv_Server (sx_Services E) (ti_WorkspaceID i) serverName of
             Inl e \<Rightarrow> failed_step (Wrapf ''mcp.tool'' e)
           | Inr (url, auth) \<Rightarrow>
               (case CallTool (sx_Sdk E) url auth toolName args of
                  Inl e \<Rightarrow> failed_step e
                | Inr v \<Rightarrow> (v, None))))"

section \<open>The registry\<close>

record ConfigKey =
  ck_Key :: string
  ck_Label :: string
  ck_Kind :: string
  ck_Options :: "string list"
  ck_Placeholder :: string
  ck_Required :: bool

record TypeInfo =
  ty_Type :: string
  ty_Label :: string
  ty_Description :: string
  ty_ConfigSpec :: "ConfigKey list"

record step_registry =
  rg_executors :: "(string \<times> executor) list"
  rg_infos :: "TypeInfo list"

definition NewRegistry :: step_registry where
  "NewRegistry = \<lparr>rg_executors = [], rg_infos = []\<rparr>"

definition Register :: "TypeInfo \<Rightarrow> executor \<Rightarrow> step_registry \<Rightarrow> step_registry" where
  "Register info e r =
     \<lparr>rg_executors = AList.update (ty_Type info) e (rg_executors r), rg_infos = rg_infos r @ [info]\<rparr>"

definition registry_Get :: "step_registry \<Rightarrow> string \<Rightarrow> executor option" where
  "registry_Get r stepType = map_of (rg_executors r) stepType"

definition registry_Has :: "step_registry \<Rightarrow> string \<Rightarrow> bool" where
  "registry_Has r stepType \<longleftrightarrow> map_of (rg_executors r) stepType \<noteq> None"

definition Types :: "step_registry \<Rightarrow> TypeInfo list" where
  "Types r = rg_infos r"

definition config_key :: "string \<Rightarrow> string \<Rightarrow> string \<Rightarrow> string list \<Rightarrow> string \<Rightarrow> bool \<Rightarrow> ConfigKey" where
  "config_key k label kind opts placeholder required =
     \<lparr>ck_Key = k, ck_Label = label, ck_Kind = kind, ck_Options = opts, ck_Placeholder = placeholder, ck_Required = required\<rparr>"

definition type_info :: "string \<Rightarrow> string \<Rightarrow> string \<Rightarrow> ConfigKey list \<Rightarrow> TypeInfo" where
  "type_info typ label descr spec =
     \<lparr>ty_Type = typ, ty_Label = label, ty_Description = descr, ty_ConfigSpec = spec\<rparr>"

definition default_registrations :: "step_env \<Rightarrow> (TypeInfo \<times> executor) list" where
  "default_registrations E =
    [(type_info ''ai.prompt'' ''AI Prompt''
        ''Send a prompt to an LLM via your own API key (Anthropic, OpenAI, OpenRouter)''
        [config_key ''api_key'' ''API key'' ''api_key'' [] ([]) True,
         config_key ''model'' ''Model'' ''string'' [] (''claude-sonnet-4-6 / gpt-4o / openrouter model id'') True,
         config_key ''system'' ''System prompt'' ''text'' [] (''You are a helpful assistant'' @ [CHR 0xE2] @ [CHR 0x80] @ [CHR 0xA6]) False,
         config_key ''prompt'' ''Prompt'' ''text'' [] (''Summarize: '' @ [CHR 0x7B] @ [CHR 0x7B] @ ''steps.fetch.body'' @ [CHR 0x7D] @ [CHR 0x7D]) True,
         config_key ''max_tokens'' ''Max tokens'' ''number'' [] (''1024'') False],
      AIPrompt_Execute E),
     (type_info ''mcp.tool'' ''MCP Tool''
        (''Call a tool on one of this workspace'' @ [CHR 0x27] @ ''s MCP servers'')
        [config_key ''server'' ''MCP server'' ''mcp_server'' [] ([]) True,
         config_key ''tool'' ''Tool'' ''mcp_tool'' [] ([]) True,
         config_key ''arguments'' ''Arguments (JSON)'' ''text'' [] ([CHR 0x7B] @ [CHR 0x22] @ ''query'' @ [CHR 0x22] @ '': '' @ [CHR 0x22] @ [CHR 0x7B] @ [CHR 0x7B] @ ''input.q'' @ [CHR 0x7D] @ [CHR 0x7D] @ [CHR 0x22] @ [CHR 0x7D]) False],
      MCPTool_Execute E),
     (type_info ''http.request'' ''HTTP Request''
        ''Call an HTTP endpoint and return the response''
        [config_key ''url'' ''URL'' ''string'' [] (''https://api.example.com/...'') True,
         config_key ''method'' ''Method'' ''select'' [''GET'', ''POST'', ''PUT'', ''PATCH'', ''DELETE''] ([]) False,
         config_key ''body'' ''Body'' ''text'' [] ([CHR 0x7B] @ [CHR 0x22] @ ''hello'' @ [CHR 0x22] @ '': '' @ [CHR 0x22] @ ''world'' @ [CHR 0x22] @ [CHR 0x7D]) False,
         config_key ''headers'' ''Headers (JSON)'' ''text'' [] ([CHR 0x7B] @ [CHR 0x22] @ ''Authorization'' @ [CHR 0x22] @ '': '' @ [CHR 0x22] @ ''Bearer ...'' @ [CHR 0x22] @ [CHR 0x7D]) False],
      HTTPRequest_Execute E),
     (type_info ''transform'' ''Transform (JS)''
        ''Run a JavaScript expression over prior step outputs''
        [config_key ''script'' ''Script'' ''text'' [] (''return steps.fetch.body.items.length'') True],
      Transform_Execute E),
     (type_info ''code.js'' ''Code (JS)''
        ''Run JavaScript with console.log captured to the task log''
        [config_key ''script'' ''Script'' ''text'' [] (''const items = steps.fetch.body.items'' @ [CHR 0x0A] @ ''return items.filter(i => i.active)'') True],
      CodeJS_Execute E),
     (type_info ''delay'' ''Delay''
        ''Wait a fixed duration before continuing; waits over 5 minutes suspend the run and resume on schedule (max 30 days)''
        [config_key ''seconds'' ''Seconds'' ''number'' [] (''5 (over 300 suspends, up to 30 days)'') True],
      Delay_Execute E),
     (type_info ''wait.callback'' ''Wait for Callback''
        ''Suspend until an external HTTP callback resumes this step''
        [config_key ''note'' ''Note'' ''text'' [] (''Shown in the output while waiting (e.g. what to approve)'') False],
      WaitCallback_Execute)]"

definition Default :: "step_env \<Rightarrow> step_registry" where
  "Default E = foldl (\<lambda>r (info, e). Register info e r) NewRegistry (default_registrations E)"

text \<open>The \<^verbatim>\<open>json\<close> tags of the descriptions: options, placeholder and required are \<^verbatim>\<open>omitempty\<close>.\<close>

definition config_key_json :: "ConfigKey \<Rightarrow> json" where
  "config_key_json k = JObj
     ([(''key'', JStr (ck_Key k)), (''label'', JStr (ck_Label k)), (''kind'', JStr (ck_Kind k))] @
      (if ck_Options k = [] then [] else [(''options'', JArr (map JStr (ck_Options k)))]) @
      (if ck_Placeholder k = [] then [] else [(''placeholder'', JStr (ck_Placeholder k))]) @
      (if ck_Required k then [(''required'', JBool True)] else []))"

definition type_info_json :: "TypeInfo \<Rightarrow> json" where
  "type_info_json t = JObj
     [(''type'', JStr (ty_Type t)), (''label'', JStr (ty_Label t)), (''description'', JStr (ty_Description t)),
      (''config_spec'', JArr (map config_key_json (ty_ConfigSpec t)))]"

text \<open>The engine the process runs: the vault behind the services, the default registry.\<close>

definition vault_services :: "externals \<Rightarrow> aead \<Rightarrow> vault \<Rightarrow> resources \<Rightarrow> services" where
  "vault_services X A v R = \<lparr>sv_APIKey = resolve_APIKey X A v R, sv_Server = resolve_Server A v R\<rparr>"

definition default_engine :: "step_env \<Rightarrow> aead \<Rightarrow> vault \<Rightarrow> resources \<Rightarrow> engine" where
  "default_engine E A v R =
     \<lparr>Secrets = Some (WorkspaceSecrets (sx_X E) A v R),
      Registry = registry_Get (Default (E\<lparr>sx_Services := vault_services (sx_X E) A v R\<rparr>))\<rparr>"

section \<open>Facts\<close>

lemma Default_infos: "rg_infos (foldl (\<lambda>r (info, e). Register info e r) r0 xs) = rg_infos r0 @ map fst xs"
  by (induction xs arbitrary: r0) (auto simp: Register_def)

lemma Default_executors:
  "map_of (rg_executors (foldl (\<lambda>r (info, e). Register info e r) r0 xs)) t =
     (case find (\<lambda>x. ty_Type (fst x) = t) (rev xs) of Some x \<Rightarrow> Some (snd x) | None \<Rightarrow> map_of (rg_executors r0) t)"
proof (induction xs arbitrary: r0 rule: rev_induct)
  case (snoc x xs)
  then show ?case by (cases x) (auto simp: Register_def update_conv split: option.splits)
qed simp

text \<open>The palette and the executors agree: a type is listed exactly when it can be run.\<close>

lemma Default_lists_what_it_runs: "registry_Has (Default E) t \<longleftrightarrow> t \<in> ty_Type ` set (Types (Default E))"
proof -
  have "find (\<lambda>x. ty_Type (fst x) = t) (rev xs) = None \<longleftrightarrow> t \<notin> ty_Type ` fst ` set xs" for xs :: "(TypeInfo \<times> executor) list"
    by (force simp: find_None_iff)
  moreover have "registry_Has (Default E) t \<longleftrightarrow> find (\<lambda>x. ty_Type (fst x) = t) (rev (default_registrations E)) \<noteq> None"
    by (simp add: registry_Has_def Default_def Default_executors NewRegistry_def split: option.splits)
  ultimately show ?thesis by (simp add: Types_def Default_def Default_infos NewRegistry_def)
qed

end
