(* ===== verification/Platform.thy ===== *)
theory Platform
  imports Step_Executors Accounts
begin

text \<open>
  The process around the engine: the migrations (\<^verbatim>\<open>internal/db/db.go\<close>), the start-up and the
  top-level routes of \<^verbatim>\<open>cmd/api/main.go\<close> with the health check and the CORS wrapper, the embedded
  web UI (\<^verbatim>\<open>internal/webui/webui.go\<close>) and the list of step types, and the queues of
  the job client (\<^verbatim>\<open>engine.New\<close>). SQL, sockets and the
  file system of the build are parameters.
\<close>

section \<open>Migrations\<close>

text \<open>The database as the migrator sees it: the names in \<^verbatim>\<open>schema_migrations\<close>, and the rest.\<close>

record 'd migrated =
  mg_applied :: "string list"
  mg_schema :: 'd

text \<open>One migration in its transaction: the script, then its name; an error leaves nothing.\<close>

definition migrate_one ::
  "(string \<Rightarrow> 'd \<Rightarrow> 'd result) \<Rightarrow> string \<times> string \<Rightarrow> 'd migrated \<Rightarrow> 'd migrated result" where
  "migrate_one exec m s =
     (if fst m \<in> set (mg_applied s) then Inr s
      else case exec (snd m) (mg_schema s) of
        Inl e \<Rightarrow> Inl (Wrapf (''migration '' @ fst m) e)
      | Inr d \<Rightarrow> Inr \<lparr>mg_applied = mg_applied s @ [fst m], mg_schema = d\<rparr>)"

text \<open>The loop in the order of the names: the error that stops it, and the state it leaves.\<close>

fun migrate_all ::
  "(string \<Rightarrow> 'd \<Rightarrow> 'd result) \<Rightarrow> (string \<times> string) list \<Rightarrow> 'd migrated \<Rightarrow> go_error option \<times> 'd migrated" where
  "migrate_all exec [] s = (None, s)"
| "migrate_all exec (m # ms) s =
     (case migrate_one exec m s of
        Inl e \<Rightarrow> (Some e, s)
      | Inr s' \<Rightarrow> migrate_all exec ms s')"

definition Migrate ::
  "(string \<Rightarrow> 'd \<Rightarrow> 'd result) \<Rightarrow> (string \<times> string) list \<Rightarrow> 'd migrated \<Rightarrow> go_error option \<times> 'd migrated" where
  "Migrate exec entries s = migrate_all exec (sort_key fst entries) s"

section \<open>Start-up\<close>

definition envOr :: "(string \<Rightarrow> string) \<Rightarrow> string \<Rightarrow> string \<Rightarrow> string" where
  "envOr env key fallback = (if env key \<noteq> [] then env key else fallback)"

text \<open>
  \<^verbatim>\<open>connectDB\<close>: ten attempts a second apart. \<open>try i\<close> is the outcome of attempt \<open>i\<close>, \<open>ctxErr i\<close> whether
  the context ends in the second after it.
\<close>

fun connect_from :: "nat \<Rightarrow> nat \<Rightarrow> (nat \<Rightarrow> 'p result) \<Rightarrow> (nat \<Rightarrow> go_error option) \<Rightarrow> go_error \<Rightarrow> 'p result" where
  "connect_from 0 i attempt ctxErr lastErr = Inl lastErr"
| "connect_from (Suc n) i attempt ctxErr lastErr =
     (case attempt i of
        Inr pool \<Rightarrow> Inr pool
      | Inl e \<Rightarrow> (case ctxErr i of Some c \<Rightarrow> Inl c | None \<Rightarrow> connect_from n (Suc i) attempt ctxErr e))"

definition connectDB :: "(nat \<Rightarrow> 'p result) \<Rightarrow> (nat \<Rightarrow> go_error option) \<Rightarrow> 'p result" where
  "connectDB attempt ctxErr = connect_from 10 0 attempt ctxErr (Errorf [])"

text \<open>
  What \<^verbatim>\<open>main\<close> does in order, as far as others see it: take the advisory lock, migrate, migrate
  River, release the lock, start the workers, serve.
\<close>

datatype boot_event = Locked | Migrated | RiverMigrated | Unlocked | WorkersStarted | Listening

record 'd boot_env =
  be_env :: "string \<Rightarrow> string"
  be_connect :: "nat \<Rightarrow> unit result"
  be_ctxErr :: "nat \<Rightarrow> go_error option"
  be_lock :: "go_error option"
  be_exec :: "string \<Rightarrow> 'd \<Rightarrow> 'd result"
  be_entries :: "(string \<times> string) list"
  be_engine :: "go_error option"
  be_start :: "go_error option"

definition boot_mode :: "'d boot_env \<Rightarrow> string" where
  "boot_mode B = envOr (be_env B) ''OARLOCK_MODE'' ''all''"

text \<open>The events, whether the process goes on to serve, and the database it leaves.\<close>

definition boot :: "'d boot_env \<Rightarrow> 'd migrated \<Rightarrow> boot_event list \<times> bool \<times> 'd migrated" where
  "boot B s =
     (let mode = boot_mode B in
      if mode \<notin> {''all'', ''api'', ''worker''} then ([], False, s)
      else case connectDB (be_connect B) (be_ctxErr B) of
        Inl _ \<Rightarrow> ([], False, s)
      | Inr _ \<Rightarrow>
          (case vault_New (be_env B ''OARLOCK_MASTER_KEY'') of
             Inl _ \<Rightarrow> ([], False, s)
           | Inr v \<Rightarrow>
               if be_lock B \<noteq> None then ([], False, s)
               else (case Migrate (be_exec B) (be_entries B) s of
                  (Some _, s') \<Rightarrow> ([Locked], False, s')
                | (None, s') \<Rightarrow>
                    if be_engine B \<noteq> None then ([Locked, Migrated, Unlocked], False, s')
                    else let evs = [Locked, Migrated, RiverMigrated, Unlocked] in
                      if mode = ''api'' then (evs @ [Listening], True, s')
                      else if be_start B \<noteq> None then (evs, False, s')
                      else (evs @ [WorkersStarted, Listening], True, s'))))"

section \<open>Top-level routes\<close>

text \<open>
  The patterns of the outer \<^verbatim>\<open>ServeMux\<close>; the most specific one that matches method and path wins.
  \<open>RedirectSlash\<close> is the answer to a subtree without its slash, \<open>NoRoute\<close> is 404. The path is clean.
\<close>

datatype endpoint = Healthz | ApiV1 | HooksIngress | ResumeIngress | McpEndpoint | WebUI | RedirectSlash | NoRoute

fun path_parts :: "string \<Rightarrow> string list" where
  "path_parts [] = [[]]"
| "path_parts (c # s) =
     (if c = CHR ''/'' then [] # path_parts s
      else case path_parts s of p # ps \<Rightarrow> (c # p) # ps | [] \<Rightarrow> [[c]])"

definition get_or_head :: "string \<Rightarrow> bool" where
  "get_or_head m \<longleftrightarrow> m = ''GET'' \<or> m = ''HEAD''"

definition top_mux :: "string \<Rightarrow> string \<Rightarrow> string \<Rightarrow> endpoint" where
  "top_mux mode method path =
     (if path = ''/healthz'' \<and> get_or_head method then Healthz
      else if mode = ''worker'' then NoRoute
      else if HasPrefix path ''/v1/'' then ApiV1
      else if path = ''/v1'' then RedirectSlash
      else case path_parts path of
        [[], h, ws, p] \<Rightarrow>
          if h = ''hooks'' \<and> ws \<noteq> [] \<and> p \<noteq> [] \<and> method = ''POST'' then HooksIngress
          else if h = ''mcp'' then McpEndpoint else WebUI
      | [[], h, t] \<Rightarrow>
          if h = ''resume'' \<and> t \<noteq> [] \<and> method = ''POST'' then ResumeIngress
          else if h = ''mcp'' then McpEndpoint else WebUI
      | _ \<Rightarrow> if path = ''/mcp'' \<or> HasPrefix path ''/mcp/'' then McpEndpoint else WebUI)"

text \<open>\<^verbatim>\<open>CORS\<close>: the headers it sets, and whether the request goes on to the next handler.\<close>

definition cors_allowed :: "string list \<Rightarrow> string \<Rightarrow> bool" where
  "cors_allowed origins origin \<longleftrightarrow> origin \<in> set (filter (\<lambda>o'. o' \<noteq> []) (map TrimSpace origins))"

definition CORS :: "string list \<Rightarrow> string \<Rightarrow> request \<Rightarrow> (string \<times> string) list \<times> bool" where
  "CORS origins method r =
     (let origin = Header_Get r ''Origin'' in
      ([(''Vary'', ''Origin'')] @
       (if origin \<noteq> [] \<and> cors_allowed origins origin
        then [(''Access-Control-Allow-Origin'', origin), (''Access-Control-Allow-Credentials'', ''true'')] else []) @
       [(''Access-Control-Allow-Methods'', ''GET, POST, PUT, PATCH, DELETE, OPTIONS''),
        (''Access-Control-Allow-Headers'', ''Content-Type, Authorization'')],
       method \<noteq> ''OPTIONS''))"

definition healthz :: "string \<Rightarrow> go_error option \<Rightarrow> go_error option \<Rightarrow> response" where
  "healthz mode pg vk =
     (let status = (if pg = None then 200 else 503);
          checks = [(''postgres'', JStr (case pg of None \<Rightarrow> ''ok'' | Some e \<Rightarrow> error_text e)),
                    (''valkey'', JStr (case vk of None \<Rightarrow> ''ok''
                       | Some e \<Rightarrow> (if pg = None then ''degraded: '' @ error_text e else error_text e)))] in
      s_json status (JObj [(''status'', JStr (if status = 200 then ''ok'' else ''unhealthy'')), (''name'', JStr ''oarlock''),
        (''version'', JStr ''0.1.0''), (''mode'', JStr mode), (''checks'', JObj checks)]))"

definition listStepTypes :: "step_registry \<Rightarrow> response" where
  "listStepTypes reg = s_json 200 (JArr (map type_info_json (Types reg)))"

section \<open>The web UI\<close>

text \<open>\<^verbatim>\<open>http.FileServerFS\<close> redirects the path of an \<^verbatim>\<open>index.html\<close> to its directory.\<close>

definition HasSuffix :: "string \<Rightarrow> string \<Rightarrow> bool" where
  "HasSuffix s p \<longleftrightarrow> HasPrefix (rev s) (rev p)"

datatype fs_entry = Dir | File string

record page =
  pg_status :: int
  pg_cache :: "string option"
  pg_body :: string

definition webui_Handler :: "(string \<Rightarrow> fs_entry option) \<Rightarrow> string \<Rightarrow> string \<Rightarrow> page" where
  "webui_Handler files method urlPath =
     (if \<not> get_or_head method then \<lparr>pg_status = 405, pg_cache = None, pg_body = ''method not allowed''\<rparr>
      else
        let path = (if HasPrefix urlPath ''/'' then drop 1 urlPath else urlPath);
            shown = (\<lambda>b. if method = ''HEAD'' then [] else b) in
        case (if path = [] then None else files path) of
          Some (File b) \<Rightarrow>
            \<lparr>pg_status = (if HasSuffix path ''/index.html'' \<or> path = ''index.html'' then 301 else 200),
             pg_cache = (if HasPrefix path ''_app/immutable/'' then Some ''public, max-age=31536000, immutable'' else None),
             pg_body = (if HasSuffix path ''/index.html'' \<or> path = ''index.html'' then [] else shown b)\<rparr>
        | _ \<Rightarrow>
            (case files ''index.html'' of
               Some (File b) \<Rightarrow> \<lparr>pg_status = 200, pg_cache = Some ''no-cache'', pg_body = shown b\<rparr>
             | Some Dir \<Rightarrow> \<lparr>pg_status = 500, pg_cache = Some ''no-cache'', pg_body = ''ui not embedded in this build''\<rparr>
             | None \<Rightarrow> \<lparr>pg_status = 404, pg_cache = Some ''no-cache'', pg_body = ''ui not embedded in this build''\<rparr>))"

section \<open>The job client\<close>

text \<open>\<^verbatim>\<open>engine.New\<close>: the queues with their numbers of workers, and the kinds of job that have a worker.\<close>

definition QueueControl :: string where
  "QueueControl = ''control''"

definition QueueTasks :: string where
  "QueueTasks = ''tasks''"

definition Queues :: "(string \<times> nat) list" where
  "Queues = [(QueueControl, 10), (QueueTasks, 50)]"

fun job_Kind :: "job_args \<Rightarrow> string" where
  "job_Kind (AdvanceRunArgs r) = ''advance_run''"
| "job_Kind (ExecuteTaskArgs t) = ''execute_task''"
| "job_Kind (ResumeTaskArgs t) = ''resume_task''"

definition job_workers :: "string list" where
  "job_workers = [''advance_run'', ''execute_task'', ''resume_task'']"

text \<open>Every job the engine inserts goes to a queue that is worked, and is of a kind that has a worker.\<close>

lemma every_job_is_worked:
  "(\<exists>n. (fst (InsertOpts a), n) \<in> set Queues \<and> 0 < n) \<and> job_Kind a \<in> set job_workers"
  by (cases a) (auto simp: Queues_def QueueControl_def QueueTasks_def job_workers_def)

section \<open>Migrations are applied once and in order\<close>

definition pending :: "(string \<times> string) list \<Rightarrow> 'd migrated \<Rightarrow> (string \<times> string) list" where
  "pending ms s = filter (\<lambda>m. fst m \<notin> set (mg_applied s)) ms"

abbreviation run_scripts ::
  "(string \<Rightarrow> 'd \<Rightarrow> 'd result) \<Rightarrow> (string \<times> string) list \<Rightarrow> 'd \<Rightarrow> 'd result" where
  "run_scripts exec ms d \<equiv> rfold (\<lambda>d m. exec (snd m) d) d ms"

lemma migrate_all_applies:
  assumes "distinct (map fst ms)" "migrate_all exec ms s = (e, s')"
  shows "\<exists>applied rest. pending ms s = applied @ rest \<and> mg_applied s' = mg_applied s @ map fst applied \<and>
    run_scripts exec applied (mg_schema s) = Inr (mg_schema s') \<and>
    (case rest of [] \<Rightarrow> e = None | m # _ \<Rightarrow> \<exists>x. exec (snd m) (mg_schema s') = Inl x \<and> e = Some (Wrapf (''migration '' @ fst m) x))"
  using assms
proof (induction ms arbitrary: s)
  case Nil
  then show ?case by (intro exI [of _ "[]"]) (simp add: pending_def)
next
  case (Cons m ms)
  show ?case
  proof (cases "fst m \<in> set (mg_applied s)")
    case True
    with Cons.prems have "migrate_all exec ms s = (e, s')" by (simp add: migrate_one_def)
    with Cons True show ?thesis by (simp add: pending_def)
  next
    case new: False
    show ?thesis
    proof (cases "exec (snd m) (mg_schema s)")
      case (Inl x)
      with new Cons.prems have "e = Some (Wrapf (''migration '' @ fst m) x)" "s' = s" by (auto simp: migrate_one_def)
      with Inl new show ?thesis by (intro exI [of _ "[]"] exI [of _ "pending (m # ms) s"]) (simp add: pending_def)
    next
      case (Inr d)
      let ?s = "\<lparr>mg_applied = mg_applied s @ [fst m], mg_schema = d\<rparr>"
      from new Inr Cons.prems have "migrate_all exec ms ?s = (e, s')" by (simp add: migrate_one_def)
      from Cons.IH [OF _ this] Cons.prems(1) obtain applied rest where IH:
        "pending ms ?s = applied @ rest" "mg_applied s' = mg_applied ?s @ map fst applied"
        "run_scripts exec applied (mg_schema ?s) = Inr (mg_schema s')"
        "case rest of [] \<Rightarrow> e = None | m # _ \<Rightarrow> \<exists>x. exec (snd m) (mg_schema s') = Inl x \<and> e = Some (Wrapf (''migration '' @ fst m) x)"
        by auto
      have "pending (m # ms) s = m # pending ms ?s"
      proof -
        have "\<forall>x \<in> set ms. fst x \<noteq> fst m" using Cons.prems(1) by (simp add: image_iff) metis
        with new show ?thesis by (auto simp: pending_def intro!: filter_cong)
      qed
      with IH Inr show ?thesis by (intro exI [of _ "m # applied"] exI [of _ rest]) simp
    qed
  qed
qed

lemma migrate_all_again:
  assumes "migrate_all exec ms s = (e, s')" "set (mg_applied s) \<subseteq> set (mg_applied u)"
    "set (mg_applied u) \<subseteq> set (mg_applied s')" "mg_schema u = mg_schema s'" "mg_applied u = mg_applied s'"
  shows "migrate_all exec ms u = (e, u)"
  using assms
proof (induction ms arbitrary: s)
  case (Cons m ms)
  have mono: "migrate_all exec ms s1 = (e1, s2) \<Longrightarrow> set (mg_applied s1) \<subseteq> set (mg_applied s2)" for ms s1 e1 s2
    by (induction ms arbitrary: s1) (force simp: migrate_one_def split: if_splits sum.splits)+
  show ?case
  proof (cases "migrate_one exec m s")
    case (Inl x)
    with Cons.prems have "s' = s" "e = Some x" by auto
    with Inl Cons.prems(4,5) show ?thesis by (auto simp: migrate_one_def split: if_splits sum.splits)
  next
    case (Inr s1)
    with Cons.prems have rest: "migrate_all exec ms s1 = (e, s')" by simp
    have "fst m \<in> set (mg_applied s1)" using Inr by (auto simp: migrate_one_def split: if_splits sum.splits)
    then have "fst m \<in> set (mg_applied u)" using mono [OF rest] Cons.prems(5) by auto
    moreover have "migrate_all exec ms u = (e, u)"
      using Cons.IH [OF rest] mono [OF rest] Cons.prems by simp
    ultimately show ?thesis by (simp add: migrate_one_def)
  qed
qed simp

text \<open>
  C25. Migrations are applied once and in order. A migrator runs the scripts that are not recorded
  yet, in the order of their names, up to the first that fails: the schema is what exactly those scripts
  make of it, each is recorded right after the earlier ones, the failing one leaves no trace, and an error is reported
  exactly when some remain. A second migrator after it, another replica or a restart, changes nothing and
  reports the same.
\<close>

theorem migrations_apply_once_in_order:
  assumes "distinct (map fst entries)" and "Migrate exec entries s = (e, s')"
  shows "\<exists>applied rest.
    filter (\<lambda>m. fst m \<notin> set (mg_applied s)) (sort_key fst entries) = applied @ rest \<and>
    mg_applied s' = mg_applied s @ map fst applied \<and>
    rfold (\<lambda>d m. exec (snd m) d) (mg_schema s) applied = Inr (mg_schema s') \<and>
    (e = None \<longleftrightarrow> rest = []) \<and> Migrate exec entries s' = (e, s')"
proof -
  let ?ms = "sort_key fst entries"
  have run: "migrate_all exec ?ms s = (e, s')" using assms(2) by (simp add: Migrate_def)
  have "distinct (map fst ?ms)" using assms(1) by (simp add: distinct_map)
  from migrate_all_applies [OF this run] obtain applied rest where
    a: "pending ?ms s = applied @ rest" "mg_applied s' = mg_applied s @ map fst applied"
      "run_scripts exec applied (mg_schema s) = Inr (mg_schema s')"
    and e: "case rest of [] \<Rightarrow> e = None | m # _ \<Rightarrow> \<exists>x. exec (snd m) (mg_schema s') = Inl x \<and> e = Some (Wrapf (''migration '' @ fst m) x)"
    by blast
  have "e = None \<longleftrightarrow> rest = []" using e by (cases rest) auto
  moreover have "Migrate exec entries s' = (e, s')"
    using migrate_all_again [OF run, of s'] a(2) by (simp add: Migrate_def)
  ultimately show ?thesis using a unfolding pending_def by blast
qed

definition demo_exec :: "string \<Rightarrow> nat \<Rightarrow> nat result" where
  "demo_exec sql d = (if sql = ''bad'' then Inl (Errorf sql) else Inr (d + length sql))"

definition demo_entries :: "(string \<times> string) list" where
  "demo_entries = [(''3'', ''bad''), (''2'', ''create''), (''1'', ''drop'')]"

theorem migrations_apply_once_in_order_witness:
  "Migrate demo_exec demo_entries \<lparr>mg_applied = [''1'', ''2''], mg_schema = 6\<rparr> =
     (Some (Wrapf ''migration 3'' (Errorf ''bad'')), \<lparr>mg_applied = [''1'', ''2''], mg_schema = 6\<rparr>)"
proof -
  have d: "distinct (map fst demo_entries)" by code_simp
  have m: "Migrate demo_exec demo_entries \<lparr>mg_applied = [''1''], mg_schema = 0\<rparr> =
      (Some (Wrapf ''migration 3'' (Errorf ''bad'')), \<lparr>mg_applied = [''1'', ''2''], mg_schema = 6\<rparr>)" by code_simp
  from migrations_apply_once_in_order [OF d m] show ?thesis by blast
qed

text \<open>A process that serves has migrated the schema, and has given back the lock before its workers start.\<close>

lemma boot_serves:
  assumes "boot B s = (evs, True, s')"
  shows "Migrate (be_exec B) (be_entries B) s = (None, s') \<and>
    (\<exists>rest. evs = [Locked, Migrated, RiverMigrated, Unlocked] @ rest) \<and> (WorkersStarted \<in> set evs \<longleftrightarrow> boot_mode B \<noteq> ''api'')"
  using assms by (auto simp: boot_def Let_def split: if_splits sum.splits option.splits prod.splits)

text \<open>A worker replica serves nothing but its health check.\<close>

lemma worker_serves_healthz_only: "top_mux ''worker'' method path \<noteq> Healthz \<Longrightarrow> top_mux ''worker'' method path = NoRoute"
  by (cases "path = ''/healthz'' \<and> get_or_head method") (simp_all add: top_mux_def)

end
