(* ===== verification/Spec2Isabelle.thy ===== *)
theory Spec2Isabelle
  imports Ownership Observe_Facts Step_Facts Platform
begin

text \<open>
  A verification library for the oarlock workflow engine (\<^verbatim>\<open>src/engine\<close>).

  \<^bold>\<open>The program.\<close> Oarlock stores workflows as versioned JSON documents of steps with dependencies and
  runs them. Postgres holds all state: workflows, versions, triggers, runs, one row per attempt of a
  step (a task), suspensions, the job queue of the library River, accounts, resources, task logs. A
  run is started over HTTP, by a webhook, by the scheduler or by an MCP client. The \<^emph>\<open>advance\<close> job
  of a run reads its tasks, decides whether the run has failed or succeeded, and otherwise inserts
  the tasks whose dependencies are done, each with an \<^emph>\<open>execute\<close> job. An execute job loads the task,
  interpolates its configuration, marks it running, calls the executor of its step type and records
  the outcome, which enqueues the next advance, a retry, or a suspension that a \<^emph>\<open>resume\<close> job or a
  callback ends. The reaper fails tasks whose worker has died. Processes share nothing but the
  database, so what the components promise each other are invariants of its tables.

  \<^bold>\<open>How the model is made.\<close> A table is a list of records, a statement a function on the record
  \<open>db\<close> (\<open>Store\<close>), a transaction a function to \<open>go_error + db\<close>: \<open>Inl\<close> is an error with everything
  rolled back. An HTTP handler is a function from a request and the tables to a response and the
  tables; the clock and the random bytes it draws are parts of the request. Definitions keep the names
  of the Go functions, and the branches of a definition are the branches and early returns of its
  function. Definitions that model code are executable; the walk over a cron schedule, which may not end, is a
  partial function. Identifiers are natural numbers, Go's strings lists of characters (their
  bytes), integers unbounded except where their width matters (the counter of log bytes is a 64-bit
  word, decoded integers are checked to fit), numbers in JSON stay text.

  \<^bold>\<open>Theories.\<close>

  \<^item> Vocabulary: \<open>Prelude\<close> (types, errors, result combinators, list lemmas), \<open>Go_Strings\<close> (the used
    parts of \<^verbatim>\<open>strings\<close>, \<^verbatim>\<open>strconv\<close>, \<^verbatim>\<open>fmt\<close>), \<open>Go_Json\<close> (\<^verbatim>\<open>json.Marshal\<close>).
  \<^item> \<^verbatim>\<open>internal/definition\<close>: \<open>Workflow_Definition\<close> (lookup, \<^verbatim>\<open>TransitiveNeeds\<close>, \<^verbatim>\<open>Validate\<close>, \<^verbatim>\<open>checkAcyclic\<close>;
    \<open>Validate\<close> accepts exactly the valid acyclic definitions, a reported cycle is one) and
    \<open>Definition_Parse\<close> (\<^verbatim>\<open>Parse\<close> by struct tags, inverse to the encoding).
  \<^item> \<^verbatim>\<open>internal/db\<close>: \<open>Store\<close> (rows, constraints, statements of the engine), \<open>Store_Facts\<close> (latest attempts,
    the invariant \<open>wf_store\<close>, the contract \<open>lifecycle\<close> every transaction meets, the locale
    \<open>task_lifecycle\<close>), \<open>Sample\<close> (a concrete store for the witnesses). The migrator is in \<open>Platform\<close>.
  \<^item> \<^verbatim>\<open>internal/engine\<close>: \<open>Runs\<close> (\<^verbatim>\<open>engine.go\<close>: start, cancel, retry), \<open>Expressions\<close> and \<open>Execute\<close>
    (\<^verbatim>\<open>execute.go\<close>: context, interpolation, the four phases of \<^verbatim>\<open>Work\<close>, finishing, suspending),
    \<open>Redact\<close> (\<^verbatim>\<open>redact.go\<close>), \<open>Resume\<close> (\<^verbatim>\<open>resume.go\<close>), \<open>Advance\<close> (\<^verbatim>\<open>advance.go\<close>), \<open>Reaper\<close>
    (\<^verbatim>\<open>reaper.go\<close>), \<open>Scheduler\<close> (\<^verbatim>\<open>scheduler.go\<close>), \<open>Task_Log\<close> (\<^verbatim>\<open>dblog.go\<close>). \<open>Engine_System\<close> composes them
    into a step relation over every interleaving of transactions, workers between their phases,
    deaths of workers and lost jobs; \<open>Engine_Invariants\<close> proves its invariants by rule induction.
  \<^item> \<^verbatim>\<open>internal/steps\<close>: \<open>Step_Executors\<close> (the registry and the seven executors), \<open>Step_Facts\<close>.
    \<^verbatim>\<open>internal/vault\<close>: \<open>Vault\<close>. \<^verbatim>\<open>internal/mcpclient\<close>: \<open>Mcp_Client\<close>.
  \<^item> \<^verbatim>\<open>internal/api\<close>: \<open>Http\<close> (requests, responses, body decoding), \<open>Passwords\<close> (\<^verbatim>\<open>password.go\<close>),
    \<open>Login_Limiter\<close> (\<^verbatim>\<open>ratelimit.go\<close>), \<open>Accounts\<close> and \<open>Accounts_Facts\<close> (\<^verbatim>\<open>auth.go\<close>, \<^verbatim>\<open>users.go\<close>,
    \<^verbatim>\<open>tokens.go\<close>), \<open>Triggers_Api\<close> and \<open>Triggers_Facts\<close> (\<^verbatim>\<open>triggers.go\<close>, \<^verbatim>\<open>hooks.go\<close>, \<^verbatim>\<open>resume.go\<close>),
    \<open>Workflows_Api\<close> and \<open>Workflows_Facts\<close> (\<^verbatim>\<open>api.go\<close>, the tools of \<^verbatim>\<open>mcpserver.go\<close>), \<open>Resources_Api\<close> and
    \<open>Resources_Facts\<close> (\<^verbatim>\<open>resources.go\<close>), \<open>Runs_Live\<close> (event stream, logs and download of \<^verbatim>\<open>api.go\<close>),
    \<open>Stats_Api\<close> (\<^verbatim>\<open>stats.go\<close>), \<open>Observe_Facts\<close>, \<open>Mcp_Server\<close> (the rest of \<^verbatim>\<open>mcpserver.go\<close>).
  \<^item> \<^verbatim>\<open>cmd/api\<close>, \<^verbatim>\<open>internal/db/db.go\<close>, \<^verbatim>\<open>internal/webui\<close>: \<open>Platform\<close> (migrations, order of start-up, outer
    routes, health check, CORS, embedded UI, queues of the job client) and \<open>Gateway\<close> (patterns of the
    API, authentication in front of the routes, ingress).
  \<^item> Across components: \<open>Tenancy\<close> and \<open>Isolation\<close> (which rows belong to a workspace; routes that write
    only the caller's rows, routes that read only them), \<open>Ownership\<close> (the agreement of the ownership
    columns as an invariant of engine, API, ingress and MCP tools together).

  \<^bold>\<open>What the theorems show.\<close>

  \<^item> Engine, over all interleavings: steps run in dependency order; no unfinished run is without a
    pending advance or an active task; while no execute job is lost, every active task has something
    that moves it on. Per operation: the exact outcome and idempotence of an advance, starts guarded
    by an idempotency key, at most one start of a task, cancel wins over work in flight, which steps
    a retry redoes, when a failure is retried, what a sweep of the reaper fails, resume tokens used
    once, activations a sweep of the scheduler selects, bounds of backoff and delays.
  \<^item> Secrets: what the engine persists contains none; a stored secret is the one tasks get; one in use is
    not deleted; a provider's key goes to that provider only. Logs stay within their bound.
  \<^item> Accounts: sequences of requests never lock a workspace out or reopen the first-run page, and
    the admin surface needs an admin session; but two deletions in flight can remove every admin.
    The pruning login limiter refines the full history of failures.
  \<^item> Workspaces: requests change nothing without a live credential, and with one only rows of its
    workspace; whatever other workspaces do, a workspace's rows and what its members read stay the
    same; every row keeps its owner however the processes interleave.
  \<^item> API: webhooks start runs only when authentic and once per delivery; saving a definition publishes a
    new version; the event stream shows the end of the run; the dashboard adds up; the table of
    routes is free of conflicts; migrations apply once and in order.

  \<^bold>\<open>Interfaces.\<close> The contract of a transaction is the locale \<open>task_lifecycle\<close>, extended by
    \<open>quiet_transaction\<close>, interpreted for the engine's operations; \<open>guarded_handler\<close> and \<open>admin_handler\<close>
    are those of account routes, \<open>resource_route\<close> of resource routes, \<open>tenant_route\<close> and \<open>reading_route\<close> of
    routes over the store, \<open>attempt_limiter\<close> of the login limiter; each is interpreted on the
    program's own definitions.

  \<^bold>\<open>Bounds and termination.\<close> Loops over lists are structural. String loops that are not
    (\<^verbatim>\<open>strings.ReplaceAll\<close>, the slug's dashes, the segments of a template) end by a measure, the length
    of what is left. The depth-first searches over a definition end by the steps not yet visited. The walk over a
    cron schedule is proved to return for every schedule whose activations increase. Database connection
    is tried ten times, as in the code. The bound of task logs assumes fewer than \<open>2 ^ 48\<close> log lines,
    below which the 64-bit counter does not wrap. Lists of observations (ticks of a poll, what a stream's
    queries return) are arguments of unbounded length.

  \<^bold>\<open>Parameters.\<close> Code outside the repository is an argument of the definitions that use it, with its
    documented behaviour as a named hypothesis where a theorem needs it: \<open>externals\<close> (identifiers
    Postgres generates, acceptance and decoding of jsonb, the JavaScript engine, SHA-256), \<open>cron_env\<close>
    (the cron parser, times as text), \<open>api_env\<close> (argon2, parsing of UUIDs, timestamps as text), the
    vault's AES-GCM, the MCP SDK, HTTP and float arithmetic of the executors, SQL scripts of the
    migrations, the file tree of the UI.

  \<^bold>\<open>Not modelled.\<close>

  \<^item> Lost database connections in the middle of a handler, apart from the errors the code distinguishes.
  \<^item> Creation times of workflows, versions, triggers and resources: tables list rows in order of
    creation, responses leave the time out.
  \<^item> Change notifications over Valkey (\<^verbatim>\<open>notify\<close>, \<^verbatim>\<open>RunChannel\<close>): nothing depends on them, the event
    stream also polls. Informational log lines of executors.
  \<^item> The tickers of reaper and scheduler, which only repeat the sweeps; the River client and its
    migrations; the JSON-RPC of the MCP SDK; the listening socket and the shutdown on a signal.
  \<^item> The cap on JSON bodies of the API appears as a request without a body (for the two ingress handlers it
    is \<open>MaxBody\<close>); cleaning and percent-decoding of paths by the standard library.
  \<^item> The web frontend (\<^verbatim>\<open>src/web\<close>), build files and tests.
\<close>

end
